(* ===== verification/IM_Prelude.thy ===== *)
theory IM_Prelude
  imports Main "HOL-Library.Word"
begin

text \<open>
  Shared vocabulary of the development: the types that stand for Go's byte slices, strings and
  errors, the collections of facts the component theories extend, and generic lemmas on lists
  and maps that several components use.

  A Go string is a sequence of bytes, so it is a HOL \<open>string\<close> (a character is one byte and
  \<open>length\<close> is Go's \<open>len\<close>). A \<open>[]byte\<close> is a list of 8-bit words. The Go types
  \<open>int64\<close> and \<open>int\<close> are HOL integers; the places where the code can leave the 64-bit
  range are written out where they occur.
\<close>

type_synonym byte = "8 word"
type_synonym bytes = "8 word list"
type_synonym u32 = "32 word"

text \<open>A computation that may run into a Go run-time panic (a slice bound out of range).\<close>

datatype 'a go = Ret 'a | Panic

named_theorems go_simps \<open>evaluation of the Go library functions on literals\<close>
named_theorems key_simps \<open>shape and separation of the Redis keys\<close>

definition int64_max :: int where
  "int64_max = 9223372036854775807"

definition int64_min :: int where
  "int64_min = - 9223372036854775808"

definition in_int64 :: "int \<Rightarrow> bool" where
  "in_int64 i \<longleftrightarrow> int64_min \<le> i \<and> i \<le> int64_max"

definition bytes_of_string :: "string \<Rightarrow> bytes" where
  "bytes_of_string s = map (\<lambda>c. word_of_nat (of_char c)) s"

definition string_of_bytes :: "bytes \<Rightarrow> string" where
  "string_of_bytes bs = map (\<lambda>b. char_of (unat b)) bs"

lemma unat_byte_less [simp]: "unat (b :: byte) < 256"
  using unsigned_less [of b, where ?'a = nat] by simp

lemma bytes_of_string_of_bytes [simp]: "bytes_of_string (string_of_bytes bs) = bs"
  by (induction bs) (simp_all add: bytes_of_string_def string_of_bytes_def)

lemma string_of_bytes_of_string [simp]: "string_of_bytes (bytes_of_string s) = s"
  by (induction s) (simp_all add: bytes_of_string_def string_of_bytes_def unat_of_nat)

lemma length_bytes_of_string [simp]: "length (bytes_of_string s) = length s"
  by (simp add: bytes_of_string_def)

lemma length_string_of_bytes [simp]: "length (string_of_bytes s) = length s"
  by (simp add: string_of_bytes_def)

subsection \<open>Lists\<close>

lemma takeWhile_all_append:
  "list_all P xs \<Longrightarrow> \<not> P y \<Longrightarrow> takeWhile P (xs @ y # ys) = xs"
  by (induction xs) auto

lemma dropWhile_all_append:
  "list_all P xs \<Longrightarrow> \<not> P y \<Longrightarrow> dropWhile P (xs @ y # ys) = y # ys"
  by (induction xs) auto

lemma takeWhile_all: "list_all P xs \<Longrightarrow> takeWhile P xs = xs"
  by (induction xs) auto

lemma dropWhile_all: "list_all P xs \<Longrightarrow> dropWhile P xs = []"
  by (induction xs) auto

text \<open>
  Splitting two equal concatenations at the first character outside a class: if both prefixes
  consist of characters of the class and both suffixes are empty or start outside it, the
  pieces agree.
\<close>

lemma append_separator_eq:
  assumes "list_all P xs" "list_all P xs'" "\<not> P s"
  shows "xs @ s # ys = xs' @ s # ys' \<longleftrightarrow> xs = xs' \<and> ys = ys'"
proof
  assume eq: "xs @ s # ys = xs' @ s # ys'"
  have "takeWhile P (xs @ s # ys) = xs" "takeWhile P (xs' @ s # ys') = xs'"
    by (rule takeWhile_all_append; fact assms)+
  then have "xs = xs'" by (simp only: eq)
  then show "xs = xs' \<and> ys = ys'"
    using eq by simp
qed simp

end
