(* ===== verification/Errs.thy ===== *)
theory Errs
  imports IM_Prelude
begin

text \<open>
  The error codes of \<open>pkg/errs/codes.go\<close>. A Go \<open>error\<close> is either an \<open>*IMError\<close>
  with its code and message or some other error (from a driver, from the network), of which only
  the text is known; \<open>nil\<close> is \<open>None\<close> where a definition returns \<open>error option\<close>.
\<close>

definition Success :: int where "Success = 0"
definition UserBanned :: int where "UserBanned = 1001"
definition ContentIllegal :: int where "ContentIllegal = 1002"
definition RateLimited :: int where "RateLimited = 1003"
definition ChannelNotFound :: int where "ChannelNotFound = 1004"
definition NotInChannel :: int where "NotInChannel = 1005"
definition ChannelUnavail :: int where "ChannelUnavail = 1006"
definition MsgTooLong :: int where "MsgTooLong = 1007"
definition AuthFailed :: int where "AuthFailed = 1008"
definition DuplicateMsg :: int where "DuplicateMsg = 1009"
definition ServerError :: int where "ServerError = 5000"

lemmas code_defs = Success_def UserBanned_def ContentIllegal_def RateLimited_def
  ChannelNotFound_def NotInChannel_def ChannelUnavail_def MsgTooLong_def AuthFailed_def
  DuplicateMsg_def ServerError_def

datatype err = IMError (err_code: int) (err_msg: string) | OtherError string

definition ErrUserBanned :: err where "ErrUserBanned = IMError UserBanned ''user is banned''"
definition ErrContentIllegal :: err where
  "ErrContentIllegal = IMError ContentIllegal ''content is illegal''"
definition ErrRateLimited :: err where "ErrRateLimited = IMError RateLimited ''rate limited''"
definition ErrChannelNotFound :: err where
  "ErrChannelNotFound = IMError ChannelNotFound ''channel not found''"
definition ErrNotInChannel :: err where
  "ErrNotInChannel = IMError NotInChannel ''user not in channel''"
definition ErrChannelUnavail :: err where
  "ErrChannelUnavail = IMError ChannelUnavail ''channel unavailable''"
definition ErrMsgTooLong :: err where "ErrMsgTooLong = IMError MsgTooLong ''message too long''"
definition ErrAuthFailed :: err where
  "ErrAuthFailed = IMError AuthFailed ''authentication failed''"
definition ErrDuplicateMsg :: err where
  "ErrDuplicateMsg = IMError DuplicateMsg ''duplicate message''"
definition ErrServerError :: err where
  "ErrServerError = IMError ServerError ''internal server error''"

lemmas err_defs = ErrUserBanned_def ErrContentIllegal_def ErrRateLimited_def
  ErrChannelNotFound_def ErrNotInChannel_def ErrChannelUnavail_def ErrMsgTooLong_def
  ErrAuthFailed_def ErrDuplicateMsg_def ErrServerError_def

fun ToCode :: "err option \<Rightarrow> int" where
  "ToCode None = Success"
| "ToCode (Some (IMError c m)) = c"
| "ToCode (Some (OtherError t)) = ServerError"

fun ToMsg :: "err option \<Rightarrow> string" where
  "ToMsg None = ''success''"
| "ToMsg (Some (IMError c m)) = m"
| "ToMsg (Some (OtherError t)) = t"

lemma im_errors_distinct:
  "distinct [ErrUserBanned, ErrContentIllegal, ErrRateLimited, ErrChannelNotFound,
     ErrNotInChannel, ErrChannelUnavail, ErrMsgTooLong, ErrAuthFailed, ErrDuplicateMsg,
     ErrServerError]"
  by (simp add: err_defs code_defs)

end
