(* ===== verification/Go_Lib.thy ===== *)
theory Go_Lib
  imports IM_Prelude
begin

text \<open>
  The part of Go's standard library that the program computes with: \<open>fmt.Sprintf\<close> with
  \<open>%d\<close>, \<open>fmt.Sscanf\<close> with \<open>%d\<close>, \<open>strconv.ParseInt\<close> in base ten and the
  UTF-8 decoder behind \<open>range\<close> over a string.
\<close>

subsection \<open>Decimal printing\<close>

definition digit_char :: "nat \<Rightarrow> char" where
  "digit_char n = char_of (48 + n)"

fun dec_nat :: "nat \<Rightarrow> string" where
  "dec_nat n = (if n < 10 then [digit_char n] else dec_nat (n div 10) @ [digit_char (n mod 10)])"

declare dec_nat.simps [simp del]

definition Sprintf_d :: "int \<Rightarrow> string" where
  "Sprintf_d i = (if i < 0 then CHR ''-'' # dec_nat (nat (- i)) else dec_nat (nat i))"

subsection \<open>UTF-8\<close>

definition rune_error :: nat where
  "rune_error = 65533"

text \<open>
  \<open>utf8.DecodeRune\<close>: the code point at the head of a non-empty byte sequence and its width;
  an invalid or truncated sequence is the replacement character with width one.
\<close>

fun decode_rune :: "nat list \<Rightarrow> nat \<times> nat" where
  "decode_rune [] = (rune_error, 0)"
| "decode_rune (b0 # bs) =
     (if b0 < 128 then (b0, 1)
      else if 194 \<le> b0 \<and> b0 \<le> 223 then
        (case bs of
           b1 # _ \<Rightarrow> if 128 \<le> b1 \<and> b1 \<le> 191
                     then ((b0 - 192) * 64 + (b1 - 128), 2) else (rune_error, 1)
         | _ \<Rightarrow> (rune_error, 1))
      else if 224 \<le> b0 \<and> b0 \<le> 239 then
        (case bs of
           b1 # b2 # _ \<Rightarrow>
             if (if b0 = 224 then 160 else 128) \<le> b1 \<and> b1 \<le> (if b0 = 237 then 159 else 191)
                \<and> 128 \<le> b2 \<and> b2 \<le> 191
             then ((b0 - 224) * 4096 + (b1 - 128) * 64 + (b2 - 128), 3) else (rune_error, 1)
         | _ \<Rightarrow> (rune_error, 1))
      else if 240 \<le> b0 \<and> b0 \<le> 244 then
        (case bs of
           b1 # b2 # b3 # _ \<Rightarrow>
             if (if b0 = 240 then 144 else 128) \<le> b1 \<and> b1 \<le> (if b0 = 244 then 143 else 191)
                \<and> 128 \<le> b2 \<and> b2 \<le> 191 \<and> 128 \<le> b3 \<and> b3 \<le> 191
             then ((b0 - 240) * 262144 + (b1 - 128) * 4096 + (b2 - 128) * 64 + (b3 - 128), 4)
             else (rune_error, 1)
         | _ \<Rightarrow> (rune_error, 1))
      else (rune_error, 1))"

definition string_codes :: "string \<Rightarrow> nat list" where
  "string_codes s = map of_char s"

lemma decode_rune_width:
  "bs \<noteq> [] \<Longrightarrow> 1 \<le> snd (decode_rune bs) \<and> snd (decode_rune bs) \<le> length bs"
  by (cases bs) (auto split: list.splits)

subsection \<open>Scanning\<close>

text \<open>\<open>isSpace\<close> of package fmt.\<close>

definition fmt_is_space :: "nat \<Rightarrow> bool" where
  "fmt_is_space r \<longleftrightarrow> (9 \<le> r \<and> r \<le> 13) \<or> r = 32 \<or> r = 133 \<or> r = 160 \<or> r = 5760 \<or>
     (8192 \<le> r \<and> r \<le> 8202) \<or> r = 8232 \<or> r = 8233 \<or> r = 8239 \<or> r = 8287 \<or> r = 12288"

text \<open>
  \<open>SkipSpace\<close> as \<open>Sscanf\<close> uses it: newlines are not space but an error (\<open>None\<close>).
\<close>

function skip_space :: "string \<Rightarrow> string option" where
  "skip_space s =
     (if s = [] then Some []
      else let (r, w) = decode_rune (string_codes s)
           in if r = 10 then None
              else if fmt_is_space r then skip_space (drop w s)
              else Some s)"
  by pat_completeness auto
termination
proof (relation "measure length")
  fix s :: string and x r w
  assume "s \<noteq> []" and x: "x = decode_rune (string_codes s)" and "(r, w) = x"
  then have "1 \<le> w"
    using decode_rune_width [of "string_codes s"] by (metis list.map_disc_iff snd_conv string_codes_def)
  with \<open>s \<noteq> []\<close> show "(drop w s, s) \<in> measure length"
    by (cases s) auto
qed simp

declare skip_space.simps [simp del]

definition is_digit :: "char \<Rightarrow> bool" where
  "is_digit c \<longleftrightarrow> 48 \<le> (of_char c :: nat) \<and> (of_char c :: nat) \<le> 57"

definition digits_val :: "string \<Rightarrow> nat" where
  "digits_val ds = foldl (\<lambda>a c. 10 * a + (of_char c - 48)) 0 ds"

text \<open>An optional sign, as \<open>(negative, rest)\<close>.\<close>

fun scan_sign :: "string \<Rightarrow> bool \<times> string" where
  "scan_sign [] = (False, [])"
| "scan_sign (c # cs) =
     (if c = CHR ''-'' then (True, cs) else if c = CHR ''+'' then (False, cs) else (False, c # cs))"

definition signed_range :: "bool \<Rightarrow> nat \<Rightarrow> int option" where
  "signed_range neg n =
     (let i = (if neg then - int n else int n) in if in_int64 i then Some i else None)"

text \<open>
  \<open>fmt.Sscanf(s, "%d", &x)\<close> for an \<open>int64\<close> operand: the value stored, or \<open>None\<close> when
  the call fails and the operand keeps its old value. Input after the digits is ignored.
\<close>

definition Sscanf_d :: "string \<Rightarrow> int option" where
  "Sscanf_d s =
     (case skip_space s of
        None \<Rightarrow> None
      | Some t \<Rightarrow>
          (let (neg, u) = scan_sign t; ds = takeWhile is_digit u
           in if ds = [] then None else signed_range neg (digits_val ds)))"

text \<open>\<open>var x int64; fmt.Sscanf(s, "%d", &x)\<close> with the error ignored.\<close>

definition Sscanf_d0 :: "string \<Rightarrow> int" where
  "Sscanf_d0 s = (case Sscanf_d s of None \<Rightarrow> 0 | Some i \<Rightarrow> i)"

text \<open>\<open>strconv.ParseInt(s, 10, 64)\<close>: the whole string has to be a number.\<close>

definition ParseInt :: "string \<Rightarrow> int option" where
  "ParseInt s =
     (let (neg, u) = scan_sign s
      in if u = [] \<or> \<not> list_all is_digit u then None else signed_range neg (digits_val u))"

subsection \<open>Printing and reading are inverse\<close>

lemma of_char_digit_char: "n < 10 \<Longrightarrow> (of_char (digit_char n) :: nat) = 48 + n"
  by (simp add: digit_char_def)

lemma is_digit_digit_char: "n < 10 \<Longrightarrow> is_digit (digit_char n)"
  by (simp add: is_digit_def of_char_digit_char)

lemma dec_nat_digits: "list_all is_digit (dec_nat n)"
proof (induction n rule: dec_nat.induct)
  case (1 n)
  then show ?case
    by (subst dec_nat.simps) (simp add: is_digit_digit_char)
qed

lemma dec_nat_nonempty [simp]: "dec_nat n \<noteq> []"
  by (subst dec_nat.simps) simp

lemma digits_val_snoc [simp]: "digits_val (ds @ [c]) = 10 * digits_val ds + (of_char c - 48)"
  by (simp add: digits_val_def)

lemma digits_val_dec_nat [simp]: "digits_val (dec_nat n) = n"
proof (induction n rule: dec_nat.induct)
  case (1 n)
  then show ?case
    by (subst dec_nat.simps)
      (simp add: digits_val_def of_char_digit_char del: digits_val_snoc; simp flip: digits_val_def
        add: of_char_digit_char)
qed

lemma hd_dec_nat_digit: "is_digit (hd (dec_nat n))"
  using dec_nat_digits [of n] dec_nat_nonempty [of n] by (cases "dec_nat n") auto

lemma is_digit_not_sign: "is_digit c \<Longrightarrow> c \<noteq> CHR ''-'' \<and> c \<noteq> CHR ''+'' \<and> c \<noteq> CHR '':''"
  by (auto simp: is_digit_def)

lemma scan_sign_digits: "list_all is_digit u \<Longrightarrow> u \<noteq> [] \<Longrightarrow> scan_sign u = (False, u)"
  using is_digit_not_sign by (cases u) auto

lemma scan_sign_Sprintf_d:
  "scan_sign (Sprintf_d i) = (i < 0, dec_nat (nat \<bar>i\<bar>))"
  by (simp add: Sprintf_d_def scan_sign_digits dec_nat_digits)

lemma signed_range_abs: "in_int64 i \<Longrightarrow> signed_range (i < 0) (nat \<bar>i\<bar>) = Some i"
  by (simp add: signed_range_def Let_def)

lemma ParseInt_Sprintf_d: "in_int64 i \<Longrightarrow> ParseInt (Sprintf_d i) = Some i"
  by (simp add: ParseInt_def scan_sign_Sprintf_d dec_nat_digits signed_range_abs)

lemma skip_space_ascii:
  "33 \<le> (of_char c :: nat) \<Longrightarrow> (of_char c :: nat) < 128 \<Longrightarrow> skip_space (c # s) = Some (c # s)"
  by (subst skip_space.simps) (simp add: string_codes_def fmt_is_space_def)

lemma Sprintf_d_head:
  obtains c cs where "Sprintf_d i = c # cs" "33 \<le> (of_char c :: nat)" "(of_char c :: nat) < 128"
proof (cases "i < 0")
  case True
  then show ?thesis
    by (intro that [of "CHR ''-''" "dec_nat (nat (- i))"]) (simp_all add: Sprintf_d_def)
next
  case False
  have "is_digit (hd (dec_nat (nat i)))" by (rule hd_dec_nat_digit)
  with False show ?thesis
    by (intro that [of "hd (dec_nat (nat i))" "tl (dec_nat (nat i))"])
      (simp_all add: Sprintf_d_def is_digit_def)
qed

lemma skip_space_Sprintf_d [simp]: "skip_space (Sprintf_d i) = Some (Sprintf_d i)"
  by (rule Sprintf_d_head [of i]) (simp add: skip_space_ascii)

lemma Sscanf_d_Sprintf_d: "in_int64 i \<Longrightarrow> Sscanf_d (Sprintf_d i) = Some i"
  by (simp add: Sscanf_d_def scan_sign_Sprintf_d takeWhile_all dec_nat_digits signed_range_abs)

lemma Sscanf_d0_Sprintf_d [simp]: "in_int64 i \<Longrightarrow> Sscanf_d0 (Sprintf_d i) = i"
  by (simp add: Sscanf_d0_def Sscanf_d_Sprintf_d)

lemma Sscanf_d_in_int64: "Sscanf_d s = Some i \<Longrightarrow> in_int64 i"
  by (auto simp: Sscanf_d_def signed_range_def Let_def split: option.splits prod.splits if_splits)

lemma dec_nat_inject [simp]: "dec_nat m = dec_nat n \<longleftrightarrow> m = n"
  by (metis digits_val_dec_nat)

lemma Sprintf_d_inject [simp]: "Sprintf_d i = Sprintf_d j \<longleftrightarrow> i = j"
proof
  assume "Sprintf_d i = Sprintf_d j"
  then have "(i < 0, dec_nat (nat \<bar>i\<bar>)) = (j < 0, dec_nat (nat \<bar>j\<bar>))"
    by (simp flip: scan_sign_Sprintf_d)
  then show "i = j" by (auto split: if_splits)
qed simp

lemma Sprintf_d_no_colon: "list_all (\<lambda>c. c \<noteq> CHR '':'') (Sprintf_d i)"
  using dec_nat_digits is_digit_not_sign by (auto simp: Sprintf_d_def list_all_iff)

lemma Sprintf_d_nonempty [simp]: "Sprintf_d i \<noteq> []"
  by (simp add: Sprintf_d_def)

end
