(* ===== verification/Chan_Id.thy ===== *)
theory Chan_Id
  imports Go_Lib
begin

text \<open>
  The channel identifiers of \<open>pkg/util/chanid.go\<close>, and the proof that the textual
  convention identifies a channel: two builders produce the same string only for the same kind
  of channel with the same arguments (a private channel up to the order of its two users).
\<close>

definition WorldChannelID :: string where
  "WorldChannelID = ''world''"

definition AllianceChannelID :: "int \<Rightarrow> string" where
  "AllianceChannelID allianceID = ''alliance:'' @ Sprintf_d allianceID"

definition ActivityChannelID :: "string \<Rightarrow> int \<Rightarrow> string" where
  "ActivityChannelID activityType groupID =
     ''activity:'' @ activityType @ '':'' @ Sprintf_d groupID"

definition PrivateChannelID :: "int \<Rightarrow> int \<Rightarrow> string" where
  "PrivateChannelID uid1 uid2 =
     (let (uid1, uid2) = (if uid1 > uid2 then (uid2, uid1) else (uid1, uid2))
      in ''private:'' @ Sprintf_d uid1 @ '':'' @ Sprintf_d uid2)"

definition SystemChannelID :: string where
  "SystemChannelID = ''system:global''"

text \<open>A channel named by its builder and the builder's arguments.\<close>

datatype chan_ref = World | Alliance int | Activity string int | Private int int | System

fun chan_id :: "chan_ref \<Rightarrow> string" where
  "chan_id World = WorldChannelID"
| "chan_id (Alliance a) = AllianceChannelID a"
| "chan_id (Activity t g) = ActivityChannelID t g"
| "chan_id (Private u v) = PrivateChannelID u v"
| "chan_id System = SystemChannelID"

fun same_channel :: "chan_ref \<Rightarrow> chan_ref \<Rightarrow> bool" where
  "same_channel (Private u v) (Private u' v') \<longleftrightarrow> {u, v} = {u', v'}"
| "same_channel a b \<longleftrightarrow> a = b"

lemmas chan_id_defs = WorldChannelID_def AllianceChannelID_def ActivityChannelID_def
  PrivateChannelID_def SystemChannelID_def

lemma colon_split:
  "Sprintf_d i @ CHR '':'' # s = Sprintf_d j @ CHR '':'' # t \<longleftrightarrow> i = j \<and> s = t"
  using append_separator_eq [OF Sprintf_d_no_colon Sprintf_d_no_colon, of "CHR '':''"]
  by simp

lemma colon_split_end:
  "s @ CHR '':'' # Sprintf_d i = t @ CHR '':'' # Sprintf_d j \<longleftrightarrow> s = t \<and> i = j"
proof -
  have no: "list_all (\<lambda>c. c \<noteq> CHR '':'') (rev (Sprintf_d k))" for k
    using Sprintf_d_no_colon [of k] by (simp add: list_all_iff)
  have "s @ CHR '':'' # Sprintf_d i = t @ CHR '':'' # Sprintf_d j \<longleftrightarrow>
      rev (Sprintf_d i) @ CHR '':'' # rev s = rev (Sprintf_d j) @ CHR '':'' # rev t"
    by (metis (no_types, lifting) append.assoc append_Cons append_Nil rev.simps(2) rev_append rev_rev_ident)
  also have "\<dots> \<longleftrightarrow> s = t \<and> i = j"
    using append_separator_eq [OF no no, of "CHR '':''"] by auto
  finally show ?thesis .
qed

lemma private_id_eq: "PrivateChannelID u v = PrivateChannelID u' v' \<longleftrightarrow> {u, v} = {u', v'}"
  by (auto simp: PrivateChannelID_def colon_split doubleton_eq_iff)

lemma alliance_id_eq: "AllianceChannelID a = AllianceChannelID b \<longleftrightarrow> a = b"
  by (simp add: AllianceChannelID_def)

lemma activity_id_eq: "ActivityChannelID t g = ActivityChannelID t' g' \<longleftrightarrow> t = t' \<and> g = g'"
  by (simp add: ActivityChannelID_def colon_split_end)

lemma id_kinds:
  "PrivateChannelID u v \<noteq> WorldChannelID" "PrivateChannelID u v \<noteq> AllianceChannelID a"
  "PrivateChannelID u v \<noteq> ActivityChannelID t g" "PrivateChannelID u v \<noteq> SystemChannelID"
  "AllianceChannelID a \<noteq> WorldChannelID" "AllianceChannelID a \<noteq> ActivityChannelID t g"
  "AllianceChannelID a \<noteq> SystemChannelID" "ActivityChannelID t g \<noteq> WorldChannelID"
  "ActivityChannelID t g \<noteq> SystemChannelID" "WorldChannelID \<noteq> SystemChannelID"
  by (simp_all add: chan_id_defs)

lemmas id_eqs = private_id_eq alliance_id_eq activity_id_eq id_kinds id_kinds [symmetric]

text \<open>
  C40. The channel naming convention is injective: the identifiers built for two channels are
  equal exactly when the channels are the same, a private chat being the same from either
  side; in particular an activity type that itself contains a colon causes no clash.
\<close>

theorem chan_id_identifies: "chan_id a = chan_id b \<longleftrightarrow> same_channel a b"
  by (cases a; cases b) (simp_all add: id_eqs)

end
