(* ===== verification/Pb_Types.thy ===== *)
theory Pb_Types
  imports IM_Prelude
begin

text \<open>
  The message types that \<open>protoc\<close> generates into \<open>api/pb\<close>. Proto3 enums are open
  32-bit integers, so they are integers with named values; a pointer to a nested message is an
  option.

  The protobuf runtime (\<open>proto.Marshal\<close>, \<open>proto.Unmarshal\<close>) is a third-party
  package. It is a parameter of every definition that uses it: a pair of functions per message
  type, collected in the record \<open>proto\<close>. What the program relies on is the predicate
  \<open>codec_ok\<close>: unmarshalling marshalled bytes gives the message back.
\<close>

definition CHANNEL_TYPE_UNSPECIFIED :: int where "CHANNEL_TYPE_UNSPECIFIED = 0"
definition CHANNEL_TYPE_WORLD :: int where "CHANNEL_TYPE_WORLD = 1"
definition CHANNEL_TYPE_ALLIANCE :: int where "CHANNEL_TYPE_ALLIANCE = 2"
definition CHANNEL_TYPE_ACTIVITY :: int where "CHANNEL_TYPE_ACTIVITY = 3"
definition CHANNEL_TYPE_PRIVATE :: int where "CHANNEL_TYPE_PRIVATE = 4"
definition CHANNEL_TYPE_SYSTEM :: int where "CHANNEL_TYPE_SYSTEM = 5"

lemmas channel_type_defs = CHANNEL_TYPE_UNSPECIFIED_def CHANNEL_TYPE_WORLD_def
  CHANNEL_TYPE_ALLIANCE_def CHANNEL_TYPE_ACTIVITY_def CHANNEL_TYPE_PRIVATE_def
  CHANNEL_TYPE_SYSTEM_def

definition MSG_TYPE_TEXT :: int where "MSG_TYPE_TEXT = 1"

record frame =
  CmdId :: u32
  Seq :: u32
  Payload :: bytes

record sender_info =
  SenderId :: int
  SenderName :: string
  SenderHeadImage :: string
  SenderRank :: int
  AllianceName :: string

record im_message =
  MsgId :: int
  ChannelId :: string
  ChannelType :: int
  Sender :: "sender_info option"
  Content :: string
  MsgType :: int
  MsgParam :: "string list"
  SendTime :: int
  ClientMsgId :: string

record auth_req =
  Token :: string
  Version :: string
  ChannelLastMsgIds :: "(string \<times> int) list"

record auth_resp =
  ar_Code :: int
  ar_Msg :: string
  ar_Uid :: int
  ar_ServerTime :: int

record send_msg_req =
  sq_ChannelId :: string
  sq_ChannelType :: int
  sq_Content :: string
  sq_MsgType :: int
  sq_MsgParam :: "string list"
  sq_ClientMsgId :: string

record send_msg_resp =
  sp_Code :: int
  sp_Msg :: string
  sp_MsgId :: int
  sp_SendTime :: int

record pull_msg_req =
  pq_ChannelId :: string
  pq_LastMsgId :: int
  pq_Limit :: int

record pull_msg_resp =
  pp_Code :: int
  pp_Msg :: string
  pp_Messages :: "im_message list"

record ack_msg_req =
  aq_ChannelId :: string
  aq_MsgId :: int

record heartbeat_req =
  hq_Timestamp :: int

record heartbeat_resp =
  hp_ServerTime :: int

record push_new_message =
  pn_Message :: "im_message option"

record world_notify =
  wn_ChannelId :: string
  wn_LatestSeq :: int

subsection \<open>The protobuf runtime as a parameter\<close>

type_synonym 'a codec = "('a \<Rightarrow> bytes option) \<times> (bytes \<Rightarrow> 'a option)"

abbreviation proto_Marshal :: "'a codec \<Rightarrow> 'a \<Rightarrow> bytes option" where
  "proto_Marshal c \<equiv> fst c"

abbreviation proto_Unmarshal :: "'a codec \<Rightarrow> bytes \<Rightarrow> 'a option" where
  "proto_Unmarshal c \<equiv> snd c"

definition codec_ok :: "'a codec \<Rightarrow> bool" where
  "codec_ok c \<longleftrightarrow> (\<forall>x b. proto_Marshal c x = Some b \<longrightarrow> proto_Unmarshal c b = Some x)"

record proto =
  pFrame :: "frame codec"
  pImMessage :: "im_message codec"
  pAuthReq :: "auth_req codec"
  pAuthResp :: "auth_resp codec"
  pSendMsgReq :: "send_msg_req codec"
  pSendMsgResp :: "send_msg_resp codec"
  pPullMsgReq :: "pull_msg_req codec"
  pPullMsgResp :: "pull_msg_resp codec"
  pAckMsgReq :: "ack_msg_req codec"
  pHeartbeatReq :: "heartbeat_req codec"
  pHeartbeatResp :: "heartbeat_resp codec"
  pPushNewMessage :: "push_new_message codec"
  pWorldNotify :: "world_notify codec"

lemma codec_okD: "codec_ok c \<Longrightarrow> proto_Marshal c x = Some b \<Longrightarrow> proto_Unmarshal c b = Some x"
  by (simp add: codec_ok_def)

text \<open>
  \<open>mustMarshal\<close> of \<open>gateway/handlers.go\<close> drops the error. What \<open>Marshal\<close> returns beside an error is not
  specified; it is taken to be no bytes, and no property depends on it.
\<close>

definition mustMarshal :: "'a codec \<Rightarrow> 'a \<Rightarrow> bytes" where
  "mustMarshal c msg = (case proto_Marshal c msg of None \<Rightarrow> [] | Some data \<Rightarrow> data)"

end
