(* ===== verification/Proto_Wire.thy ===== *)
theory Proto_Wire
  imports Pb_Types
begin

text \<open>
  An instance of the protobuf parameter for the envelope message \<open>Frame\<close>: the proto3 wire
  format of its three fields (tag byte, varint, length-delimited bytes), written out so that the
  hypotheses about the parameter are shown to be satisfiable by the encoding the program meets in
  practice. Nothing in the model depends on this theory; the witnesses of the codec properties do.
\<close>

fun varint :: "nat \<Rightarrow> bytes" where
  "varint n =
     (if n < 128 then [word_of_nat n] else word_of_nat (128 + n mod 128) # varint (n div 128))"

declare varint.simps [simp del]

fun read_varint :: "bytes \<Rightarrow> (nat \<times> bytes) option" where
  "read_varint [] = None"
| "read_varint (b # bs) =
     (if unat b < 128 then Some (unat b, bs)
      else case read_varint bs of
             None \<Rightarrow> None
           | Some (m, r) \<Rightarrow> Some (unat b - 128 + 128 * m, r))"

definition varint_field :: "byte \<Rightarrow> nat \<Rightarrow> bytes" where
  "varint_field tag n = (if n = 0 then [] else tag # varint n)"

definition wire_frame :: "frame \<Rightarrow> bytes" where
  "wire_frame f =
     varint_field 8 (unat (CmdId f)) @ varint_field 16 (unat (Seq f)) @
     (if Payload f = [] then [] else 26 # varint (length (Payload f)) @ Payload f)"

definition read_field :: "byte \<Rightarrow> bytes \<Rightarrow> (nat \<times> bytes) option" where
  "read_field tag bs =
     (case bs of b # r \<Rightarrow> if b = tag then read_varint r else Some (0, bs) | [] \<Rightarrow> Some (0, []))"

definition unwire_frame :: "bytes \<Rightarrow> frame option" where
  "unwire_frame bs =
     (case read_field 8 bs of None \<Rightarrow> None | Some (c, r1) \<Rightarrow>
     (case read_field 16 r1 of None \<Rightarrow> None | Some (s, r2) \<Rightarrow>
     (case read_field 26 r2 of None \<Rightarrow> None | Some (n, r3) \<Rightarrow>
        if length r3 = n then Some \<lparr>CmdId = word_of_nat c, Seq = word_of_nat s, Payload = r3\<rparr>
        else None)))"

definition wire_codec :: "frame codec" where
  "wire_codec = (\<lambda>f. Some (wire_frame f), unwire_frame)"

lemma read_varint_varint [simp]: "read_varint (varint n @ rest) = Some (n, rest)"
proof (induction n rule: varint.induct)
  case (1 n)
  show ?case
  proof (cases "n < 128")
    case True
    then show ?thesis by (subst varint.simps) (simp add: unat_of_nat)
  next
    case False
    have "128 + n mod 128 < 256" by simp
    then have "unat (word_of_nat (128 + n mod 128) :: byte) = 128 + n mod 128"
      by (simp only: unat_of_nat) simp
    with False 1 show ?thesis by (subst varint.simps) (simp add: mult.commute)
  qed
qed

lemma read_field_hit [simp]: "n \<noteq> 0 \<Longrightarrow> read_field tag (varint_field tag n @ rest) = Some (n, rest)"
  by (simp add: read_field_def varint_field_def)

lemma read_field_miss:
  "(\<And>b r. rest = b # r \<Longrightarrow> b \<noteq> tag) \<Longrightarrow> read_field tag rest = Some (0, rest)"
  by (auto simp: read_field_def split: list.splits)

lemma read_field_varint_field:
  assumes "\<And>b r. rest = b # r \<Longrightarrow> b \<noteq> tag"
  shows "read_field tag (varint_field tag n @ rest) = Some (n, rest)"
proof (cases "n = 0")
  case True
  with assms show ?thesis by (simp add: varint_field_def read_field_miss)
qed simp

lemma unwire_wire_frame [simp]: "unwire_frame (wire_frame f) = Some f"
proof -
  define pl where
    "pl = (if Payload f = [] then [] else 26 # varint (length (Payload f)) @ Payload f)"
  have pl: "read_field 26 pl = Some (length (Payload f), Payload f)"
    by (simp add: pl_def read_field_def)
  have seq: "read_field 16 (varint_field 16 (unat (Seq f)) @ pl) = Some (unat (Seq f), pl)"
    by (rule read_field_varint_field) (auto simp: pl_def split: if_splits)
  have "read_field 8 (varint_field 8 (unat (CmdId f)) @ varint_field 16 (unat (Seq f)) @ pl)
      = Some (unat (CmdId f), varint_field 16 (unat (Seq f)) @ pl)"
    by (rule read_field_varint_field) (auto simp: pl_def varint_field_def split: if_splits)
  with pl seq show ?thesis
    by (simp add: unwire_frame_def wire_frame_def flip: pl_def)
qed

lemma wire_codec_ok: "codec_ok wire_codec"
  by (auto simp: codec_ok_def wire_codec_def)

text \<open>
  A codec that knows one message only; it satisfies \<open>codec_ok\<close> and serves the witnesses for
  the message types whose bytes no property looks at.
\<close>

definition one_codec :: "'a \<Rightarrow> 'a codec" where
  "one_codec x = (\<lambda>y. if y = x then Some [1] else None, \<lambda>b. if b = [1] then Some x else None)"

definition no_codec :: "'a codec" where
  "no_codec = (\<lambda>_. None, \<lambda>_. None)"

lemma one_codec_ok [simp]: "codec_ok (one_codec x)"
  by (auto simp: codec_ok_def one_codec_def)

lemma no_codec_ok [simp]: "codec_ok no_codec"
  by (simp add: codec_ok_def no_codec_def)

definition wire_proto :: proto where
  "wire_proto = \<lparr>pFrame = wire_codec, pImMessage = no_codec, pAuthReq = no_codec,
     pAuthResp = no_codec, pSendMsgReq = no_codec, pSendMsgResp = no_codec,
     pPullMsgReq = no_codec, pPullMsgResp = no_codec, pAckMsgReq = no_codec,
     pHeartbeatReq = no_codec, pHeartbeatResp = no_codec, pPushNewMessage = no_codec, pWorldNotify = no_codec\<rparr>"

lemma pFrame_wire_proto [simp]: "pFrame wire_proto = wire_codec"
  by (simp add: wire_proto_def)

end
