(* ===== verification/Codec.thy ===== *)
theory Codec
  imports Proto_Wire
begin

unbundle bit_operations_syntax

text \<open>
  The wire format of \<open>internal/gateway/codec.go\<close>: a four-byte big-endian length, then the
  protobuf bytes of a \<open>Frame\<close>. A reader is the sequence of bytes it will still deliver before
  end of file; a writer is a state with a write function that may fail. The pooled read buffers
  (\<open>bufPool\<close>) carry no information from one call to the next (the slice that is used is
  overwritten in full by \<open>io.ReadFull\<close> and protobuf copies what it keeps), so they are left
  out.
\<close>

definition headerSize :: nat where
  "headerSize = 4"

definition maxFrameSize :: nat where
  "maxFrameSize = 65536"

subsection \<open>Big-endian 32-bit integers\<close>

definition PutUint32 :: "u32 \<Rightarrow> bytes" where
  "PutUint32 v = [ucast (drop_bit 24 v), ucast (drop_bit 16 v), ucast (drop_bit 8 v), ucast v]"

fun Uint32 :: "bytes \<Rightarrow> u32" where
  "Uint32 (b0 # b1 # b2 # b3 # _) =
     ucast b3 OR push_bit 8 (ucast b2) OR push_bit 16 (ucast b1) OR push_bit 24 (ucast b0)"
| "Uint32 _ = 0"

subsection \<open>Operations\<close>

datatype codec_err = ReadEOF | ReadUnexpectedEOF | FrameTooLarge | EmptyFrameBody
  | ReadBody codec_err | UnmarshalFrame | MarshalFrame | WriteHeader | WriteBody

text \<open>\<open>io.ReadFull(r, buf)\<close> for a buffer of \<open>n\<close> bytes: the bytes read and the rest.\<close>

definition ReadFull :: "nat \<Rightarrow> bytes \<Rightarrow> (codec_err + bytes) \<times> bytes" where
  "ReadFull n r =
     (if n \<le> length r then (Inr (take n r), drop n r)
      else if r = [] then (Inl ReadEOF, []) else (Inl ReadUnexpectedEOF, []))"

definition Encode ::
  "proto \<Rightarrow> (bytes \<Rightarrow> 'w \<Rightarrow> bool \<times> 'w) \<Rightarrow> 'w \<Rightarrow> frame \<Rightarrow> codec_err option \<times> 'w" where
  "Encode P write w frame =
     (case proto_Marshal (pFrame P) frame of
        None \<Rightarrow> (Some MarshalFrame, w)
      | Some body \<Rightarrow>
          if length body > maxFrameSize then (Some FrameTooLarge, w)
          else (case write (PutUint32 (word_of_nat (length body))) w of
                  (False, w1) \<Rightarrow> (Some WriteHeader, w1)
                | (True, w1) \<Rightarrow>
                    (case write body w1 of
                       (False, w2) \<Rightarrow> (Some WriteBody, w2)
                     | (True, w2) \<Rightarrow> (None, w2))))"

definition Decode :: "proto \<Rightarrow> bytes \<Rightarrow> (codec_err + frame) \<times> bytes" where
  "Decode P r =
     (case ReadFull headerSize r of
        (Inl e, r1) \<Rightarrow> (Inl e, r1)
      | (Inr header, r1) \<Rightarrow>
          (let bodyLen = Uint32 header
           in if unat bodyLen > maxFrameSize then (Inl FrameTooLarge, r1)
              else if bodyLen = 0 then (Inl EmptyFrameBody, r1)
              else (case ReadFull (unat bodyLen) r1 of
                      (Inl e, r2) \<Rightarrow> (Inl (ReadBody e), r2)
                    | (Inr body, r2) \<Rightarrow>
                        (case proto_Unmarshal (pFrame P) body of
                           None \<Rightarrow> (Inl UnmarshalFrame, r2)
                         | Some frame \<Rightarrow> (Inr frame, r2)))))"

definition EncodeRaw :: "proto \<Rightarrow> u32 \<Rightarrow> u32 \<Rightarrow> bytes \<Rightarrow> codec_err + bytes" where
  "EncodeRaw P cmdID seq payload =
     (let frame = \<lparr>CmdId = cmdID, Seq = seq, Payload = payload\<rparr>
      in case proto_Marshal (pFrame P) frame of
           None \<Rightarrow> Inl MarshalFrame
         | Some body \<Rightarrow>
             if length body > maxFrameSize then Inl FrameTooLarge
             else Inr (PutUint32 (word_of_nat (length body)) @ body))"

text \<open>
  The decoding side of \<open>readLoop\<close> in \<open>conn.go\<close>: frames are taken from the stream until
  \<open>Decode\<close> fails; the loop returns at the first error.
\<close>

lemma Decode_consumes: "Decode P r = (Inr f, r') \<Longrightarrow> length r' + headerSize < length r"
proof -
  assume dec: "Decode P r = (Inr f, r')"
  define n where "n = unat (Uint32 (take 4 r))"
  have "0 < n" "n \<le> length r - 4" "4 \<le> length r" "r' = drop (n + 4) r"
    using dec by (auto simp: Decode_def ReadFull_def Let_def headerSize_def n_def word_neq_0_conv
        unat_gt_0 split: if_splits option.splits)
  then show ?thesis by (simp add: headerSize_def)
qed

function readFrames :: "proto \<Rightarrow> bytes \<Rightarrow> frame list \<times> codec_err" where
  "readFrames P r =
     (case Decode P r of
        (Inl e, r') \<Rightarrow> ([], e)
      | (Inr f, r') \<Rightarrow> (let (fs, e) = readFrames P r' in (f # fs, e)))"
  by pat_completeness auto
termination
  by (relation "measure (\<lambda>(P, r). length r)") (auto dest!: Decode_consumes [OF sym])

declare readFrames.simps [simp del]

subsection \<open>Lemmas\<close>

lemma length_PutUint32 [simp]: "length (PutUint32 v) = 4"
  by (simp add: PutUint32_def)

lemma Uint32_PutUint32 [simp]: "Uint32 (PutUint32 v @ rest) = v"
proof (rule bit_word_eqI)
  fix n assume "n < LENGTH(32)"
  then consider "n < 8" | "8 \<le> n" "n < 16" | "16 \<le> n" "n < 24" | "24 \<le> n" "n < 32"
    by fastforce
  then show "bit (Uint32 (PutUint32 v @ rest)) n = bit v n"
    by cases (auto simp: PutUint32_def bit_simps)
qed

lemma byte_no_high_bit [simp]:
  "\<not> bit (b :: byte) (8 + n)" "\<not> bit b (16 + n)" "\<not> bit b (24 + n)"
  by (auto dest: bit_imp_le_length)

lemma PutUint32_Uint32: "PutUint32 (Uint32 [b0, b1, b2, b3]) = [b0, b1, b2, b3]"
  by (auto simp: PutUint32_def bit_simps intro!: bit_word_eqI)

text \<open>
  What the codec relies on of protobuf: marshalling is invertible, and no bytes at all is the
  frame whose fields all have their default value (proto3 does not emit default fields).
\<close>

definition empty_frame :: frame where
  "empty_frame = \<lparr>CmdId = 0, Seq = 0, Payload = []\<rparr>"

definition frame_codec_ok :: "proto \<Rightarrow> bool" where
  "frame_codec_ok P \<longleftrightarrow>
     codec_ok (pFrame P) \<and> proto_Unmarshal (pFrame P) [] = Some empty_frame"

abbreviation EncodeFrame :: "proto \<Rightarrow> frame \<Rightarrow> codec_err + bytes" where
  "EncodeFrame P f \<equiv> EncodeRaw P (CmdId f) (Seq f) (Payload f)"

lemma EncodeFrame_cases:
  assumes "EncodeFrame P f = Inr d"
  obtains body where "proto_Marshal (pFrame P) f = Some body" "length body \<le> maxFrameSize"
    "d = PutUint32 (word_of_nat (length body)) @ body"
  using assms by (cases f) (auto simp: EncodeRaw_def Let_def split: option.splits if_splits)

lemma unat_body_len: "n \<le> maxFrameSize \<Longrightarrow> unat (word_of_nat n :: u32) = n"
  by (simp add: unat_of_nat maxFrameSize_def)

lemma word_body_len: "n \<le> maxFrameSize \<Longrightarrow> (word_of_nat n :: u32) = 0 \<longleftrightarrow> n = 0"
  using unat_body_len [of n] by (metis unat_0 unat_eq_zero)

lemma marshal_nonempty:
  "frame_codec_ok P \<Longrightarrow> proto_Marshal (pFrame P) f = Some body \<Longrightarrow> f \<noteq> empty_frame \<Longrightarrow> body \<noteq> []"
  by (auto simp: frame_codec_ok_def dest: codec_okD)

lemma Decode_EncodeFrame:
  assumes "frame_codec_ok P" "EncodeFrame P f = Inr d" "f \<noteq> empty_frame"
  shows "Decode P (d @ rest) = (Inr f, rest)"
proof -
  from assms(2) obtain body where body: "proto_Marshal (pFrame P) f = Some body"
      "length body \<le> maxFrameSize" "d = PutUint32 (word_of_nat (length body)) @ body"
    by (rule EncodeFrame_cases)
  have "body \<noteq> []" using marshal_nonempty assms(1,3) body(1) by blast
  moreover have "proto_Unmarshal (pFrame P) body = Some f"
    using assms(1) body(1) by (simp add: frame_codec_ok_def codec_okD)
  moreover have "Uint32 (PutUint32 (word_of_nat (length body))) = word_of_nat (length body)"
    using Uint32_PutUint32 [of "word_of_nat (length body)" "[]"] by simp
  ultimately show ?thesis
    using body(2,3) by (simp add: Decode_def ReadFull_def headerSize_def unat_body_len word_body_len)
qed

text \<open>
  \<open>Encode\<close> puts on the wire what \<open>EncodeRaw\<close> builds, in two writes.
\<close>

lemma Encode_append:
  "Encode P (\<lambda>b w. (True, w @ b)) w f =
     (case EncodeFrame P f of Inl e \<Rightarrow> (Some e, w) | Inr d \<Rightarrow> (None, w @ d))"
  by (cases f) (simp add: Encode_def EncodeRaw_def split: option.splits)

text \<open>A frame cut short by the end of the stream is an error, never a frame.\<close>

definition is_eof :: "codec_err \<Rightarrow> bool" where
  "is_eof e \<longleftrightarrow> e \<in> {ReadEOF, ReadUnexpectedEOF, ReadBody ReadEOF, ReadBody ReadUnexpectedEOF}"

lemma Decode_cut:
  assumes "EncodeFrame P f = Inr d" "k < length d" "f \<noteq> empty_frame" "frame_codec_ok P"
  shows "\<exists>e. Decode P (take k d) = (Inl e, []) \<and> is_eof e"
proof -
  from assms(1) obtain body where body: "proto_Marshal (pFrame P) f = Some body"
      "length body \<le> maxFrameSize" "d = PutUint32 (word_of_nat (length body)) @ body"
    by (rule EncodeFrame_cases)
  have "body \<noteq> []" using marshal_nonempty assms(3,4) body(1) by blast
  show ?thesis
  proof (cases "k < 4")
    case True
    then show ?thesis
      using body(3) by (auto simp: Decode_def ReadFull_def headerSize_def is_eof_def)
  next
    case False
    then have "take 4 (take k d) = PutUint32 (word_of_nat (length body))"
        "drop 4 (take k d) = take (k - 4) body" "length (take (k - 4) body) < length body"
      using body(3) assms(2) by (auto simp: take_Cons' min_def drop_take)
    moreover have "Uint32 (PutUint32 (word_of_nat (length body))) = word_of_nat (length body)"
      using Uint32_PutUint32 [of "word_of_nat (length body)" "[]"] by simp
    ultimately show ?thesis
      using False body(2,3) assms(2) \<open>body \<noteq> []\<close>
      by (auto simp: Decode_def ReadFull_def headerSize_def unat_body_len word_body_len is_eof_def)
  qed
qed

lemma readFrames_Decode:
  "Decode P r = (Inr f, r') \<Longrightarrow> readFrames P r = (f # fst (readFrames P r'), snd (readFrames P r'))"
  by (subst readFrames.simps) (simp split: prod.splits)

lemma readFrames_concat:
  assumes "frame_codec_ok P"
    and "list_all2 (\<lambda>f d. EncodeFrame P f = Inr d \<and> f \<noteq> empty_frame) fs ds"
  shows "readFrames P (concat ds @ rest) =
    (fs @ fst (readFrames P rest), snd (readFrames P rest))"
  using assms(2)
proof (induction fs ds rule: list_all2_induct)
  case (Cons f fs d ds)
  then have "Decode P (d @ concat ds @ rest) = (Inr f, concat ds @ rest)"
    using assms(1) Decode_EncodeFrame by blast
  with Cons.IH show ?case by (simp add: readFrames_Decode)
qed simp

lemma readFrames_cut:
  assumes "EncodeFrame P f = Inr d" "k < length d" "f \<noteq> empty_frame" "frame_codec_ok P"
  shows "\<exists>e. readFrames P (take k d) = ([], e) \<and> is_eof e"
  using Decode_cut [OF assms] by (subst readFrames.simps) auto

lemma wire_proto_ok: "frame_codec_ok wire_proto"
  by (simp add: frame_codec_ok_def wire_codec_ok)
    (simp add: wire_codec_def unwire_frame_def read_field_def empty_frame_def)

subsection \<open>Properties\<close>





text \<open>
  The size limit holds on both sides: every packet \<open>EncodeRaw\<close> produces has the body
  length in its four header bytes and a body of at most 64 KiB, and \<open>Decode\<close> refuses a header
  that announces more than that, or an empty body, after reading nothing but the header.
\<close>

theorem frame_size_limit:
  "(EncodeRaw P c s p = Inr d \<longrightarrow>
      headerSize \<le> length d \<and> length d \<le> headerSize + maxFrameSize \<and>
      unat (Uint32 (take headerSize d)) = length d - headerSize) \<and>
   (length h = headerSize \<and> unat (Uint32 h) > maxFrameSize \<longrightarrow>
      Decode P (h @ r) = (Inl FrameTooLarge, r)) \<and>
   (length h = headerSize \<and> Uint32 h = 0 \<longrightarrow> Decode P (h @ r) = (Inl EmptyFrameBody, r))"
proof (intro conjI impI)
  assume "EncodeRaw P c s p = Inr d"
  then have "EncodeFrame P \<lparr>CmdId = c, Seq = s, Payload = p\<rparr> = Inr d" by simp
  then obtain body where "length body \<le> maxFrameSize"
      "d = PutUint32 (word_of_nat (length body)) @ body"
    by (rule EncodeFrame_cases)
  then show "headerSize \<le> length d" "length d \<le> headerSize + maxFrameSize"
      "unat (Uint32 (take headerSize d)) = length d - headerSize"
    using Uint32_PutUint32 [of "word_of_nat (length body)" "[]"]
    by (simp_all add: headerSize_def unat_body_len)
qed (auto simp: Decode_def ReadFull_def headerSize_def)

theorem frame_size_limit_witness:
  "Decode wire_proto [0, 1, 0, 1, 9] = (Inl FrameTooLarge, [9])"
  using frame_size_limit [of wire_proto 0 0 "[]" "[]" "[0, 1, 0, 1]" "[9]"]
  by (simp add: headerSize_def maxFrameSize_def)

end
