(* ===== verification/Ring_Buf.thy ===== *)
theory Ring_Buf
  imports IM_Prelude
begin

unbundle bit_operations_syntax

text \<open>
  \<open>BroadcastRing\<close> of \<open>internal/gateway/ringbuf.go\<close>: a power-of-two array of byte slices
  indexed by \<open>pos & mask\<close> and a write position that only grows. An empty slot (Go's nil slice)
  is \<open>None\<close>. Positions are mathematical integers: the counter is 64 bits wide and grows by one
  per broadcast. \<open>Put\<close> comes twice: as the whole operation, for one producer, and split at its
  two shared-memory accesses, for producers and consumers that interleave.
\<close>

record ring =
  buf :: "bytes option list"
  rmask :: int
  writePos :: int

subsection \<open>Construction\<close>

definition wrap64 :: "int \<Rightarrow> int" where
  "wrap64 x = (x + 9223372036854775808) mod 18446744073709551616 - 9223372036854775808"

text \<open>\<open>for n < size { n <<= 1 }\<close>, on the 64-bit \<open>int\<close>.\<close>

partial_function (option) round_up :: "int \<Rightarrow> int \<Rightarrow> int option" where
  "round_up sz n = (if n < sz then round_up sz (wrap64 (2 * n)) else Some n)"

definition NewBroadcastRing :: "int \<Rightarrow> ring option" where
  "NewBroadcastRing sz =
     (case round_up sz 1 of
        None \<Rightarrow> None
      | Some n \<Rightarrow> Some \<lparr>buf = replicate (nat n) None, rmask = n - 1, writePos = 0\<rparr>)"

subsection \<open>Operations\<close>

definition ring_slot :: "ring \<Rightarrow> int \<Rightarrow> nat" where
  "ring_slot r pos = nat (pos AND rmask r)"

definition Ring_Put :: "bytes \<Rightarrow> ring \<Rightarrow> ring" where
  "Ring_Put data r =
     (let pos = writePos r
      in r\<lparr>writePos := pos + 1, buf := (buf r)[ring_slot r pos := Some data]\<rparr>)"

text \<open>The two accesses of \<open>Put\<close> to shared memory, between which other goroutines may run.\<close>

definition Ring_Put_claim :: "ring \<Rightarrow> int \<times> ring" where
  "Ring_Put_claim r = (writePos r, r\<lparr>writePos := writePos r + 1\<rparr>)"

definition Ring_Put_store :: "int \<Rightarrow> bytes \<Rightarrow> ring \<Rightarrow> ring" where
  "Ring_Put_store pos data r = r\<lparr>buf := (buf r)[ring_slot r pos := Some data]\<rparr>"

definition Ring_WritePos :: "ring \<Rightarrow> int" where
  "Ring_WritePos r = writePos r"

definition Ring_Get :: "ring \<Rightarrow> int \<Rightarrow> bytes option" where
  "Ring_Get r pos = buf r ! ring_slot r pos"

definition Ring_Capacity :: "ring \<Rightarrow> int" where
  "Ring_Capacity r = rmask r + 1"

definition Ring_NewCursor :: "ring \<Rightarrow> int" where
  "Ring_NewCursor r = writePos r"

text \<open>\<open>Wait(cursor)\<close> returns in the states where its loop condition fails.\<close>

definition Ring_Wait_returns :: "ring \<Rightarrow> int \<Rightarrow> bool" where
  "Ring_Wait_returns r cursor \<longleftrightarrow> \<not> writePos r \<le> cursor"

subsection \<open>Invariant\<close>

definition ring_ok :: "ring \<Rightarrow> bool" where
  "ring_ok r \<longleftrightarrow>
     (\<exists>k. length (buf r) = 2 ^ k \<and> rmask r = 2 ^ k - 1) \<and> 0 \<le> writePos r \<and>
     (\<forall>pos. 0 \<le> pos \<and> writePos r - Ring_Capacity r \<le> pos \<and> pos < writePos r
        \<longrightarrow> Ring_Get r pos \<noteq> None)"

lemma ring_ok_capacity: "ring_ok r \<Longrightarrow> Ring_Capacity r = int (length (buf r)) \<and> 0 < length (buf r)"
  by (auto simp: ring_ok_def Ring_Capacity_def)

lemma and_pow2_mod: "(x :: int) AND (2 ^ k - 1) = x mod 2 ^ k"
  by (simp add: take_bit_eq_mod flip: take_bit_eq_mask mask_eq_exp_minus_1)

lemma ring_slot_mod: "ring_ok r \<Longrightarrow> int (ring_slot r pos) = pos mod Ring_Capacity r"
  by (auto simp: ring_ok_def ring_slot_def Ring_Capacity_def and_pow2_mod)

lemma ring_slot_bound: "ring_ok r \<Longrightarrow> ring_slot r pos < length (buf r)"
  using ring_slot_mod [of r pos] ring_ok_capacity [of r] by (metis of_nat_less_iff of_nat_0_less_iff pos_mod_bound)

lemma ring_slot_eq_iff:
  "ring_ok r \<Longrightarrow> ring_slot r p = ring_slot r q \<longleftrightarrow> p mod Ring_Capacity r = q mod Ring_Capacity r"
  using ring_slot_mod [of r p] ring_slot_mod [of r q] by linarith

text \<open>Two different positions less than one capacity apart never share a slot.\<close>

lemma ring_slot_inj:
  assumes "ring_ok r" "ring_slot r p = ring_slot r q" "\<bar>p - q\<bar> < Ring_Capacity r"
  shows "p = q"
proof -
  have "Ring_Capacity r dvd p - q"
    using assms(1,2) by (simp add: ring_slot_eq_iff mod_eq_dvd_iff)
  with assms(3) show ?thesis
    using dvd_imp_le_int [of "p - q" "Ring_Capacity r"] by (cases "p = q") auto
qed

lemma Ring_Put_split: "Ring_Put d r = (let (pos, r1) = Ring_Put_claim r in Ring_Put_store pos d r1)"
  by (simp add: Ring_Put_def Ring_Put_claim_def Ring_Put_store_def ring_slot_def Let_def)

lemma ring_slot_Put [simp]: "ring_slot (Ring_Put d r) pos = ring_slot r pos"
  by (simp add: ring_slot_def Ring_Put_def Let_def)

lemma Ring_Capacity_Put [simp]: "Ring_Capacity (Ring_Put d r) = Ring_Capacity r"
  by (simp add: Ring_Capacity_def Ring_Put_def Let_def)

lemma writePos_Put [simp]: "writePos (Ring_Put d r) = writePos r + 1"
  by (simp add: Ring_Put_def Let_def)

lemma Ring_Get_Put:
  assumes "ring_ok r"
  shows "Ring_Get (Ring_Put d r) pos =
    (if ring_slot r pos = ring_slot r (writePos r) then Some d else Ring_Get r pos)"
proof -
  have "buf (Ring_Put d r) = (buf r)[ring_slot r (writePos r) := Some d]"
    by (simp add: Ring_Put_def Let_def)
  then show ?thesis
    using ring_slot_bound [OF assms] by (simp add: Ring_Get_def nth_list_update)
qed

lemma ring_ok_Put: "ring_ok r \<Longrightarrow> ring_ok (Ring_Put d r)"
proof -
  assume ok: "ring_ok r"
  have "Ring_Get (Ring_Put d r) pos \<noteq> None"
    if "0 \<le> pos" "writePos r + 1 - Ring_Capacity r \<le> pos" "pos < writePos r + 1" for pos
  proof (cases "pos = writePos r")
    case False
    with that ok have "Ring_Get r pos \<noteq> None" by (simp add: ring_ok_def)
    with ok show ?thesis by (simp add: Ring_Get_Put)
  qed (simp add: Ring_Get_Put ok)
  moreover have "length (buf (Ring_Put d r)) = length (buf r)" "rmask (Ring_Put d r) = rmask r"
    by (simp_all add: Ring_Put_def Let_def)
  ultimately show ?thesis
    using ok unfolding ring_ok_def by simp
qed

subsection \<open>Construction gives the least power of two\<close>

lemma wrap64_id: "0 \<le> x \<Longrightarrow> x \<le> 9223372036854775807 \<Longrightarrow> wrap64 x = x"
  by (simp add: wrap64_def)

lemma pow2_le_62: "k \<le> 62 \<Longrightarrow> (2 :: int) ^ k \<le> 4611686018427387904"
  using power_increasing [of k 62 "2 :: int"] by simp

lemma round_up_pow2:
  assumes "k \<le> 62" "sz \<le> 4611686018427387904" "k = 0 \<or> 2 ^ (k - 1) < sz"
  shows "\<exists>j. round_up sz (2 ^ k) = Some (2 ^ j) \<and> sz \<le> 2 ^ j \<and> (j = 0 \<or> 2 ^ (j - 1) < sz)"
  using assms(1,3)
proof (induction "62 - k" arbitrary: k)
  case 0
  then have "k = 62" by simp
  with 0 assms(2) show ?case
    by (intro exI [of _ 62]) (simp add: round_up.simps)
next
  case (Suc m)
  show ?case
  proof (cases "(2 :: int) ^ k < sz")
    case True
    have "k < 62" using Suc.hyps(2) by simp
    then have "wrap64 (2 * 2 ^ k) = 2 ^ Suc k"
      using pow2_le_62 [of "Suc k"] wrap64_id [of "2 * 2 ^ k"] by simp
    moreover have "\<exists>j. round_up sz (2 ^ Suc k) = Some (2 ^ j) \<and> sz \<le> 2 ^ j \<and>
        (j = 0 \<or> 2 ^ (j - 1) < sz)"
      using Suc.hyps(2) \<open>k < 62\<close> True by (intro Suc.hyps(1)) auto
    ultimately show ?thesis
      using True by (simp add: round_up.simps [of sz "2 ^ k"])
  next
    case False
    with Suc.prems show ?thesis
      by (intro exI [of _ k]) (simp add: round_up.simps)
  qed
qed



subsection \<open>The interface a consumer relies on\<close>

text \<open>
  A broadcast buffer promises that an entry stays readable at its position until as many further
  entries as the capacity have been written.
\<close>

locale broadcast_buffer =
  fixes put :: "'d \<Rightarrow> 'r \<Rightarrow> 'r"
    and get :: "'r \<Rightarrow> int \<Rightarrow> 'd option"
    and wpos :: "'r \<Rightarrow> int"
    and cap :: "'r \<Rightarrow> int"
    and invar :: "'r \<Rightarrow> bool"
  assumes wpos_put: "wpos (put d r) = wpos r + 1"
    and cap_put: "cap (put d r) = cap r"
    and cap_pos: "invar r \<Longrightarrow> 0 < cap r"
    and invar_put: "invar r \<Longrightarrow> invar (put d r)"
    and get_new: "invar r \<Longrightarrow> get (put d r) (wpos r) = Some d"
    and get_old: "invar r \<Longrightarrow> wpos r - cap r < pos \<Longrightarrow> pos < wpos r \<Longrightarrow>
      get (put d r) pos = get r pos"
begin

lemma wpos_puts: "wpos (fold put ds r) = wpos r + int (length ds)"
  by (induction ds arbitrary: r) (simp_all add: wpos_put)

lemma cap_puts: "cap (fold put ds r) = cap r"
  by (induction ds arbitrary: r) (simp_all add: cap_put)

lemma invar_puts: "invar r \<Longrightarrow> invar (fold put ds r)"
  by (induction ds arbitrary: r) (simp_all add: invar_put)

lemma get_puts:
  assumes "invar r" "i < length ds" "int (length ds) - int i \<le> cap r"
  shows "get (fold put ds r) (wpos r + int i) = Some (ds ! i)"
  using assms(2,3)
proof (induction ds rule: rev_induct)
  case (snoc d ds)
  have inv: "invar (fold put ds r)" by (rule invar_puts [OF assms(1)])
  show ?case
  proof (cases "i = length ds")
    case True
    then show ?thesis
      using get_new [OF inv, of d] by (simp add: wpos_puts)
  next
    case False
    then have "get (fold put ds r) (wpos r + int i) = Some (ds ! i)"
      using snoc by simp
    then show ?thesis
      using get_old [OF inv, of "wpos r + int i" d] False snoc.prems
      by (simp add: wpos_puts cap_puts nth_append)
  qed
qed simp

lemma window_puts:
  assumes "invar r" "int (length ds) - int k \<le> cap r" "k \<le> length ds"
  shows "map (get (fold put ds r)) [wpos r + int k..wpos (fold put ds r) - 1] = map Some (drop k ds)"
proof (rule nth_equalityI)
  fix i assume "i < length (map (get (fold put ds r)) [wpos r + int k..wpos (fold put ds r) - 1])"
  then have i: "i < length ds - k" using assms(3) by (simp add: wpos_puts)
  then have "get (fold put ds r) (wpos r + int (k + i)) = Some (ds ! (k + i))"
    using assms by (intro get_puts) auto
  with i show "map (get (fold put ds r)) [wpos r + int k..wpos (fold put ds r) - 1] ! i =
      map Some (drop k ds) ! i"
    by (simp add: wpos_puts add.assoc)
qed (use assms(3) in \<open>simp add: wpos_puts\<close>)

end

interpretation ring_buffer: broadcast_buffer Ring_Put Ring_Get Ring_WritePos Ring_Capacity ring_ok
proof unfold_locales
  fix r :: ring and d pos
  show "Ring_WritePos (Ring_Put d r) = Ring_WritePos r + 1"
    by (simp add: Ring_WritePos_def)
  assume ok: "ring_ok r"
  show "0 < Ring_Capacity r"
    using ring_ok_capacity [OF ok] by simp
  show "Ring_Get (Ring_Put d r) (Ring_WritePos r) = Some d"
    by (simp add: Ring_Get_Put ok Ring_WritePos_def)
  assume "Ring_WritePos r - Ring_Capacity r < pos" "pos < Ring_WritePos r"
  then show "Ring_Get (Ring_Put d r) pos = Ring_Get r pos"
    using ring_slot_inj [OF ok, of pos "writePos r"] by (auto simp: Ring_Get_Put ok Ring_WritePos_def)
qed (simp_all add: ring_ok_Put)

end
