(* ===== verification/Conn.thy ===== *)
theory Conn
  imports Codec Ring_Buf
begin

text \<open>
  A client connection (\<open>internal/gateway/conn.go\<close>) as the state its goroutines share: the two
  outgoing queues, the ring cursor, the bound user, the last heartbeat and whether \<open>Close\<close> has
  run. A buffered Go channel is a list with a capacity; a \<open>select\<close> with \<open>default\<close> that
  sends into it succeeds when the list is shorter than the capacity (the configured capacities are
  positive). \<open>wire\<close> is what \<open>netConn.Write\<close> has put on the network. The loops of the read, write
  and ring-consumer goroutines are given by one iteration each.
\<close>

record conn =
  conn_id :: string
  conn_uid :: int
  respCh :: "bytes list"
  pushCh :: "bytes list"
  pushCap :: nat
  cursor :: int
  lastHeartbeat :: int
  closed :: bool
  wire :: bytes

definition respCap :: nat where
  "respCap = 64"

definition newConn :: "string \<Rightarrow> nat \<Rightarrow> ring \<Rightarrow> int \<Rightarrow> conn" where
  "newConn connID sendChanSize ring now =
     \<lparr>conn_id = connID, conn_uid = 0, respCh = [], pushCh = [], pushCap = sendChanSize,
      cursor = Ring_NewCursor ring, lastHeartbeat = now, closed = False, wire = []\<rparr>"

definition Conn_ID :: "conn \<Rightarrow> string" where "Conn_ID c = conn_id c"
definition Conn_UID :: "conn \<Rightarrow> int" where "Conn_UID c = conn_uid c"
definition Conn_SetUID :: "int \<Rightarrow> conn \<Rightarrow> conn" where "Conn_SetUID uid c = c\<lparr>conn_uid := uid\<rparr>"
definition Conn_LastHeartbeat :: "conn \<Rightarrow> int" where "Conn_LastHeartbeat c = lastHeartbeat c"

definition Conn_Send :: "bytes \<Rightarrow> conn \<Rightarrow> bool \<times> conn" where
  "Conn_Send data c =
     (if length (pushCh c) < pushCap c then (True, c\<lparr>pushCh := pushCh c @ [data]\<rparr>) else (False, c))"

definition Conn_SendResp :: "bytes \<Rightarrow> conn \<Rightarrow> bool \<times> conn" where
  "Conn_SendResp data c =
     (if length (respCh c) < respCap then (True, c\<lparr>respCh := respCh c @ [data]\<rparr>) else (False, c))"

definition Conn_SendFrame ::
  "proto \<Rightarrow> u32 \<Rightarrow> u32 \<Rightarrow> bytes \<Rightarrow> conn \<Rightarrow> codec_err option \<times> conn" where
  "Conn_SendFrame P cmdID seq payload c =
     (case EncodeRaw P cmdID seq payload of
        Inl e \<Rightarrow> (Some e, c)
      | Inr data \<Rightarrow> (None, snd (Conn_Send data c)))"

definition Conn_Reply ::
  "proto \<Rightarrow> frame \<Rightarrow> u32 \<Rightarrow> bytes \<Rightarrow> conn \<Rightarrow> codec_err option \<times> conn" where
  "Conn_Reply P frame respCmdID payload c =
     (case EncodeRaw P respCmdID (Seq frame) payload of
        Inl e \<Rightarrow> (Some e, c)
      | Inr data \<Rightarrow> (None, snd (Conn_SendResp data c)))"

subsection \<open>The ring consumer\<close>

text \<open>
  One iteration of \<open>ringConsumerLoop\<close> on a connection that is not closed: nothing (the goroutine
  waits) when the cursor has caught up; otherwise the readable positions are copied into
  \<open>pushCh\<close>, skipping empty slots and dropping what does not fit, and the cursor moves to the
  write position read at the start.
\<close>

fun push_all :: "bytes option list \<Rightarrow> conn \<Rightarrow> conn" where
  "push_all [] c = c"
| "push_all (None # ds) c = push_all ds c"
| "push_all (Some data # ds) c = push_all ds (snd (Conn_Send data c))"

definition ringConsumerLoop :: "ring \<Rightarrow> conn \<Rightarrow> conn" where
  "ringConsumerLoop r c =
     (let cur = cursor c; wp = Ring_WritePos r
      in if closed c \<or> cur \<ge> wp then c
         else let capacity = Ring_Capacity r;
                  cur = (if wp - cur > capacity then wp - capacity else cur)
              in (push_all (map (Ring_Get r) [cur..wp - 1]) c)\<lparr>cursor := wp\<rparr>)"

subsection \<open>The write loop\<close>

text \<open>
  One iteration of \<open>writeLoop\<close>: the blocking \<open>select\<close> takes the head of either queue (the
  choice is the argument, because Go picks at random when both are ready), then all pending
  responses and up to 256 pending pushes are appended and written in one call.
\<close>

datatype first_pick = PickResp | PickPush

fun pick_first :: "first_pick \<Rightarrow> conn \<Rightarrow> (bytes \<times> conn) option" where
  "pick_first PickResp c =
     (case respCh c of [] \<Rightarrow> None | data # rest \<Rightarrow> Some (data, c\<lparr>respCh := rest\<rparr>))"
| "pick_first PickPush c =
     (case pushCh c of [] \<Rightarrow> None | data # rest \<Rightarrow> Some (data, c\<lparr>pushCh := rest\<rparr>))"

definition writeLoop :: "first_pick \<Rightarrow> conn \<Rightarrow> conn option" where
  "writeLoop pick c =
     (case pick_first pick c of
        None \<Rightarrow> None
      | Some (data, c1) \<Rightarrow>
          (let buf = data @ concat (respCh c1) @ concat (take 256 (pushCh c1))
           in Some (c1\<lparr>respCh := [], pushCh := drop 256 (pushCh c1), wire := wire c1 @ buf\<rparr>)))"

text \<open>
  \<open>drainAndClose\<close> empties both queues in an order the scheduler picks; \<open>picks\<close> is that
  order, and the loop ends when both queues are empty. \<open>ok\<close> says whether the socket still
  accepts writes: \<open>Close\<close> closes it right after the signal that starts the drain.
\<close>

fun drainAndClose :: "bool \<Rightarrow> first_pick list \<Rightarrow> conn \<Rightarrow> conn option" where
  "drainAndClose ok [] c = (if respCh c = [] \<and> pushCh c = [] then Some c else None)"
| "drainAndClose ok (p # ps) c =
     (case pick_first p c of
        None \<Rightarrow> None
      | Some (data, c1) \<Rightarrow>
          drainAndClose ok ps (if ok then c1\<lparr>wire := wire c1 @ data\<rparr> else c1))"

subsection \<open>Invariant and basic facts\<close>

definition conn_ok :: "conn \<Rightarrow> bool" where
  "conn_ok c \<longleftrightarrow> length (respCh c) \<le> respCap \<and> length (pushCh c) \<le> pushCap c"

lemma conn_ok_newConn: "conn_ok (newConn i n r t)"
  by (simp add: conn_ok_def newConn_def)

lemma conn_ok_Send: "conn_ok c \<Longrightarrow> conn_ok (snd (Conn_Send d c))"
  by (auto simp: conn_ok_def Conn_Send_def)

lemma conn_ok_SendResp: "conn_ok c \<Longrightarrow> conn_ok (snd (Conn_SendResp d c))"
  by (auto simp: conn_ok_def Conn_SendResp_def)

lemma conn_ok_Reply: "conn_ok c \<Longrightarrow> conn_ok (snd (Conn_Reply P f k p c))"
  by (auto simp: Conn_Reply_def conn_ok_SendResp split: sum.splits)

lemma conn_ok_push_all: "conn_ok c \<Longrightarrow> conn_ok (push_all ds c)"
  by (induction ds c rule: push_all.induct) (simp_all add: conn_ok_Send)

lemma conn_ok_ringConsumerLoop: "conn_ok c \<Longrightarrow> conn_ok (ringConsumerLoop r c)"
  using conn_ok_push_all [of c] by (simp add: ringConsumerLoop_def Let_def conn_ok_def)

lemma conn_ok_writeLoop: "conn_ok c \<Longrightarrow> writeLoop p c = Some c' \<Longrightarrow> conn_ok c'"
  by (cases p) (auto simp: writeLoop_def conn_ok_def Let_def split: list.splits)

text \<open>What one \<open>Send\<close> touches.\<close>

lemma Conn_Send_frame [simp]:
  "conn_id (snd (Conn_Send d c)) = conn_id c" "conn_uid (snd (Conn_Send d c)) = conn_uid c"
  "respCh (snd (Conn_Send d c)) = respCh c" "pushCap (snd (Conn_Send d c)) = pushCap c"
  "cursor (snd (Conn_Send d c)) = cursor c" "lastHeartbeat (snd (Conn_Send d c)) = lastHeartbeat c"
  "closed (snd (Conn_Send d c)) = closed c" "wire (snd (Conn_Send d c)) = wire c"
  by (simp_all add: Conn_Send_def)

text \<open>The data a copy into \<open>pushCh\<close> keeps: all of it in order, up to the room left.\<close>

lemma push_all_Some:
  "conn_ok c \<Longrightarrow> pushCh (push_all (map Some ds) c) = pushCh c @ take (pushCap c - length (pushCh c)) ds"
proof (induction ds arbitrary: c)
  case (Cons d ds)
  show ?case
  proof (cases "length (pushCh c) < pushCap c")
    case True
    then have "pushCap c - length (pushCh c) = Suc (pushCap c - length (pushCh c @ [d]))" by simp
    moreover have "conn_ok (c\<lparr>pushCh := pushCh c @ [d]\<rparr>)"
      using True Cons.prems by (simp add: conn_ok_def)
    ultimately show ?thesis
      using True Cons.IH [of "c\<lparr>pushCh := pushCh c @ [d]\<rparr>"] by (simp add: Conn_Send_def)
  next
    case False
    then show ?thesis
      using Cons by (simp add: Conn_Send_def)
  qed
qed simp

subsection \<open>Broadcast reception\<close>

lemma push_all_frame [simp]:
  "cursor (push_all ds c) = cursor c" "wire (push_all ds c) = wire c"
  "respCh (push_all ds c) = respCh c" "pushCap (push_all ds c) = pushCap c"
  "closed (push_all ds c) = closed c" "conn_id (push_all ds c) = conn_id c"
  "conn_uid (push_all ds c) = conn_uid c" "lastHeartbeat (push_all ds c) = lastHeartbeat c"
  by (induction ds c rule: push_all.induct) simp_all

lemma ringConsumerLoop_window:
  assumes "ring_ok r" "\<not> closed c" "cursor c = Ring_WritePos r" "ds \<noteq> []"
  shows "ringConsumerLoop (fold Ring_Put ds r) c =
    (push_all (map Some (drop (length ds - nat (Ring_Capacity r)) ds)) c)
      \<lparr>cursor := Ring_WritePos (fold Ring_Put ds r)\<rparr>"
proof -
  let ?r = "fold Ring_Put ds r" and ?k = "length ds - nat (Ring_Capacity r)"
  have wp: "Ring_WritePos ?r = Ring_WritePos r + int (length ds)"
    by (rule ring_buffer.wpos_puts)
  have cap: "Ring_Capacity ?r = Ring_Capacity r" "0 < Ring_Capacity r"
    by (rule ring_buffer.cap_puts, rule ring_buffer.cap_pos [OF assms(1)])
  have win: "map (Ring_Get ?r) [Ring_WritePos r + int ?k..Ring_WritePos ?r - 1] = map Some (drop ?k ds)"
    using cap(2) by (intro ring_buffer.window_puts assms(1)) auto
  have start: "(if Ring_WritePos ?r - cursor c > Ring_Capacity ?r
      then Ring_WritePos ?r - Ring_Capacity ?r else cursor c) = Ring_WritePos r + int ?k"
    using cap assms(3) by (auto simp: wp)
  have "\<not> (closed c \<or> cursor c \<ge> Ring_WritePos ?r)"
    using assms(2-4) by (simp add: wp)
  then show ?thesis
    by (simp only: ringConsumerLoop_def Let_def start win if_False)
qed



text \<open>
  Between the two accesses of \<open>Put\<close> a consumer already sees the new position. If it runs then and the
  slot is still empty, it moves past the broadcast without having read it, and never reads it.
\<close>

lemma put_race_loses:
  assumes "\<not> closed c" "cursor c = writePos r" "Ring_Get r (writePos r) = None" "0 < Ring_Capacity r"
  shows "let (pos, r1) = Ring_Put_claim r; c1 = ringConsumerLoop r1 c; r2 = Ring_Put_store pos d r1
    in pushCh c1 = pushCh c \<and> ringConsumerLoop r2 c1 = c1"
proof -
  let ?r1 = "r\<lparr>writePos := writePos r + 1\<rparr>"
  have "Ring_Get ?r1 (writePos r) = None" "Ring_Capacity ?r1 = Ring_Capacity r"
    using assms(3) by (simp_all add: Ring_Get_def ring_slot_def Ring_Capacity_def)
  then have "ringConsumerLoop ?r1 c = c\<lparr>cursor := writePos r + 1\<rparr>"
    using assms(1,2,4) by (simp add: ringConsumerLoop_def Ring_WritePos_def)
  moreover have "ringConsumerLoop r2 (c\<lparr>cursor := writePos r2\<rparr>) = c\<lparr>cursor := writePos r2\<rparr>" for r2
    by (simp add: ringConsumerLoop_def Ring_WritePos_def)
  from this [of "Ring_Put_store (writePos r) d ?r1"]
  have "ringConsumerLoop (Ring_Put_store (writePos r) d ?r1) (c\<lparr>cursor := writePos r + 1\<rparr>) = c\<lparr>cursor := writePos r + 1\<rparr>"
    by (simp add: Ring_Put_store_def)
  ultimately show ?thesis by (simp add: Ring_Put_claim_def)
qed

subsection \<open>What the client reads\<close>

text \<open>Queued byte strings that are packets of given frames.\<close>

definition packets :: "proto \<Rightarrow> frame list \<Rightarrow> bytes list \<Rightarrow> bool" where
  "packets P = list_all2 (\<lambda>f d. EncodeRaw P (CmdId f) (Seq f) (Payload f) = Inr d \<and> f \<noteq> empty_frame)"

lemma packets_append: "packets P fs ds \<Longrightarrow> packets P gs es \<Longrightarrow> packets P (fs @ gs) (ds @ es)"
  by (simp add: packets_def list_all2_appendI)

lemma packets_take: "packets P fs ds \<Longrightarrow> packets P (take n fs) (take n ds)"
  by (simp add: packets_def list_all2_takeI)

lemma packets_drop: "packets P fs ds \<Longrightarrow> packets P (drop n fs) (drop n ds)"
  by (simp add: packets_def list_all2_dropI)

lemma packets_ConsE:
  assumes "packets P fs (d # ds)"
  obtains f gs where "fs = f # gs" "packets P [f] [d]" "packets P gs ds"
  using assms by (auto simp: packets_def list_all2_Cons2)

lemma readFrames_packets:
  "frame_codec_ok P \<Longrightarrow> packets P fs ds \<Longrightarrow> readFrames P (concat ds) = (fs, ReadEOF)"
  using readFrames_concat [of P fs ds "[]"]
  by (simp add: packets_def readFrames.simps [of P "[]"] Decode_def ReadFull_def headerSize_def)

lemma append_in_shuffles: "xs @ ys \<in> shuffles xs ys"
  by (induction xs) (simp_all add: Cons_in_shuffles_leftI)

lemma writeLoop_resp:
  "writeLoop PickResp c = Some c' \<Longrightarrow>
   wire c' = wire c @ concat (respCh c @ take 256 (pushCh c)) \<and> respCh c' = [] \<and>
   pushCh c' = drop 256 (pushCh c)"
  by (auto simp: writeLoop_def Let_def split: list.splits)

lemma writeLoop_push:
  "writeLoop PickPush c = Some c' \<Longrightarrow>
   \<exists>d ps. pushCh c = d # ps \<and> wire c' = wire c @ concat (d # respCh c @ take 256 ps) \<and>
     respCh c' = [] \<and> pushCh c' = drop 256 ps"
  by (auto simp: writeLoop_def Let_def split: list.splits)

lemma writeLoop_shape:
  assumes "writeLoop pick c = Some c'" "packets P rfs (respCh c)" "packets P pfs (pushCh c)"
  shows "\<exists>hs ds n. hs \<in> shuffles rfs (take n pfs) \<and> packets P hs ds \<and>
    wire c' = wire c @ concat ds \<and> respCh c' = [] \<and> pushCh c' = drop n (pushCh c)"
proof (cases pick)
  case PickResp
  have "packets P (rfs @ take 256 pfs) (respCh c @ take 256 (pushCh c))"
    by (rule packets_append [OF assms(2) packets_take [OF assms(3)]])
  then show ?thesis
    using writeLoop_resp [OF assms(1) [unfolded PickResp]] append_in_shuffles by blast
next
  case PickPush
  then obtain d ps where d: "pushCh c = d # ps"
      and c': "wire c' = wire c @ concat (d # respCh c @ take 256 ps)" "respCh c' = []"
        "pushCh c' = drop 256 ps"
    using writeLoop_push assms(1) by blast
  obtain f gs where f: "pfs = f # gs" "packets P [f] [d]" "packets P gs ps"
    using assms(3) unfolding d by (rule packets_ConsE)
  have "f # rfs @ take 256 gs \<in> shuffles rfs (take 257 pfs)"
    by (simp add: f(1) Cons_in_shuffles_rightI append_in_shuffles)
  moreover have "packets P (f # rfs @ take 256 gs) (d # respCh c @ take 256 ps)"
    using packets_append [OF f(2) packets_append [OF assms(2) packets_take [OF f(3), of 256]]]
    by simp
  moreover have "pushCh c' = drop 257 (pushCh c)"
    by (simp add: c'(3) d)
  ultimately show ?thesis
    using c'(1,2) by blast
qed


lemma wire_packet:
  "c \<noteq> 0 \<Longrightarrow> length (wire_frame \<lparr>CmdId = c, Seq = s, Payload = p\<rparr>) \<le> maxFrameSize \<Longrightarrow>
   \<exists>d. EncodeRaw wire_proto c s p = Inr d \<and> packets wire_proto [\<lparr>CmdId = c, Seq = s, Payload = p\<rparr>] [d]"
  by (simp add: EncodeRaw_def Let_def packets_def wire_codec_def empty_frame_def)

definition demo_conn :: "bytes list \<Rightarrow> bytes list \<Rightarrow> conn" where
  "demo_conn rs ps = \<lparr>conn_id = ''a'', conn_uid = 1, respCh = rs, pushCh = ps, pushCap = 8,
     cursor = 0, lastHeartbeat = 0, closed = False, wire = []\<rparr>"


end
