(* ===== verification/Conn_Manager.thy ===== *)
theory Conn_Manager
  imports Conn
begin

text \<open>
  The registry of connections: \<open>conn_manager.go\<close>, \<open>Conn.Close\<close> of \<open>conn.go\<close>, the sweep of
  \<open>heartbeat.go\<close> and the accept loop of \<open>server.go\<close>. Connection objects live in \<open>heap\<close>,
  addressed by their identifier, which also stands for the pointer; the two \<open>sync.Map\<close>s hold
  pointers. A \<open>sync.Map\<close> is ranged over in an unspecified order: the definitions that range take
  the order as an argument. Every operation is one step here; how the goroutines of different
  connections order their operations is left open by the step relation at the end.
\<close>

record gateway =
  heap :: "string \<rightharpoonup> conn"
  conns :: "string \<rightharpoonup> string"
  userConns :: "int \<rightharpoonup> string"
  count :: int
  nodeID :: string

definition NewConnManager :: "string \<Rightarrow> gateway" where
  "NewConnManager node =
     \<lparr>heap = Map.empty, conns = Map.empty, userConns = Map.empty, count = 0, nodeID = node\<rparr>"

definition upd_conn :: "string \<Rightarrow> (conn \<Rightarrow> conn) \<Rightarrow> gateway \<Rightarrow> gateway" where
  "upd_conn cid f g = g\<lparr>heap := (heap g)(cid := map_option f (heap g cid))\<rparr>"

definition ConnManager_Register :: "string \<Rightarrow> gateway \<Rightarrow> gateway" where
  "ConnManager_Register cid g = g\<lparr>conns := (conns g)(cid \<mapsto> cid), count := count g + 1\<rparr>"

definition ConnManager_Unregister :: "string \<Rightarrow> gateway \<Rightarrow> gateway" where
  "ConnManager_Unregister cid g =
     (case heap g cid of
        None \<Rightarrow> g
      | Some c \<Rightarrow>
          g\<lparr>conns := (conns g)(cid := None),
            userConns := (if Conn_UID c \<noteq> 0 then (userConns g)(Conn_UID c := None) else userConns g),
            count := count g - 1\<rparr>)"

definition Conn_Close :: "string \<Rightarrow> gateway \<Rightarrow> gateway" where
  "Conn_Close cid g =
     (case heap g cid of
        None \<Rightarrow> g
      | Some c \<Rightarrow>
          if closed c then g
          else ConnManager_Unregister cid (upd_conn cid (\<lambda>c. c\<lparr>closed := True\<rparr>) g))"

definition ConnManager_BindUser :: "int \<Rightarrow> string \<Rightarrow> gateway \<Rightarrow> gateway" where
  "ConnManager_BindUser uid cid g =
     (let g1 = (case userConns g uid of
                  None \<Rightarrow> g
                | Some old \<Rightarrow>
                    (let g0 = g\<lparr>userConns := (userConns g)(uid := None)\<rparr>
                     in if old \<noteq> cid then Conn_Close old g0 else g0));
          g2 = upd_conn cid (Conn_SetUID uid) g1
      in g2\<lparr>userConns := (userConns g2)(uid \<mapsto> cid)\<rparr>)"

definition ConnManager_GetByUID :: "int \<Rightarrow> gateway \<Rightarrow> string option" where
  "ConnManager_GetByUID uid g = userConns g uid"

definition ConnManager_PushToUID :: "int \<Rightarrow> bytes \<Rightarrow> gateway \<Rightarrow> gateway" where
  "ConnManager_PushToUID uid data g =
     (case ConnManager_GetByUID uid g of
        None \<Rightarrow> g
      | Some cid \<Rightarrow> upd_conn cid (\<lambda>c. snd (Conn_Send data c)) g)"

definition ConnManager_PushToAll :: "int list \<Rightarrow> bytes \<Rightarrow> gateway \<Rightarrow> gateway" where
  "ConnManager_PushToAll order data g = fold (\<lambda>uid g. ConnManager_PushToUID uid data g) order g"

definition ConnManager_PushToAllExcept :: "int list \<Rightarrow> bytes \<Rightarrow> int \<Rightarrow> gateway \<Rightarrow> gateway" where
  "ConnManager_PushToAllExcept order data excludeUID g =
     fold (\<lambda>uid g. if uid = excludeUID then g else ConnManager_PushToUID uid data g) order g"

definition ConnManager_Count :: "gateway \<Rightarrow> int" where
  "ConnManager_Count g = count g"

definition ConnManager_NodeID :: "gateway \<Rightarrow> string" where
  "ConnManager_NodeID g = nodeID g"

subsection \<open>Heartbeat sweep\<close>

definition sweep_one :: "int \<Rightarrow> int \<Rightarrow> string \<Rightarrow> gateway \<Rightarrow> gateway" where
  "sweep_one now timeoutMs cid g =
     (case conns g cid of
        None \<Rightarrow> g
      | Some p \<Rightarrow>
          (case heap g p of
             None \<Rightarrow> g
           | Some c \<Rightarrow> if now - Conn_LastHeartbeat c > timeoutMs then Conn_Close p g else g))"

definition HeartbeatManager_sweep :: "int \<Rightarrow> int \<Rightarrow> string list \<Rightarrow> gateway \<Rightarrow> gateway" where
  "HeartbeatManager_sweep now timeoutMs order g = fold (sweep_one now timeoutMs) order g"

subsection \<open>Accepting a connection\<close>

text \<open>
  One round of the accept loop in \<open>Server.Start\<close> for a connection that \<open>Accept\<close> returned;
  \<open>connID\<close> is the fresh UUID.
\<close>

definition Server_accept :: "int \<Rightarrow> nat \<Rightarrow> ring \<Rightarrow> string \<Rightarrow> int \<Rightarrow> gateway \<Rightarrow> gateway" where
  "Server_accept maxConnections sendChanSize ring connID now g =
     (if ConnManager_Count g \<ge> maxConnections then g
      else ConnManager_Register connID
             (g\<lparr>heap := (heap g)(connID \<mapsto> newConn connID sendChanSize ring now)\<rparr>))"

subsection \<open>Steps\<close>

text \<open>
  What can happen to the registry: a connection is accepted; a frame arrives and refreshes the
  heartbeat (\<open>readLoop\<close>); a connection authenticates; a connection is closed (by its own loops);
  the sweep runs; a connection's queues change. With \<open>strict\<close>, authentication is restricted to
  open connections that are unbound or already bound to the same user.
\<close>

definition keeps_session :: "(conn \<Rightarrow> conn) \<Rightarrow> bool" where
  "keeps_session f \<longleftrightarrow> (\<forall>c. conn_uid (f c) = conn_uid c \<and> closed (f c) = closed c)"

inductive gw_step :: "bool \<Rightarrow> int \<Rightarrow> gateway \<Rightarrow> gateway \<Rightarrow> bool" for strict maxConnections where
  accept: "heap g connID = None \<Longrightarrow>
    gw_step strict maxConnections g (Server_accept maxConnections sendChanSize ring connID now g)"
| receive: "heap g cid = Some c \<Longrightarrow>
    gw_step strict maxConnections g (upd_conn cid (\<lambda>c. c\<lparr>lastHeartbeat := now\<rparr>) g)"
| bind: "heap g cid = Some c \<Longrightarrow> uid > 0 \<Longrightarrow>
    (strict \<longrightarrow> \<not> closed c \<and> (conn_uid c = 0 \<or> conn_uid c = uid)) \<Longrightarrow>
    gw_step strict maxConnections g (ConnManager_BindUser uid cid g)"
| close: "gw_step strict maxConnections g (Conn_Close cid g)"
| sweep: "gw_step strict maxConnections g (HeartbeatManager_sweep now timeoutMs order g)"
| queues: "keeps_session f \<Longrightarrow>
    gw_step strict maxConnections g (upd_conn cid f g)"

inductive gw_reach :: "bool \<Rightarrow> int \<Rightarrow> gateway \<Rightarrow> bool" for strict maxConnections where
  start: "gw_reach strict maxConnections (NewConnManager node)"
| step: "gw_reach strict maxConnections g \<Longrightarrow> gw_step strict maxConnections g g' \<Longrightarrow>
    gw_reach strict maxConnections g'"

subsection \<open>Invariant\<close>

definition open_conn :: "gateway \<Rightarrow> string \<Rightarrow> bool" where
  "open_conn g cid \<longleftrightarrow> (\<exists>c. heap g cid = Some c \<and> \<not> closed c)"

definition conn_of :: "gateway \<Rightarrow> string \<Rightarrow> int \<Rightarrow> bool" where
  "conn_of g cid uid \<longleftrightarrow> (\<exists>c. heap g cid = Some c \<and> \<not> closed c \<and> conn_uid c = uid)"

definition reg_inv :: "gateway \<Rightarrow> bool" where
  "reg_inv g \<longleftrightarrow>
     finite (dom (conns g)) \<and>
     (\<forall>cid p. conns g cid = Some p \<longrightarrow> p = cid) \<and>
     (\<forall>cid. conns g cid \<noteq> None \<longleftrightarrow> open_conn g cid) \<and>
     count g = int (card (dom (conns g)))"

definition user_inv :: "gateway \<Rightarrow> bool" where
  "user_inv g \<longleftrightarrow> (\<forall>cid uid. uid \<noteq> 0 \<longrightarrow> conn_of g cid uid \<longrightarrow> userConns g uid = Some cid)"

definition user_exact :: "gateway \<Rightarrow> bool" where
  "user_exact g \<longleftrightarrow> (\<forall>cid uid. userConns g uid = Some cid \<longrightarrow> uid \<noteq> 0 \<and> conn_of g cid uid)"

definition gw_inv :: "bool \<Rightarrow> int \<Rightarrow> gateway \<Rightarrow> bool" where
  "gw_inv strict m g \<longleftrightarrow>
     reg_inv g \<and> user_inv g \<and> count g \<le> max 0 m \<and> (strict \<longrightarrow> user_exact g)"

lemma reg_inv_dom: "reg_inv g \<Longrightarrow> dom (conns g) = {cid. open_conn g cid}"
  by (auto simp: reg_inv_def dom_def)

lemma reg_inv_lookup: "reg_inv g \<Longrightarrow> conns g cid = (if open_conn g cid then Some cid else None)"
  unfolding reg_inv_def by (metis not_None_eq)

lemma conn_of_fun: "conn_of g cid u \<Longrightarrow> conn_of g cid v \<Longrightarrow> u = v"
  by (auto simp: conn_of_def)

lemma conn_of_open: "conn_of g cid u \<Longrightarrow> open_conn g cid"
  by (auto simp: conn_of_def open_conn_def)

lemma user_invD: "user_inv g \<Longrightarrow> uid \<noteq> 0 \<Longrightarrow> conn_of g cid uid \<Longrightarrow> userConns g uid = Some cid"
  unfolding user_inv_def by blast

lemma user_exactD: "user_exact g \<Longrightarrow> userConns g uid = Some cid \<Longrightarrow> uid \<noteq> 0 \<and> conn_of g cid uid"
  unfolding user_exact_def by blast

paragraph \<open>Updates that leave the registry alone\<close>

lemma upd_conn_fields [simp]:
  "conns (upd_conn cid f g) = conns g" "userConns (upd_conn cid f g) = userConns g"
  "count (upd_conn cid f g) = count g" "nodeID (upd_conn cid f g) = nodeID g"
  "heap (upd_conn cid f g) x = (if x = cid then map_option f (heap g cid) else heap g x)"
  by (simp_all add: upd_conn_def)

lemma upd_conn_frame:
  assumes "keeps_session f"
  shows "open_conn (upd_conn cid f g) = open_conn g" "conn_of (upd_conn cid f g) = conn_of g"
  using assms by (auto simp: keeps_session_def open_conn_def conn_of_def fun_eq_iff)

lemma invs_cong:
  assumes "open_conn g' = open_conn g" "conn_of g' = conn_of g" "conns g' = conns g"
    "userConns g' = userConns g" "count g' = count g"
  shows "gw_inv s m g' \<longleftrightarrow> gw_inv s m g"
  unfolding gw_inv_def reg_inv_def user_inv_def user_exact_def assms by (rule refl)

lemma gw_inv_upd_conn: "keeps_session f \<Longrightarrow> gw_inv s m (upd_conn cid f g) \<longleftrightarrow> gw_inv s m g"
  by (rule invs_cong) (simp_all add: upd_conn_frame)

paragraph \<open>Closing\<close>

lemma Conn_Close_idle: "\<not> open_conn g cid \<Longrightarrow> Conn_Close cid g = g"
  by (auto simp: Conn_Close_def open_conn_def split: option.splits)

lemma Conn_Close_live:
  assumes "heap g cid = Some c" "\<not> closed c"
  shows "Conn_Close cid g =
    g\<lparr>heap := (heap g)(cid \<mapsto> c\<lparr>closed := True\<rparr>), conns := (conns g)(cid := None),
      userConns := (if conn_uid c \<noteq> 0 then (userConns g)(conn_uid c := None) else userConns g),
      count := count g - 1\<rparr>"
  using assms by (simp add: Conn_Close_def ConnManager_Unregister_def upd_conn_def Conn_UID_def)

lemma Conn_Close_open: "open_conn (Conn_Close cid g) x \<longleftrightarrow> open_conn g x \<and> x \<noteq> cid"
proof (cases "open_conn g cid")
  case True
  then obtain c where "heap g cid = Some c" "\<not> closed c" by (auto simp: open_conn_def)
  then show ?thesis by (auto simp: Conn_Close_live open_conn_def)
qed (auto simp: Conn_Close_idle)

lemma Conn_Close_conn_of: "conn_of (Conn_Close cid g) x u \<longleftrightarrow> conn_of g x u \<and> x \<noteq> cid"
proof (cases "open_conn g cid")
  case True
  then obtain c where "heap g cid = Some c" "\<not> closed c" by (auto simp: open_conn_def)
  then show ?thesis by (auto simp: Conn_Close_live conn_of_def)
qed (auto simp: Conn_Close_idle dest: conn_of_open)

lemma Conn_Close_userConns:
  "userConns (Conn_Close cid g) u = (if u \<noteq> 0 \<and> conn_of g cid u then None else userConns g u)"
proof (cases "open_conn g cid")
  case True
  then obtain c where "heap g cid = Some c" "\<not> closed c" by (auto simp: open_conn_def)
  then show ?thesis by (auto simp: Conn_Close_live conn_of_def)
qed (auto simp: Conn_Close_idle dest: conn_of_open)

lemma reg_inv_Conn_Close:
  assumes "reg_inv g"
  shows "reg_inv (Conn_Close cid g)" "count (Conn_Close cid g) \<le> count g"
proof -
  have "reg_inv (Conn_Close cid g) \<and> count (Conn_Close cid g) \<le> count g"
  proof (cases "open_conn g cid")
    case True
    then obtain c where c: "heap g cid = Some c" "\<not> closed c" by (auto simp: open_conn_def)
    have "cid \<in> dom (conns g)" using True assms by (simp add: reg_inv_dom)
    then have "int (card (dom (conns g) - {cid})) = count g - 1"
      using assms card_Suc_Diff1 [of "dom (conns g)" cid] by (simp add: reg_inv_def)
    moreover have "conns (Conn_Close cid g) = (conns g)(cid := None)"
      "count (Conn_Close cid g) = count g - 1"
      using c by (simp_all add: Conn_Close_live)
    ultimately show ?thesis using assms by (simp add: reg_inv_def Conn_Close_open)
  qed (simp add: Conn_Close_idle assms)
  then show "reg_inv (Conn_Close cid g)" "count (Conn_Close cid g) \<le> count g" by auto
qed

lemma user_inv_Conn_Close: "user_inv g \<Longrightarrow> user_inv (Conn_Close cid g)"
  unfolding user_inv_def Conn_Close_conn_of Conn_Close_userConns
  by (metis option.inject)

lemma user_exact_Conn_Close: "user_exact g \<Longrightarrow> user_exact (Conn_Close cid g)"
  unfolding user_exact_def Conn_Close_conn_of Conn_Close_userConns
  by (metis option.distinct(1))

lemma gw_inv_Conn_Close: "gw_inv s m g \<Longrightarrow> gw_inv s m (Conn_Close cid g)"
  using reg_inv_Conn_Close [of g cid]
  by (simp add: gw_inv_def user_inv_Conn_Close user_exact_Conn_Close)

lemma gw_inv_sweep_one: "gw_inv s m g \<Longrightarrow> gw_inv s m (sweep_one now tmo cid g)"
  by (simp add: sweep_one_def gw_inv_Conn_Close split: option.splits)

lemma gw_inv_sweep: "gw_inv s m g \<Longrightarrow> gw_inv s m (HeartbeatManager_sweep now tmo order g)"
  unfolding HeartbeatManager_sweep_def
  by (induction order arbitrary: g) (simp_all add: gw_inv_sweep_one)

paragraph \<open>Accepting\<close>

lemma gw_inv_accept:
  assumes "gw_inv s m g" "heap g cid = None"
  shows "gw_inv s m (Server_accept m n r cid now g)"
proof (cases "count g \<ge> m")
  case False
  let ?g = "Server_accept m n r cid now g"
  have g: "?g = g\<lparr>heap := (heap g)(cid \<mapsto> newConn cid n r now), conns := (conns g)(cid \<mapsto> cid),
                   count := count g + 1\<rparr>"
    using False by (simp add: Server_accept_def ConnManager_Count_def ConnManager_Register_def)
  have reg: "reg_inv g" using assms by (simp add: gw_inv_def)
  have new: "\<not> open_conn g cid" using assms by (simp add: open_conn_def)
  then have "cid \<notin> dom (conns g)" using reg by (simp add: reg_inv_dom)
  moreover have "open_conn ?g x \<longleftrightarrow> open_conn g x \<or> x = cid" for x
    by (auto simp: g open_conn_def newConn_def)
  ultimately have "reg_inv ?g" using reg by (simp add: reg_inv_def) (simp add: g)
  moreover have c: "conn_of ?g x u \<longleftrightarrow> conn_of g x u \<or> x = cid \<and> u = 0" for x u
    using assms(2) by (auto simp: g conn_of_def newConn_def)
  moreover have u: "userConns ?g = userConns g" "count ?g \<le> max 0 m" using False by (simp_all add: g)
  have "user_inv g \<Longrightarrow> user_inv ?g" unfolding user_inv_def c u by fast
  moreover have "user_exact g \<Longrightarrow> user_exact ?g" unfolding user_exact_def c u by fast
  ultimately show ?thesis using assms(1) u by (simp add: gw_inv_def)
qed (simp add: Server_accept_def ConnManager_Count_def assms)

paragraph \<open>Binding a user\<close>

definition bind_kick :: "int \<Rightarrow> string \<Rightarrow> gateway \<Rightarrow> gateway" where
  "bind_kick uid cid g =
     (case userConns g uid of
        None \<Rightarrow> g
      | Some old \<Rightarrow>
          (let g0 = g\<lparr>userConns := (userConns g)(uid := None)\<rparr>
           in if old \<noteq> cid then Conn_Close old g0 else g0))"

lemma BindUser_kick:
  "ConnManager_BindUser uid cid g =
     (let g2 = upd_conn cid (Conn_SetUID uid) (bind_kick uid cid g)
      in g2\<lparr>userConns := (userConns g2)(uid \<mapsto> cid)\<rparr>)"
  unfolding ConnManager_BindUser_def bind_kick_def Let_def by (rule refl)

lemma registry_cong:
  assumes "heap g' = heap g"
  shows "open_conn g' = open_conn g" "conn_of g' = conn_of g"
  by (auto simp: open_conn_def conn_of_def fun_eq_iff assms)

lemma set_userConns [simp]:
  "open_conn (g\<lparr>userConns := m\<rparr>) = open_conn g" "conn_of (g\<lparr>userConns := m\<rparr>) = conn_of g"
  by (rule registry_cong; simp)+

lemma reg_inv_cong:
  assumes "heap g' = heap g" "conns g' = conns g" "count g' = count g"
  shows "reg_inv g' \<longleftrightarrow> reg_inv g"
  unfolding reg_inv_def registry_cong [OF assms(1)] assms by (rule refl)

lemma bind_kick_conn_of:
  "conn_of (bind_kick uid cid g) x u \<longleftrightarrow>
     conn_of g x u \<and> (x = cid \<or> userConns g uid \<noteq> Some x)"
  by (auto simp: bind_kick_def Let_def Conn_Close_conn_of split: option.splits)

lemma bind_kick_open:
  "open_conn (bind_kick uid cid g) x \<longleftrightarrow>
     open_conn g x \<and> (x = cid \<or> userConns g uid \<noteq> Some x)"
  by (auto simp: bind_kick_def Let_def Conn_Close_open split: option.splits)

lemma bind_kick_userConns:
  "u \<noteq> uid \<Longrightarrow> userConns (bind_kick uid cid g) u =
     (if u \<noteq> 0 \<and> (\<exists>old. userConns g uid = Some old \<and> old \<noteq> cid \<and> conn_of g old u)
      then None else userConns g u)"
  by (simp add: bind_kick_def Let_def Conn_Close_userConns split: option.splits)

lemma bind_kick_reg_inv:
  assumes "reg_inv g"
  shows "reg_inv (bind_kick uid cid g)" "count (bind_kick uid cid g) \<le> count g"
proof -
  let ?g0 = "g\<lparr>userConns := (userConns g)(uid := None)\<rparr>"
  have "reg_inv ?g0" using assms by (simp add: reg_inv_cong [of ?g0 g])
  then show "reg_inv (bind_kick uid cid g)" "count (bind_kick uid cid g) \<le> count g"
    using assms reg_inv_Conn_Close [of ?g0] by (auto simp: bind_kick_def Let_def split: option.splits)
qed

lemma bind_conn_of:
  "conn_of (ConnManager_BindUser uid cid g) x u \<longleftrightarrow>
     (if x = cid then open_conn g cid \<and> u = uid
      else conn_of g x u \<and> userConns g uid \<noteq> Some x)"
proof -
  have "conn_of (ConnManager_BindUser uid cid g) x u \<longleftrightarrow>
    conn_of (upd_conn cid (Conn_SetUID uid) (bind_kick uid cid g)) x u"
    by (simp add: BindUser_kick Let_def)
  also have "\<dots> \<longleftrightarrow> (if x = cid then open_conn (bind_kick uid cid g) cid \<and> u = uid
                    else conn_of (bind_kick uid cid g) x u)"
    by (auto simp: conn_of_def open_conn_def Conn_SetUID_def)
  finally show ?thesis by (simp add: bind_kick_conn_of bind_kick_open)
qed

lemma bind_userConns:
  "userConns (ConnManager_BindUser uid cid g) u =
     (if u = uid then Some cid else userConns (bind_kick uid cid g) u)"
  by (simp add: BindUser_kick Let_def)

lemma bind_open:
  "open_conn (ConnManager_BindUser uid cid g) x \<longleftrightarrow>
     open_conn g x \<and> (x = cid \<or> userConns g uid \<noteq> Some x)"
proof -
  have "open_conn (ConnManager_BindUser uid cid g) x \<longleftrightarrow> open_conn (bind_kick uid cid g) x"
    by (auto simp: BindUser_kick Let_def open_conn_def Conn_SetUID_def)
  then show ?thesis by (simp add: bind_kick_open)
qed

lemma bind_reg_inv:
  assumes "reg_inv g"
  shows "reg_inv (ConnManager_BindUser uid cid g)" "count (ConnManager_BindUser uid cid g) \<le> count g"
proof -
  let ?h = "ConnManager_BindUser uid cid g" and ?k = "bind_kick uid cid g"
  have o: "open_conn ?h = open_conn ?k" by (simp add: bind_open bind_kick_open fun_eq_iff)
  have e: "conns ?h = conns ?k" "count ?h = count ?k" by (simp_all add: BindUser_kick Let_def)
  show "reg_inv ?h" using bind_kick_reg_inv(1) [OF assms, of uid cid] unfolding reg_inv_def o e .
  show "count ?h \<le> count g" using bind_kick_reg_inv(2) [OF assms] by (simp add: e)
qed

lemma bind_user_inv:
  assumes "user_inv g"
  shows "user_inv (ConnManager_BindUser uid cid g)"
  unfolding user_inv_def
proof (intro allI impI)
  fix x u assume u: "u \<noteq> 0" and c: "conn_of (ConnManager_BindUser uid cid g) x u"
  show "userConns (ConnManager_BindUser uid cid g) u = Some x"
  proof (cases "x = cid")
    case True
    then show ?thesis using c by (simp add: bind_conn_of bind_userConns)
  next
    case False
    then have g: "conn_of g x u" "userConns g uid \<noteq> Some x" using c by (simp_all add: bind_conn_of)
    then have m: "userConns g u = Some x" using assms u by (auto simp: user_inv_def)
    then have "u \<noteq> uid" using g by auto
    moreover have "\<not> conn_of g old u" if "userConns g uid = Some old" for old
      using that g m assms u unfolding user_inv_def by (metis option.inject)
    ultimately show ?thesis using m by (auto simp: bind_userConns bind_kick_userConns)
  qed
qed

lemma bind_user_exact:
  assumes ex: "user_exact g" and cid: "heap g cid = Some c" "\<not> closed c"
    and uid: "conn_uid c = 0 \<or> conn_uid c = uid" "uid > 0"
  shows "user_exact (ConnManager_BindUser uid cid g)"
  unfolding user_exact_def
proof (intro allI impI)
  fix x u assume h: "userConns (ConnManager_BindUser uid cid g) u = Some x"
  have own: "open_conn g cid" "conn_of g cid (conn_uid c)"
    using cid by (auto simp: open_conn_def conn_of_def)
  show "u \<noteq> 0 \<and> conn_of (ConnManager_BindUser uid cid g) x u"
  proof (cases "u = uid")
    case True
    then show ?thesis using h own uid by (simp add: bind_userConns bind_conn_of)
  next
    case False
    then have m: "userConns g u = Some x" using h
      by (simp add: bind_userConns bind_kick_userConns split: if_splits)
    then have x: "u \<noteq> 0" "conn_of g x u" using ex by (auto simp: user_exact_def)
    then have "x \<noteq> cid" using own uid False by (auto dest: conn_of_fun)
    moreover have "userConns g uid \<noteq> Some x"
      using ex x False by (auto simp: user_exact_def dest: conn_of_fun)
    ultimately show ?thesis using x by (simp add: bind_conn_of)
  qed
qed

subsection \<open>Reachable registries\<close>

lemma gw_inv_step: "gw_step s m g g' \<Longrightarrow> gw_inv s m g \<Longrightarrow> gw_inv s m g'"
proof (induction rule: gw_step.induct)
  case (receive g cid c now)
  then show ?case by (simp add: gw_inv_upd_conn keeps_session_def)
next
  case (bind g cid c uid)
  then show ?case
    using bind_reg_inv [of g uid cid] bind_user_inv [of g uid cid] bind_user_exact [of g cid c uid]
    by (simp add: gw_inv_def)
qed (simp_all add: gw_inv_accept gw_inv_Conn_Close gw_inv_sweep gw_inv_upd_conn)

lemma gw_inv_reach: "gw_reach s m g \<Longrightarrow> gw_inv s m g"
proof (induction rule: gw_reach.induct)
  case (start node)
  then show ?case
    by (simp add: gw_inv_def reg_inv_def user_inv_def user_exact_def NewConnManager_def
        open_conn_def conn_of_def)
next
  case (step g g')
  then show ?case by (blast intro: gw_inv_step)
qed

lemmas gw_op_defs =
  Server_accept_def ConnManager_Count_def ConnManager_Register_def ConnManager_BindUser_def
  ConnManager_GetByUID_def Conn_Close_def ConnManager_Unregister_def Conn_UID_def Conn_SetUID_def
  NewConnManager_def newConn_def Ring_NewCursor_def Ring_WritePos_def Let_def

paragraph \<open>A short run\<close>

text \<open>Two connections are accepted at times 0 and 50; the first authenticates as user 7.\<close>

definition demo_ring :: ring where
  "demo_ring = \<lparr>buf = [None], rmask = 0, writePos = 0\<rparr>"

definition demo_gw1 :: gateway where
  "demo_gw1 = ConnManager_BindUser 7 ''a'' (Server_accept 2 4 demo_ring ''a'' 0 (NewConnManager ''n1''))"

definition demo_gw :: gateway where
  "demo_gw = Server_accept 2 4 demo_ring ''b'' 50 demo_gw1"

definition demo_heap_conn :: "string \<Rightarrow> int \<Rightarrow> int \<Rightarrow> conn" where
  "demo_heap_conn cid uid t =
     \<lparr>conn_id = cid, conn_uid = uid, respCh = [], pushCh = [], pushCap = 4, cursor = 0,
      lastHeartbeat = t, closed = False, wire = []\<rparr>"

lemma demo_gw1_eq:
  "demo_gw1 = \<lparr>heap = [''a'' \<mapsto> demo_heap_conn ''a'' 7 0], conns = [''a'' \<mapsto> ''a''],
               userConns = [7 \<mapsto> ''a''], count = 1, nodeID = ''n1''\<rparr>"
  by (simp add: demo_gw1_def gw_op_defs upd_conn_def demo_ring_def demo_heap_conn_def)

lemma demo_gw_eq:
  "demo_gw = \<lparr>heap = [''a'' \<mapsto> demo_heap_conn ''a'' 7 0, ''b'' \<mapsto> demo_heap_conn ''b'' 0 50],
              conns = [''a'' \<mapsto> ''a'', ''b'' \<mapsto> ''b''],
              userConns = [7 \<mapsto> ''a''], count = 2, nodeID = ''n1''\<rparr>"
  by (simp add: demo_gw_def demo_gw1_eq gw_op_defs demo_ring_def demo_heap_conn_def)

lemma demo_gw_reach: "gw_reach s 2 demo_gw"
proof -
  let ?g0 = "Server_accept 2 4 demo_ring ''a'' 0 (NewConnManager ''n1'')"
  have "gw_reach s 2 ?g0"
    by (rule gw_reach.step [OF gw_reach.start gw_step.accept]) (simp add: NewConnManager_def)
  moreover have "heap ?g0 ''a'' = Some (newConn ''a'' 4 demo_ring 0)" by (simp add: gw_op_defs)
  ultimately have "gw_reach s 2 demo_gw1"
    unfolding demo_gw1_def by (rule gw_reach.step [OF _ gw_step.bind]) (simp_all add: newConn_def)
  then show ?thesis
    unfolding demo_gw_def by (rule gw_reach.step [OF _ gw_step.accept]) (simp add: demo_gw1_eq)
qed

subsection \<open>Properties\<close>





paragraph \<open>The sweep\<close>

definition timed_out :: "int \<Rightarrow> int \<Rightarrow> conn \<Rightarrow> bool" where
  "timed_out now timeoutMs c \<longleftrightarrow> now - lastHeartbeat c > timeoutMs"

lemma reg_inv_sweep_one: "reg_inv g \<Longrightarrow> reg_inv (sweep_one now tmo cid g)"
  by (simp add: sweep_one_def reg_inv_Conn_Close split: option.splits)

lemma Conn_Close_heap:
  "heap (Conn_Close cid g) x =
     map_option (\<lambda>c. if x = cid then c\<lparr>closed := True\<rparr> else c) (heap g x)"
proof (cases "open_conn g cid")
  case True
  then obtain c where "heap g cid = Some c" "\<not> closed c" by (auto simp: open_conn_def)
  then show ?thesis by (simp add: Conn_Close_live option.map_ident)
next
  case False
  then have "c\<lparr>closed := True\<rparr> = c" if "heap g cid = Some c" for c
    using that by (cases c) (auto simp: open_conn_def)
  then show ?thesis using False by (cases "heap g x") (auto simp: Conn_Close_idle)
qed

lemma sweep_one_heap:
  assumes "reg_inv g"
  shows "heap (sweep_one now tmo cid g) x =
    map_option (\<lambda>c. if x = cid \<and> timed_out now tmo c then c\<lparr>closed := True\<rparr> else c) (heap g x)"
proof (cases "conns g cid")
  case None
  then have "\<not> open_conn g cid" using reg_inv_lookup [OF assms, of cid] by auto
  then have "c\<lparr>closed := True\<rparr> = c" if "heap g cid = Some c" for c
    using that by (cases c) (auto simp: open_conn_def)
  then show ?thesis using None by (cases "heap g x") (auto simp: sweep_one_def)
next
  case (Some p)
  then have "p = cid" "open_conn g cid" using assms by (auto simp: reg_inv_def)
  then show ?thesis using Some
    by (cases "heap g x")
      (auto simp: sweep_one_def timed_out_def Conn_LastHeartbeat_def Conn_Close_heap open_conn_def)
qed

lemma sweep_heap:
  assumes "reg_inv g"
  shows "heap (HeartbeatManager_sweep now tmo order g) x =
    map_option (\<lambda>c. if x \<in> set order \<and> timed_out now tmo c then c\<lparr>closed := True\<rparr> else c) (heap g x)"
  using assms unfolding HeartbeatManager_sweep_def
proof (induction order arbitrary: g)
  case Nil
  then show ?case by (simp add: option.map_ident)
next
  case (Cons cid order)
  then show ?case
    by (simp add: reg_inv_sweep_one sweep_one_heap option.map_comp)
      (cases "heap g x"; auto simp: timed_out_def)
qed

text \<open>
  C37: a sweep that visits every registered connection closes the connections whose last frame
  is older than the timeout and no others, changes nothing else in any connection, and leaves the
  closed ones out of the registry.
\<close>

theorem sweep_closes_idle:
  assumes "gw_reach strict maxConnections g" and "dom (conns g) \<subseteq> set order"
  shows "let g' = HeartbeatManager_sweep now timeoutMs order g in
    (\<forall>cid. heap g' cid =
       map_option (\<lambda>c. if timed_out now timeoutMs c then c\<lparr>closed := True\<rparr> else c) (heap g cid)) \<and>
    (\<forall>cid. conns g' cid =
       (if open_conn g cid \<and> \<not> timed_out now timeoutMs (the (heap g cid)) then Some cid else None))"
proof -
  let ?g = "HeartbeatManager_sweep now timeoutMs order g"
  have inv: "reg_inv g" "reg_inv ?g"
    using gw_inv_reach [OF assms(1)] gw_inv_sweep [OF gw_inv_reach [OF assms(1)]]
    by (simp_all add: gw_inv_def)
  have noop: "c\<lparr>closed := True\<rparr> = c" if "heap g cid = Some c" "cid \<notin> set order" for c cid
  proof -
    have "\<not> open_conn g cid" using that assms(2) reg_inv_dom [OF inv(1)] by auto
    then show ?thesis using that by (cases c) (auto simp: open_conn_def)
  qed
  have h: "heap ?g cid =
      map_option (\<lambda>c. if timed_out now timeoutMs c then c\<lparr>closed := True\<rparr> else c) (heap g cid)" for cid
    using noop by (cases "heap g cid") (auto simp: sweep_heap [OF inv(1)])
  have "conns ?g cid = (if open_conn ?g cid then Some cid else None)" for cid
    by (rule reg_inv_lookup [OF inv(2)])
  moreover have "open_conn ?g cid \<longleftrightarrow> open_conn g cid \<and> \<not> timed_out now timeoutMs (the (heap g cid))" for cid
    by (cases "heap g cid") (simp_all add: open_conn_def h)
  ultimately show ?thesis using h by (simp add: Let_def)
qed

theorem sweep_closes_idle_witness:
  "conns (HeartbeatManager_sweep 100 90 [''a'', ''b''] demo_gw) = [''b'' \<mapsto> ''b'']"
proof -
  have "dom (conns demo_gw) \<subseteq> set [''a'', ''b'']" by (simp add: demo_gw_eq)
  note r = sweep_closes_idle [OF demo_gw_reach [of True] this, of 100 90]
  show ?thesis
  proof
    fix cid
    show "conns (HeartbeatManager_sweep 100 90 [''a'', ''b''] demo_gw) cid = [''b'' \<mapsto> ''b''] cid"
      using r by (simp add: Let_def open_conn_def demo_gw_eq demo_heap_conn_def timed_out_def)
  qed
qed

paragraph \<open>Pushing to users\<close>

lemma PushToUID_heap:
  "heap (ConnManager_PushToUID uid data g) x =
     map_option (\<lambda>c. if userConns g uid = Some x then snd (Conn_Send data c) else c) (heap g x)"
  by (auto simp: ConnManager_PushToUID_def ConnManager_GetByUID_def option.map_ident
      split: option.splits)

lemma PushToUID_userConns [simp]: "userConns (ConnManager_PushToUID uid data g) = userConns g"
  by (simp add: ConnManager_PushToUID_def split: option.splits)

lemma PushToAllExcept_heap:
  assumes "inj_on (userConns g) (dom (userConns g))" "distinct order"
  shows "heap (ConnManager_PushToAllExcept order data ex g) x =
    map_option (\<lambda>c. if \<exists>u \<in> set order. u \<noteq> ex \<and> userConns g u = Some x
                    then snd (Conn_Send data c) else c) (heap g x)"
  using assms unfolding ConnManager_PushToAllExcept_def
proof (induction order arbitrary: g)
  case Nil
  then show ?case by (simp add: option.map_ident)
next
  case (Cons v order)
  let ?g = "if v = ex then g else ConnManager_PushToUID v data g"
  have u: "userConns ?g = userConns g" by simp
  have once: "\<not> (\<exists>u \<in> set order. u \<noteq> ex \<and> userConns g u = Some x)" if "userConns g v = Some x"
    using that Cons.prems inj_onD [OF Cons.prems(1)] by (metis distinct.simps(2) domI)
  have "heap (fold (\<lambda>uid g. if uid = ex then g else ConnManager_PushToUID uid data g) (v # order) g) x =
    map_option (\<lambda>c. if \<exists>u \<in> set order. u \<noteq> ex \<and> userConns g u = Some x
                    then snd (Conn_Send data c) else c) (heap ?g x)"
    using Cons.IH [of ?g] Cons.prems u by simp
  also have "\<dots> = map_option (\<lambda>c. if \<exists>u \<in> set (v # order). u \<noteq> ex \<and> userConns g u = Some x
                    then snd (Conn_Send data c) else c) (heap g x)"
    using once by (cases "heap g x") (auto simp: PushToUID_heap)
  finally show ?case .
qed

lemma user_exact_inj: "user_exact g \<Longrightarrow> inj_on (userConns g) (dom (userConns g))"
  by (rule inj_onI) (metis conn_of_fun domD user_exactD)

text \<open>
  In a reachable state, a push to all users but one appends the packet once to the queue
  of every connection bound to another user when that queue has room, and touches no other
  connection; in particular nothing reaches the excluded user.
\<close>

theorem push_except_targets:
  assumes "gw_reach True maxConnections g" and "set order = dom (userConns g)" "distinct order"
  shows "heap (ConnManager_PushToAllExcept order data excludeUID g) cid =
    (case heap g cid of
       None \<Rightarrow> None
     | Some c \<Rightarrow>
         if \<not> closed c \<and> conn_uid c \<noteq> 0 \<and> conn_uid c \<noteq> excludeUID \<and> length (pushCh c) < pushCap c
         then Some (c\<lparr>pushCh := pushCh c @ [data]\<rparr>) else Some c)"
proof -
  have inv: "user_inv g" "user_exact g" using gw_inv_reach [OF assms(1)] by (simp_all add: gw_inv_def)
  have bound: "(\<exists>u \<in> set order. u \<noteq> excludeUID \<and> userConns g u = Some cid) \<longleftrightarrow>
      \<not> closed c \<and> conn_uid c \<noteq> 0 \<and> conn_uid c \<noteq> excludeUID" (is "?l \<longleftrightarrow> ?r")
    if c: "heap g cid = Some c" for c
  proof
    assume ?l
    then obtain u where "u \<noteq> excludeUID" "userConns g u = Some cid" by blast
    then show ?r using user_exactD [OF inv(2)] c by (fastforce simp: conn_of_def)
  next
    assume ?r
    then have "userConns g (conn_uid c) = Some cid"
      using user_invD [OF inv(1)] c by (simp add: conn_of_def)
    then show ?l using assms(2) \<open>?r\<close> by blast
  qed
  show ?thesis
    unfolding PushToAllExcept_heap [OF user_exact_inj [OF inv(2)] assms(3)]
    by (cases "heap g cid") (simp_all add: bound Conn_Send_def)
qed

theorem push_except_targets_witness:
  "heap (ConnManager_PushToAllExcept [7] [1, 2] 9 demo_gw) ''a'' =
     Some ((demo_heap_conn ''a'' 7 0)\<lparr>pushCh := [[1, 2]]\<rparr>) \<and>
   heap (ConnManager_PushToAllExcept [7] [1, 2] 7 demo_gw) ''a'' = Some (demo_heap_conn ''a'' 7 0)"
proof -
  have "set [7] = dom (userConns demo_gw)" "distinct [7::int]" by (simp_all add: demo_gw_eq)
  note r = push_except_targets [OF demo_gw_reach this, of "[1, 2]" _ "''a''"]
  have "heap demo_gw ''a'' = Some (demo_heap_conn ''a'' 7 0)" by (simp add: demo_gw_eq)
  then show ?thesis by (simp add: r) (simp add: demo_heap_conn_def)
qed

paragraph \<open>Authenticating twice\<close>

text \<open>
  Without that restriction the lookup table can go stale: \<open>BindUser\<close> does not remove the
  binding a connection already has. After a second authentication under another identity the first
  user's pushes are queued on the second user's connection.
\<close>

lemma relogin_misroutes:
  "\<exists>g. gw_reach False 2 g \<and> ConnManager_GetByUID 7 g = Some ''a'' \<and> conn_of g ''a'' 8"
proof (intro exI conjI)
  let ?g = "ConnManager_BindUser 8 ''a'' demo_gw"
  have a: "heap demo_gw ''a'' = Some (demo_heap_conn ''a'' 7 0)" by (simp add: demo_gw_eq)
  show "gw_reach False 2 ?g"
    by (rule gw_reach.step [OF demo_gw_reach gw_step.bind [OF a]]) simp_all
  show "ConnManager_GetByUID 7 ?g = Some ''a''" "conn_of ?g ''a'' 8"
    by (simp_all add: demo_gw_eq demo_heap_conn_def gw_op_defs upd_conn_def conn_of_def)
qed

end
