(* ===== verification/Go_Strings.thy ===== *)
theory Go_Strings
  imports Go_Lib "HOL-Library.Sublist"
begin

text \<open>
  The functions of packages strings, utf8 and unicode the content filter calls, byte by byte as Go
  strings are; masking of the occurrences of a word; and the texts whose lower case keeps every
  byte in place.
\<close>

subsection \<open>Package strings\<close>

text \<open>\<open>utf8.AppendRune\<close>: surrogates and values out of range are written as U+FFFD.\<close>

definition encode_rune :: "nat \<Rightarrow> nat list" where
  "encode_rune r =
     (if r < 128 then [r]
      else if r < 2048 then [192 + r div 64, 128 + r mod 64]
      else if 1114111 < r \<or> 55296 \<le> r \<and> r \<le> 57343 then [239, 191, 189]
      else if r < 65536 then [224 + r div 4096, 128 + r div 64 mod 64, 128 + r mod 64]
      else [240 + r div 262144, 128 + r div 4096 mod 64, 128 + r div 64 mod 64, 128 + r mod 64])"

text \<open>
  \<open>unicode.ToLower\<close>: the ASCII letters directly, every other rune by the Unicode case table,
  which is the argument \<open>tbl\<close>.
\<close>

definition lower_rune :: "(nat \<Rightarrow> nat) \<Rightarrow> nat \<Rightarrow> nat" where
  "lower_rune tbl r = (if r < 128 then (if 65 \<le> r \<and> r \<le> 90 then r + 32 else r) else tbl r)"

declare decode_rune.simps(2) [simp del]

function lower_codes :: "(nat \<Rightarrow> nat) \<Rightarrow> nat list \<Rightarrow> nat list" where
  "lower_codes tbl [] = []"
| "lower_codes tbl (b # bs) =
     encode_rune (lower_rune tbl (fst (decode_rune (b # bs)))) @
     lower_codes tbl (drop (snd (decode_rune (b # bs))) (b # bs))"
  by pat_completeness auto
termination
proof (relation "measure (length \<circ> snd)")
  fix tbl :: "nat \<Rightarrow> nat" and b bs
  show "((tbl, drop (snd (decode_rune (b # bs))) (b # bs)), tbl, b # bs) \<in> measure (length \<circ> snd)"
    using decode_rune_width [of "b # bs"] by simp
qed simp

definition ToLower :: "(nat \<Rightarrow> nat) \<Rightarrow> string \<Rightarrow> string" where
  "ToLower tbl s = map char_of (lower_codes tbl (string_codes s))"

fun Index :: "'a list \<Rightarrow> 'a list \<Rightarrow> nat option" where
  "Index s sub =
     (if prefix sub s then Some 0
      else case s of [] \<Rightarrow> None | _ # t \<Rightarrow> map_option Suc (Index t sub))"

definition Contains :: "'a list \<Rightarrow> 'a list \<Rightarrow> bool" where
  "Contains s sub \<longleftrightarrow> Index s sub \<noteq> None"

declare Index.simps [simp del]

subsection \<open>Searching\<close>

lemma Index_simps [go_simps]:
  "Index [] sub = (if sub = [] then Some 0 else None)"
  "Index (x # t) sub = (if prefix sub (x # t) then Some 0 else map_option Suc (Index t sub))"
  by (simp_all add: Index.simps)

lemma Index_Some: "Index s sub = Some k \<Longrightarrow> k \<le> length s \<and> prefix sub (drop k s)"
proof (induction s arbitrary: k)
  case Nil
  then show ?case by (simp add: Index_simps split: if_splits)
next
  case (Cons x xs)
  then show ?case by (auto simp: Index_simps split: if_splits)
qed

lemma Index_first: "Index s sub = Some k \<Longrightarrow> j < k \<Longrightarrow> \<not> prefix sub (drop j s)"
proof (induction s arbitrary: j k)
  case Nil
  then show ?case by (simp add: Index_simps split: if_splits)
next
  case (Cons x xs)
  then show ?case
    by (cases j) (auto simp: Index_simps split: if_splits)
qed

lemma Index_None: "Index s sub = None \<longleftrightarrow> (\<forall>k \<le> length s. \<not> prefix sub (drop k s))"
proof (induction s)
  case Nil
  then show ?case by (simp add: Index_simps)
next
  case (Cons x xs)
  then show ?case
    by (simp add: Index_simps All_less_Suc2 flip: less_Suc_eq_le)
qed

lemma Contains_iff: "Contains s sub \<longleftrightarrow> (\<exists>k \<le> length s. prefix sub (drop k s))"
  by (simp add: Contains_def Index_None)

subsection \<open>Masking\<close>

text \<open>
  What the loop is meant to compute, by recursion on the content: at every position where the
  lowered word starts, the word's length of \<open>star\<close>; elsewhere the character itself. \<open>f\<close>
  lowers one character.
\<close>

function mask_all :: "('a \<Rightarrow> 'a) \<Rightarrow> 'a \<Rightarrow> 'a list \<Rightarrow> 'a list \<Rightarrow> 'a list" where
  "mask_all f star w [] = []"
| "mask_all f star w (x # xs) =
     (if w \<noteq> [] \<and> prefix w (map f (x # xs))
      then replicate (length w) star @ mask_all f star w (drop (length w) (x # xs))
      else x # mask_all f star w xs)"
  by pat_completeness auto
termination
  by (relation "measure (\<lambda>(_, _, _, s). length s)") auto

lemma mask_all_hit:
  "w \<noteq> [] \<Longrightarrow> prefix w (map f s) \<Longrightarrow>
     mask_all f star w s = replicate (length w) star @ mask_all f star w (drop (length w) s)"
  by (cases s) simp_all

lemma mask_all_miss:
  "\<not> (w \<noteq> [] \<and> prefix w (map f (x # xs))) \<Longrightarrow> mask_all f star w (x # xs) = x # mask_all f star w xs"
  by (subst mask_all.simps) (rule if_not_P)

declare mask_all.simps(2) [simp del]

lemma mask_all_skip:
  assumes "w \<noteq> []" "\<And>j. j < k \<Longrightarrow> \<not> prefix w (map f (drop j s))" "k \<le> length s"
  shows "mask_all f star w s = take k s @ mask_all f star w (drop k s)"
  using assms(2,3)
proof (induction k arbitrary: s)
  case (Suc k)
  then obtain x xs where s: "s = x # xs" by (cases s) auto
  have "\<not> prefix w (map f s)" using Suc.prems(1) [of 0] by simp
  moreover have "\<not> prefix w (map f (drop j xs))" if "j < k" for j
    using Suc.prems(1) [of "Suc j"] that s by simp
  ultimately show ?case using Suc.IH [of xs] Suc.prems(2) s by (simp add: mask_all_miss)
qed simp

lemma mask_all_related:
  "list_all2 (\<lambda>a b. b = a \<or> b = star) s (mask_all f star w s)"
proof (induction f star w s rule: mask_all.induct)
  case (2 f star w x xs)
  show ?case
  proof (cases "w \<noteq> [] \<and> prefix w (map f (x # xs))")
    case True
    then have l: "length w \<le> length (x # xs)" using prefix_length_le by fastforce
    have "list_all2 (\<lambda>a b. b = a \<or> b = star) (take (length w) (x # xs)) (replicate (length w) star)"
      using l by (simp add: list_all2_conv_all_nth)
    then have "list_all2 (\<lambda>a b. b = a \<or> b = star)
        (take (length w) (x # xs) @ drop (length w) (x # xs))
        (replicate (length w) star @ mask_all f star w (drop (length w) (x # xs)))"
      using 2(1) [OF True] by (rule list_all2_appendI)
    then have "list_all2 (\<lambda>a b. b = a \<or> b = star) (x # xs)
        (replicate (length w) star @ mask_all f star w (drop (length w) (x # xs)))"
      by (simp only: append_take_drop_id)
    moreover have "w \<noteq> []" "prefix w (map f (x # xs))" using True by auto
    ultimately show ?thesis by (subst mask_all_hit)
  next
    case False
    show ?thesis using 2(2) [OF False] by (simp add: mask_all_miss [OF False])
  qed
qed simp

lemma length_mask_all [simp]: "length (mask_all f star w s) = length s"
  using mask_all_related [of star s f w] by (simp add: list_all2_lengthD)

lemma masked_occurrence:
  assumes rel: "list_all2 (\<lambda>a b. b = a \<or> b = star) s t" and "f star = star" "star \<notin> set u"
    and occ: "prefix u (drop k (map f t))"
  shows "prefix u (drop k (map f s))"
proof -
  have len: "length t = length s" using rel by (simp add: list_all2_lengthD)
  have ul: "length u \<le> length s - k" using prefix_length_le [OF occ] len by simp
  have "u ! j = f (s ! (k + j))" if j: "j < length u" for j
  proof -
    have "u ! j = f (t ! (k + j))"
      using occ j ul len by (auto simp: prefix_def nth_append dest!: arg_cong [where f = "\<lambda>l. l ! j"])
    moreover have "u ! j \<noteq> star" using assms(3) j by (metis nth_mem)
    ultimately have "t ! (k + j) \<noteq> star" using assms(2) by auto
    moreover have "k + j < length s" using j ul by simp
    ultimately have "t ! (k + j) = s ! (k + j)" using rel by (auto simp: list_all2_conv_all_nth)
    then show ?thesis using \<open>u ! j = f (t ! (k + j))\<close> by simp
  qed
  then have "u = take (length u) (drop k (map f s))"
    using ul by (intro nth_equalityI) simp_all
  then show ?thesis by (metis take_is_prefix)
qed

lemma mask_all_clears:
  assumes "w \<noteq> []" "f star = star" "star \<notin> set w"
  shows "\<not> prefix w (drop k (map f (mask_all f star w s)))"
  using assms
proof (induction f star w s arbitrary: k rule: mask_all.induct)
  case (2 f star w x xs)
  show ?case
  proof (cases "w \<noteq> [] \<and> prefix w (map f (x # xs))")
    case occ: True
    then have m: "mask_all f star w (x # xs) =
      replicate (length w) star @ mask_all f star w (drop (length w) (x # xs))"
      by (blast intro: mask_all_hit)
    show ?thesis
    proof (cases "k < length w")
      case True
      then have "drop k (map f (mask_all f star w (x # xs))) =
        star # drop (Suc k) (map f (mask_all f star w (x # xs)))"
        using 2(4) by (subst Cons_nth_drop_Suc [symmetric]) (simp_all add: m nth_append)
      then show ?thesis using 2(3,5) by (cases w) auto
    next
      case False
      then show ?thesis using 2(1) [OF occ 2(3-5), of "k - length w"]
        by (simp add: m)
    qed
  next
    case False
    then have m: "mask_all f star w (x # xs) = x # mask_all f star w xs" by (rule mask_all_miss)
    show ?thesis
    proof (cases k)
      case 0
      have "\<not> prefix w (drop 0 (map f (mask_all f star w (x # xs))))"
        using masked_occurrence [where f = f, OF mask_all_related [of star "x # xs" f w] 2(4,5), of 0]
          False 2(3)
        by auto
      then show ?thesis using 0 by simp
    next
      case (Suc j)
      then show ?thesis using 2(2) [OF False 2(3-5), of j] by (simp add: m)
    qed
  qed
qed simp

subsection \<open>Text whose lower case keeps its bytes in place\<close>

text \<open>
  A chunk is one well-formed UTF-8 sequence: an ASCII byte, or a longer sequence whose rune the
  case table leaves alone. Text made of chunks (ASCII and the scripts without case, such as
  Chinese) is \<open>plain\<close>: lowering it changes the ASCII capitals and nothing else.
\<close>

definition lower_byte :: "nat \<Rightarrow> nat" where
  "lower_byte b = (if 65 \<le> b \<and> b \<le> 90 then b + 32 else b)"

definition rune_len :: "nat \<Rightarrow> nat" where
  "rune_len b = (if b < 128 then 1 else if b < 224 then 2 else if b < 240 then 3 else 4)"

definition plain_chunk :: "(nat \<Rightarrow> nat) \<Rightarrow> nat list \<Rightarrow> bool" where
  "plain_chunk tbl c \<longleftrightarrow>
     c \<noteq> [] \<and> length c = rune_len (hd c) \<and>
     (hd c < 128 \<or> 1 < snd (decode_rune c) \<and> tbl (fst (decode_rune c)) = fst (decode_rune c))"

inductive plain_codes :: "(nat \<Rightarrow> nat) \<Rightarrow> nat list \<Rightarrow> bool" for tbl where
  Nil: "plain_codes tbl []"
| chunk: "plain_chunk tbl c \<Longrightarrow> plain_codes tbl s \<Longrightarrow> plain_codes tbl (c @ s)"

definition plain :: "(nat \<Rightarrow> nat) \<Rightarrow> string \<Rightarrow> bool" where
  "plain tbl s \<longleftrightarrow> plain_codes tbl (string_codes s)"

lemma chunk_cases:
  assumes "plain_chunk tbl c"
  obtains (ascii) b where "c = [b]" "b < 128"
  | (two) x y where "c = [192 + x, 128 + y]" "2 \<le> x" "x < 32" "y < 64" "tbl (x * 64 + y) = x * 64 + y"
  | (three) x y z where "c = [224 + x, 128 + y, 128 + z]" "x < 16" "y < 64" "z < 64"
      "x = 0 \<longrightarrow> 32 \<le> y" "x = 13 \<longrightarrow> y \<le> 31" "tbl (x * 4096 + y * 64 + z) = x * 4096 + y * 64 + z"
  | (four) x y z u where "c = [240 + x, 128 + y, 128 + z, 128 + u]" "x \<le> 4" "y < 64" "z < 64" "u < 64"
      "x = 0 \<longrightarrow> 16 \<le> y" "x = 4 \<longrightarrow> y \<le> 15"
      "tbl (x * 262144 + y * 4096 + z * 64 + u) = x * 262144 + y * 4096 + z * 64 + u"
proof -
  obtain b bs where c: "c = b # bs" using assms by (cases c) (auto simp: plain_chunk_def)
  then consider "bs = []" "b < 128" | b1 where "bs = [b1]" "b \<ge> 128" "b < 224"
    | b1 b2 where "bs = [b1, b2]" "b \<ge> 224" "b < 240" | b1 b2 b3 where "bs = [b1, b2, b3]" "b \<ge> 240"
    using assms by (auto simp: plain_chunk_def rune_len_def length_Suc_conv eval_nat_numeral
        split: if_splits)
  then show ?thesis
  proof cases
    case 1
    then show ?thesis using ascii c by blast
  next
    case 2
    then have "194 \<le> b" "128 \<le> b1" using assms c
      by (auto simp: plain_chunk_def decode_rune.simps(2) split: if_splits)
    then obtain x y where e: "b = 192 + x" "b1 = 128 + y" 
      by (intro that [of "b - 192" "b1 - 128"]) simp_all
    then show ?thesis using two assms c 2
      by (simp add: plain_chunk_def decode_rune.simps(2) split: if_splits)
  next
    case 3
    then have "128 \<le> b1" "128 \<le> b2" using assms c
      by (auto simp: plain_chunk_def decode_rune.simps(2) split: if_splits)
    then obtain x y z where e: "b = 224 + x" "b1 = 128 + y" "b2 = 128 + z"
      using 3 by (intro that [of "b - 224" "b1 - 128" "b2 - 128"]) simp_all
    then show ?thesis using three assms c 3
      by (simp add: plain_chunk_def decode_rune.simps(2) split: if_splits)
  next
    case 4
    then have "128 \<le> b1" "128 \<le> b2" "128 \<le> b3" using assms c
      by (auto simp: plain_chunk_def decode_rune.simps(2) split: if_splits)
    then obtain x y z u where e: "b = 240 + x" "b1 = 128 + y" "b2 = 128 + z" "b3 = 128 + u"
      using 4 by (intro that [of "b - 240" "b1 - 128" "b2 - 128" "b3 - 128"]) simp_all
    then show ?thesis using four assms c 4
      by (simp add: plain_chunk_def decode_rune.simps(2) split: if_splits)
  qed
qed

lemma chunk_shape:
  assumes "plain_chunk tbl c"
  shows "c \<noteq> []" "length c = rune_len (hd c)" "hd c < 128 \<or> 194 \<le> hd c"
    "j < length c \<Longrightarrow> 0 < j \<Longrightarrow> 128 \<le> c ! j \<and> c ! j \<le> 191"
  using assms by (cases rule: chunk_cases; simp add: rune_len_def nth_Cons')+

lemma decode_chunk:
  assumes "plain_chunk tbl c"
  shows "decode_rune (c @ s) = (fst (decode_rune c), length c)"
  using assms by (cases rule: chunk_cases) (auto simp: decode_rune.simps(2))

lemma base64_digits:
  fixes x y z :: nat
  assumes "y < 64" "z < 64"
  shows "(x * 64 + z) div 64 = x" "(x * 64 + z) mod 64 = z"
    "(x * 4096 + y * 64 + z) div 64 = x * 64 + y" "(x * 4096 + y * 64 + z) div 4096 = x"
    "(x * 4096 + y * 64 + z) mod 64 = z"
proof -
  have e: "x * 4096 + y * 64 + z = (x * 64 + y) * 64 + z" by simp
  show "(x * 64 + z) div 64 = x" "(x * 64 + z) mod 64 = z" using assms by simp_all
  show "(x * 4096 + y * 64 + z) div 64 = x * 64 + y" "(x * 4096 + y * 64 + z) mod 64 = z"
    unfolding e using assms by (simp_all only: div_mult_self3 mod_mult_self3) simp_all
  have "y * 64 + z < 4096" using assms by linarith
  then show "(x * 4096 + y * 64 + z) div 4096 = x" by (intro div_nat_eqI) simp_all
qed

lemmas lower_chunk_defs = decode_rune.simps(2) lower_rune_def encode_rune_def lower_byte_def

lemma lower_chunk:
  assumes "plain_chunk tbl c"
  shows "encode_rune (lower_rune tbl (fst (decode_rune c))) = map lower_byte c"
  using assms
proof (cases rule: chunk_cases)
  case (ascii b)
  then show ?thesis by (simp add: lower_chunk_defs)
next
  case (two x y)
  have "128 \<le> x * 64 + y" "x * 64 + y < 2048" using two by linarith+
  then show ?thesis using two base64_digits [OF two(4,4), of x] by (simp add: lower_chunk_defs)
next
  case (three x y z)
  let ?r = "x * 4096 + y * 64 + z"
  have "2048 \<le> ?r" using three(5) by (cases "x = 0") linarith+
  moreover have "?r < 65536" using three by linarith
  moreover have "\<not> (55296 \<le> ?r \<and> ?r \<le> 57343)"
  proof (cases "x = 13")
    case False
    then have "x < 13 \<or> 13 < x" by auto
    then show ?thesis using three by (elim disjE) linarith+
  qed (use three in linarith)
  moreover have "?r div 64 mod 64 = y"
    using base64_digits [OF three(3,4), of x] base64_digits(2) [OF three(3,3)] by simp
  ultimately show ?thesis
    using three base64_digits [OF three(3,4), of x] by (simp add: lower_chunk_defs)
next
  case (four x y z u)
  let ?r = "x * 262144 + y * 4096 + z * 64 + u"
  have e: "?r = (x * 64 + y) * 4096 + z * 64 + u" by simp
  have "65536 \<le> ?r" using four(6) by (cases "x = 0") linarith+
  moreover have "?r \<le> 1114111" using four by (cases "x = 4") linarith+
  moreover have "y * 4096 + z * 64 + u < 262144" using four by linarith
  then have "?r div 262144 = x" by (intro div_nat_eqI) simp_all
  moreover have "?r div 4096 mod 64 = y" "?r div 64 mod 64 = z" "?r mod 64 = u"
    unfolding e using base64_digits [OF four(4,5), of "x * 64 + y"] base64_digits(2) [OF four(3,3), of x]
      base64_digits(2) [OF four(4,4), of "x * 64 + y"] by simp_all
  ultimately show ?thesis using four by (simp add: lower_chunk_defs)
qed

lemma lower_byte_cont: "128 \<le> b \<Longrightarrow> lower_byte b = b"
  by (simp add: lower_byte_def)

lemma rune_len_lower [simp]: "rune_len (lower_byte b) = rune_len b"
  by (simp add: rune_len_def lower_byte_def)

lemma lower_codes_plain: "plain_codes tbl s \<Longrightarrow> lower_codes tbl s = map lower_byte s"
proof (induction rule: plain_codes.induct)
  case (chunk c s)
  obtain b bs where c: "c = b # bs" using chunk_shape(1) [OF chunk(1)] by (cases c) auto
  have "lower_codes tbl (c @ s) =
    encode_rune (lower_rune tbl (fst (decode_rune (c @ s)))) @
    lower_codes tbl (drop (snd (decode_rune (c @ s))) (c @ s))"
    by (simp add: c)
  then show ?case using chunk by (simp add: decode_chunk lower_chunk)
qed simp

lemma plain_head:
  assumes "plain_codes tbl s" "s \<noteq> []"
  obtains c t where "s = c @ t" "plain_chunk tbl c" "plain_codes tbl t"
  using assms by (cases rule: plain_codes.cases) auto

lemma plain_suffix:
  assumes "plain_codes tbl w" "plain_codes tbl s" "prefix w (map lower_byte s)"
  shows "plain_codes tbl (drop (length w) s)"
  using assms
proof (induction arbitrary: s rule: plain_codes.induct)
  case (chunk c w)
  have c: "c \<noteq> []" "length c = rune_len (hd c)" using chunk_shape [OF chunk(1)] by auto
  then have "s \<noteq> []" using chunk.prems(2) by auto
  then obtain d t where s: "s = d @ t" "plain_chunk tbl d" "plain_codes tbl t"
    using plain_head chunk.prems(1) by blast
  have d: "d \<noteq> []" "length d = rune_len (hd d)" using chunk_shape [OF s(2)] by auto
  have "hd c = lower_byte (hd d)"
    using chunk.prems(2) c d s(1) by (cases c; cases d) auto
  then have len: "length c = length d" using c d by simp
  have "prefix (c @ w) (map lower_byte d @ map lower_byte t)" using chunk.prems(2) s(1) by simp
  then have "prefix w (map lower_byte t)" using len by (auto simp: prefix_def)
  then show ?case using chunk.IH s len by simp
qed simp

lemma plain_stars: "plain_codes tbl s \<Longrightarrow> plain_codes tbl (replicate n 42 @ s)"
proof (induction n)
  case (Suc n)
  have "plain_chunk tbl [42]" by (simp add: plain_chunk_def rune_len_def)
  then show ?case using plain_codes.chunk [of tbl "[42]"] Suc by fastforce
qed simp

lemma plain_mask:
  assumes "plain_codes tbl s" "plain_codes tbl w" "w \<noteq> []"
  shows "plain_codes tbl (mask_all lower_byte 42 w s)"
  using assms(1)
proof (induction "length s" arbitrary: s rule: less_induct)
  case less
  show ?case
  proof (cases "prefix w (map lower_byte s)")
    case True
    then have "length (drop (length w) s) < length s"
      using assms(3) prefix_length_le [OF True] by (cases w) auto
    then show ?thesis
      using less(1) plain_suffix [OF assms(2) less(2) True]
      by (simp add: mask_all_hit [OF assms(3) True] plain_stars)
  next
    case False
    show ?thesis
    proof (cases "s = []")
      case True
      then show ?thesis by (simp add: plain_codes.Nil)
    next
      case nonempty: False
      then obtain d t where s: "s = d @ t" "plain_chunk tbl d" "plain_codes tbl t"
        using plain_head less(2) by blast
      have hw: "hd w < 128 \<or> 194 \<le> hd w"
        using plain_head [OF assms(2,3)] chunk_shape(1,3) by (metis hd_append2)
      have "\<not> prefix w (map lower_byte (drop j s))" if j: "j < length d" for j
      proof (cases "j = 0")
        case True
        then show ?thesis using False by simp
      next
        case pos: False
        have dj: "128 \<le> d ! j" "d ! j \<le> 191" using chunk_shape(4) [OF s(2) j] pos by auto
        have "drop j s = d ! j # drop (Suc j) s"
          using j s(1) by (metis Cons_nth_drop_Suc nth_append length_append trans_less_add1)
        then show ?thesis using hw dj assms(3) by (cases w) (auto simp: lower_byte_cont)
      qed
      then have "mask_all lower_byte 42 w s = d @ mask_all lower_byte 42 w t"
        using mask_all_skip [OF assms(3), of "length d" lower_byte s 42] s(1) by simp
      moreover have "length t < length s" using s(1) chunk_shape(1) [OF s(2)] by simp
      ultimately show ?thesis using less(1) s plain_codes.chunk by metis
    qed
  qed
qed

subsection \<open>Characters\<close>

definition low_char :: "char \<Rightarrow> char" where
  "low_char c = char_of (lower_byte (of_char c))"

lemma of_char_low_char: "of_char (low_char c) = lower_byte (of_char c)"
proof -
  have "of_char c < (256::nat)" by simp
  then have "lower_byte (of_char c) < 256" by (simp add: lower_byte_def)
  then show ?thesis by (simp add: low_char_def)
qed

lemma low_char_star [simp]: "low_char CHR ''*'' = CHR ''*''"
  by code_simp

lemma low_char_idem [simp]: "low_char (low_char c) = low_char c"
  unfolding low_char_def [of "low_char c"] of_char_low_char
  by (simp add: low_char_def) (simp add: lower_byte_def)

lemma string_codes_low: "string_codes (map low_char s) = map lower_byte (string_codes s)"
  by (simp add: string_codes_def of_char_low_char)

lemma ToLower_plain: "plain tbl s \<Longrightarrow> ToLower tbl s = map low_char s"
  by (simp add: plain_def ToLower_def lower_codes_plain string_codes_def low_char_def)

lemma prefix_map_inj: "inj h \<Longrightarrow> prefix (map h u) (map h s) \<longleftrightarrow> prefix u s"
  by (metis (no_types, lifting) append_eq_map_conv inj_map_eq_map map_append prefix_def)

lemma mask_all_map:
  assumes "inj h" "\<And>c. h (f c) = g (h c)"
  shows "map h (mask_all f star w s) = mask_all g (h star) (map h w) (map h s)"
  using assms
proof (induction f star w s rule: mask_all.induct)
  case (2 f star w x xs)
  have e: "map g (map h l) = map h (map f l)" for l using 2(4) by simp
  show ?case
  proof (cases "w \<noteq> [] \<and> prefix w (map f (x # xs))")
    case True
    then have "map h w \<noteq> []" "prefix (map h w) (map g (map h (x # xs)))"
      unfolding e prefix_map_inj [OF 2(3)] by auto
    note hit = mask_all_hit [OF this, of "h star"]
    have "mask_all f star w (x # xs) =
        replicate (length w) star @ mask_all f star w (drop (length w) (x # xs))"
      using True by (blast intro: mask_all_hit)
    then show ?thesis
      using hit 2(1) [OF True 2(3,4)] by (simp only: map_append map_replicate length_map drop_map)
  next
    case False
    then have "\<not> (map h w \<noteq> [] \<and> prefix (map h w) (map g (map h (x # xs))))"
      unfolding e prefix_map_inj [OF 2(3)] by auto
    then have "mask_all g (h star) (map h w) (map h (x # xs)) =
        h x # mask_all g (h star) (map h w) (map h xs)"
      using mask_all_miss [of "map h w" g "h x" "map h xs" "h star"] by simp
    then show ?thesis using 2(2) [OF False 2(3,4)] by (simp add: mask_all_miss [OF False])
  qed
qed simp

lemma plain_codes_low: "plain_codes tbl s \<Longrightarrow> plain_codes tbl (map lower_byte s)"
proof (induction rule: plain_codes.induct)
  case (chunk c s)
  have "plain_chunk tbl (map lower_byte c)"
    using chunk(1)
  proof (cases rule: chunk_cases)
    case (ascii b)
    then show ?thesis by (simp add: plain_chunk_def rune_len_def lower_byte_def)
  qed (use chunk(1) in \<open>simp_all add: lower_byte_cont\<close>)
  then show ?case using chunk by (simp add: plain_codes.chunk)
qed (simp add: plain_codes.Nil)

lemma plain_low: "plain tbl s \<Longrightarrow> plain tbl (map low_char s)"
  by (simp only: plain_def string_codes_low plain_codes_low)

lemma plain_mask_string:
  assumes "plain tbl s" "plain tbl w" "w \<noteq> []"
  shows "plain tbl (mask_all low_char CHR ''*'' w s)"
proof -
  have "inj (of_char :: char \<Rightarrow> nat)" by (rule inj_of_char)
  then have "string_codes (mask_all low_char CHR ''*'' w s) =
    mask_all lower_byte 42 (string_codes w) (string_codes s)"
    unfolding string_codes_def
    using mask_all_map [of "of_char :: char \<Rightarrow> nat" low_char lower_byte "CHR ''*''" w s]
    by (simp add: of_char_low_char)
  then show ?thesis
    using plain_mask [of tbl "string_codes s" "string_codes w"] assms
    by (simp add: plain_def string_codes_def)
qed

lemma low_char_eq_star: "low_char c = CHR ''*'' \<longleftrightarrow> c = CHR ''*''"
proof
  assume "low_char c = CHR ''*''"
  then have "lower_byte (of_char c) = 42" using of_char_low_char [of c] by simp
  then have "of_char c = (of_char CHR ''*'' :: nat)" by (simp add: lower_byte_def split: if_splits)
  then show "c = CHR ''*''" by (simp only: of_char_eq_iff)
qed simp

end
