(* ===== verification/Content_Filter.thy ===== *)
theory Content_Filter
  imports Go_Strings
begin

text \<open>
  The content filter of \<open>internal/service/filter.go\<close>. A slice expression out of range is
  \<open>Panic\<close>; the loop of \<open>replaceIgnoreCase\<close> may run forever, so its value is an option and
  \<open>None\<close> stands for a loop that never returns.
\<close>

subsection \<open>The filter\<close>

record filter_result =
  Pass :: bool
  Reason :: string
  Replace :: string

text \<open>The loop of \<open>replaceIgnoreCase\<close>; \<open>n\<close> is \<open>len(old)\<close>.\<close>

partial_function (option) replace_loop ::
  "'a list \<Rightarrow> 'a list \<Rightarrow> 'a list \<Rightarrow> nat \<Rightarrow> 'a list \<Rightarrow> nat \<Rightarrow> 'a list \<Rightarrow> 'a list go option" where
  [code]: "replace_loop s lower lowerOld n replacement i result =
     (if i < length s then
        if i > length lower then Some Panic
        else case Index (drop i lower) lowerOld of
          None \<Rightarrow> Some (Ret (result @ drop i s))
        | Some idx \<Rightarrow>
            if i + idx > length s then Some Panic
            else replace_loop s lower lowerOld n replacement (i + (idx + n))
                   (result @ take idx (drop i s) @ replacement)
      else Some (Ret result))"

definition replaceIgnoreCase :: "(nat \<Rightarrow> nat) \<Rightarrow> string \<Rightarrow> string \<Rightarrow> string \<Rightarrow> string go option" where
  "replaceIgnoreCase tbl s old replacement =
     replace_loop s (ToLower tbl s) (ToLower tbl old) (length old) replacement 0 []"

definition NewDirtyWordFilter :: "(nat \<Rightarrow> nat) \<Rightarrow> string list \<Rightarrow> string list" where
  "NewDirtyWordFilter tbl ws = map (ToLower tbl) ws"

fun dirty_loop :: "(nat \<Rightarrow> nat) \<Rightarrow> string list \<Rightarrow> string \<Rightarrow> string \<Rightarrow> string go option" where
  "dirty_loop tbl [] lowerContent replaced = Some (Ret replaced)"
| "dirty_loop tbl (word # ws) lowerContent replaced =
     (if Contains lowerContent word then
        (case replaceIgnoreCase tbl replaced word (replicate (length word) CHR ''*'') of
           None \<Rightarrow> None
         | Some Panic \<Rightarrow> Some Panic
         | Some (Ret r) \<Rightarrow> dirty_loop tbl ws (ToLower tbl r) r)
      else dirty_loop tbl ws lowerContent replaced)"

definition DirtyWordFilter_Check ::
  "(nat \<Rightarrow> nat) \<Rightarrow> string list \<Rightarrow> int \<Rightarrow> string \<Rightarrow> filter_result go option" where
  "DirtyWordFilter_Check tbl ws uid content =
     (case dirty_loop tbl ws (ToLower tbl content) content of
        None \<Rightarrow> None
      | Some Panic \<Rightarrow> Some Panic
      | Some (Ret replaced) \<Rightarrow> Some (Ret \<lparr>Pass = True, Reason = [], Replace = replaced\<rparr>))"

fun FilterChain_Check ::
  "(int \<Rightarrow> string \<Rightarrow> filter_result go option) list \<Rightarrow> int \<Rightarrow> string \<Rightarrow> filter_result go option" where
  "FilterChain_Check [] uid content = Some (Ret \<lparr>Pass = True, Reason = [], Replace = content\<rparr>)"
| "FilterChain_Check (f # fs) uid content =
     (case f uid content of
        None \<Rightarrow> None
      | Some Panic \<Rightarrow> Some Panic
      | Some (Ret result) \<Rightarrow>
          if \<not> Pass result then Some (Ret result)
          else FilterChain_Check fs uid (if Replace result \<noteq> [] then Replace result else content))"

subsection \<open>The filter on plain text\<close>

lemma replace_loop_mask:
  assumes "w \<noteq> []" "i \<le> length s"
  shows "replace_loop s (map f s) w (length w) (replicate (length w) star) i acc =
    Some (Ret (acc @ mask_all f star w (drop i s)))"
  using assms(2)
proof (induction "length s - i" arbitrary: i acc rule: less_induct)
  case less
  show ?case
  proof (cases "i < length s")
    case False
    then show ?thesis by (simp add: replace_loop.simps)
  next
    case True
    show ?thesis
    proof (cases "Index (map f (drop i s)) w")
      case None
      then have n: "\<not> prefix w (map f (drop j (drop i s)))" if "j < length (drop i s)" for j
        using that by (auto simp: Index_None drop_map)
      have "mask_all f star w (drop i s) = drop i s"
        using mask_all_skip [OF assms(1) n order_refl, of star] by simp
      then show ?thesis using True None by (simp add: replace_loop.simps drop_map)
    next
      case (Some idx)
      let ?t = "drop (i + idx) s"
      have p: "idx \<le> length s - i" "prefix w (map f ?t)"
        using Index_Some [OF Some] by (simp_all add: drop_map add.commute)
      have l: "length w \<le> length s - (i + idx)" using prefix_length_le [OF p(2)] by simp
      have n: "\<not> prefix w (map f (drop j (drop i s)))" if "j < idx" for j
        using Index_first [OF Some that] by (simp add: drop_map)
      have "mask_all f star w (drop i s) = take idx (drop i s) @ mask_all f star w ?t"
        using mask_all_skip [OF assms(1) n, of idx star] p(1) by (simp add: add.commute)
      also have "mask_all f star w ?t =
          replicate (length w) star @ mask_all f star w (drop (i + (idx + length w)) s)"
        by (simp only: mask_all_hit [OF assms(1) p(2)] drop_drop ac_simps)
      finally have m: "mask_all f star w (drop i s) = take idx (drop i s) @
          replicate (length w) star @ mask_all f star w (drop (i + (idx + length w)) s)" .
      have "length w > 0" using assms(1) by simp
      then have "length s - (i + (idx + length w)) < length s - i" using True by linarith
      then have "replace_loop s (map f s) w (length w) (replicate (length w) star) (i + (idx + length w)) a =
          Some (Ret (a @ mask_all f star w (drop (i + (idx + length w)) s)))" for a
        using True l p(1) by (intro less(1)) auto
      then show ?thesis
        using True p(1) by (subst replace_loop.simps) (simp add: Some drop_map m)
    qed
  qed
qed

definition word_ok :: "(nat \<Rightarrow> nat) \<Rightarrow> string \<Rightarrow> bool" where
  "word_ok tbl w \<longleftrightarrow> plain tbl w \<and> w \<noteq> [] \<and> CHR ''*'' \<notin> set w"

definition masks :: "string \<Rightarrow> string \<Rightarrow> bool" where
  "masks s t \<longleftrightarrow> list_all2 (\<lambda>a b. b = a \<or> b = CHR ''*'') s t"

lemma masks_trans: "masks s t \<Longrightarrow> masks t u \<Longrightarrow> masks s u"
  unfolding masks_def by (rule list_all2_trans) auto

lemma masks_refl: "masks s s"
  by (simp add: masks_def list_all2_refl)

lemma replaceIgnoreCase_plain:
  assumes "plain tbl s" "word_ok tbl w"
  shows "replaceIgnoreCase tbl s (map low_char w) (replicate (length w) CHR ''*'') =
    Some (Ret (mask_all low_char CHR ''*'' (map low_char w) s))"
  using assms replace_loop_mask [of "map low_char w" 0 s low_char "CHR ''*''" "[]"]
  by (simp add: replaceIgnoreCase_def ToLower_plain plain_low word_ok_def comp_def)

definition occurs :: "string \<Rightarrow> string \<Rightarrow> bool" where
  "occurs w s \<longleftrightarrow> (\<exists>k \<le> length s. prefix (map low_char w) (drop k (map low_char s)))"

lemma occurs_masked:
  assumes "masks s t" "CHR ''*'' \<notin> set (map low_char w)" "occurs w t"
  shows "occurs w s"
  using assms masked_occurrence [of "CHR ''*''" s t low_char "map low_char w"]
  by (auto simp: occurs_def masks_def list_all2_lengthD)

lemma dirty_loop_plain:
  assumes "plain tbl s" "\<forall>w \<in> set ws. word_ok tbl w"
  shows "\<exists>r. dirty_loop tbl (map (map low_char) ws) (map low_char s) s = Some (Ret r) \<and>
    plain tbl r \<and> masks s r \<and> (\<forall>w \<in> set ws. \<not> occurs w r) \<and>
    ((\<forall>w \<in> set ws. \<not> occurs w s) \<longrightarrow> r = s)"
  using assms
proof (induction ws arbitrary: s)
  case Nil
  then show ?case by (simp add: masks_refl)
next
  case (Cons w ws)
  have w: "word_ok tbl w" "plain tbl (map low_char w)" "map low_char w \<noteq> []"
    "CHR ''*'' \<notin> set (map low_char w)"
    using Cons.prems(2) by (auto simp: word_ok_def plain_low low_char_eq_star dest!: sym [of "CHR ''*''"])
  show ?case
  proof (cases "occurs w s")
    case False
    then have "\<not> Contains (map low_char s) (map low_char w)" by (simp add: Contains_iff occurs_def)
    moreover obtain r where r: "dirty_loop tbl (map (map low_char) ws) (map low_char s) s = Some (Ret r)"
      "plain tbl r" "masks s r" "\<forall>w \<in> set ws. \<not> occurs w r" "(\<forall>w \<in> set ws. \<not> occurs w s) \<longrightarrow> r = s"
      using Cons.IH [OF Cons.prems(1)] Cons.prems(2) by auto
    moreover have "\<not> occurs w r" using False occurs_masked [OF r(3) w(4)] by blast
    ultimately show ?thesis by auto
  next
    case True
    then have "Contains (map low_char s) (map low_char w)" by (simp add: Contains_iff occurs_def)
    moreover define t where "t = mask_all low_char CHR ''*'' (map low_char w) s"
    moreover have "replaceIgnoreCase tbl s (map low_char w) (replicate (length w) CHR ''*'') = Some (Ret t)"
      unfolding t_def by (rule replaceIgnoreCase_plain [OF Cons.prems(1) w(1)])
    moreover have t: "plain tbl t" "masks s t"
      unfolding t_def masks_def
      using plain_mask_string [OF Cons.prems(1) w(2,3)] mask_all_related [of "CHR ''*''" s low_char] by auto
    moreover obtain r where r: "dirty_loop tbl (map (map low_char) ws) (map low_char t) t = Some (Ret r)"
      "plain tbl r" "masks t r" "\<forall>w \<in> set ws. \<not> occurs w r"
      using Cons.IH [OF t(1)] Cons.prems(2) by auto
    moreover have "\<not> occurs w t"
      using mask_all_clears [where f = low_char, OF w(3) low_char_star w(4)] by (simp add: occurs_def t_def)
    then have "\<not> occurs w r" using occurs_masked [OF r(3) w(4)] by blast
    ultimately show ?thesis using True by (simp add: ToLower_plain masks_trans [OF t(2) r(3)])
  qed
qed

subsection \<open>The interface ContentFilter\<close>

text \<open>
  What the chain needs of a filter: on its domain a check returns, and a passing check that
  rewrites the content stays in the domain and only masks.
\<close>

locale content_filter =
  fixes check :: "int \<Rightarrow> string \<Rightarrow> filter_result go option" and dom_ok :: "string \<Rightarrow> bool"
  assumes returns: "dom_ok content \<Longrightarrow> \<exists>r. check uid content = Some (Ret r)"
    and only_masks: "dom_ok content \<Longrightarrow> check uid content = Some (Ret r) \<Longrightarrow> Pass r \<Longrightarrow> Replace r \<noteq> [] \<Longrightarrow>
      dom_ok (Replace r) \<and> masks content (Replace r)"
begin

lemma then_chain:
  assumes "dom_ok content"
    and rest: "\<And>c. dom_ok c \<Longrightarrow> \<exists>r. FilterChain_Check fs uid c = Some (Ret r) \<and> (Pass r \<longrightarrow> masks c (Replace r))"
  shows "\<exists>r. FilterChain_Check (check # fs) uid content = Some (Ret r) \<and> (Pass r \<longrightarrow> masks content (Replace r))"
proof -
  obtain r where r: "check uid content = Some (Ret r)" using returns assms(1) by blast
  show ?thesis
  proof (cases "Pass r \<and> Replace r \<noteq> []")
    case True
    then have "dom_ok (Replace r)" "masks content (Replace r)" using only_masks assms(1) r by auto
    then show ?thesis using rest [of "Replace r"] True r masks_trans by fastforce
  qed (use r rest [OF assms(1)] in auto)
qed

lemma chain_of_copies:
  "dom_ok content \<Longrightarrow>
     \<exists>r. FilterChain_Check (replicate n check) uid content = Some (Ret r) \<and> (Pass r \<longrightarrow> masks content (Replace r))"
  by (induction n arbitrary: content) (simp_all add: masks_refl then_chain del: FilterChain_Check.simps(2))

end

definition words_ok :: "(nat \<Rightarrow> nat) \<Rightarrow> string list \<Rightarrow> bool" where
  "words_ok tbl ws \<longleftrightarrow> (\<forall>w \<in> set ws. word_ok tbl w)"

lemma DirtyWordFilter_plain:
  assumes "plain tbl content" "words_ok tbl ws"
  shows "\<exists>r. DirtyWordFilter_Check tbl (NewDirtyWordFilter tbl ws) uid content =
      Some (Ret \<lparr>Pass = True, Reason = [], Replace = r\<rparr>) \<and>
    plain tbl r \<and> masks content r \<and> (\<forall>w \<in> set ws. \<not> occurs w r) \<and>
    ((\<forall>w \<in> set ws. \<not> occurs w content) \<longrightarrow> r = content)"
proof -
  have "NewDirtyWordFilter tbl ws = map (map low_char) ws"
    using assms(2) by (auto simp: NewDirtyWordFilter_def words_ok_def word_ok_def ToLower_plain)
  then show ?thesis
    using dirty_loop_plain [OF assms(1), of ws] assms
    by (auto simp: DirtyWordFilter_Check_def ToLower_plain words_ok_def)
qed

interpretation dirty_words: content_filter
  "DirtyWordFilter_Check tbl (NewDirtyWordFilter tbl ws)" "\<lambda>s. words_ok tbl ws \<and> plain tbl s" for tbl ws
proof
  fix content uid
  assume "words_ok tbl ws \<and> plain tbl content"
  then show "\<exists>r. DirtyWordFilter_Check tbl (NewDirtyWordFilter tbl ws) uid content = Some (Ret r)"
    using DirtyWordFilter_plain by blast
next
  fix content uid r
  assume "words_ok tbl ws \<and> plain tbl content"
    "DirtyWordFilter_Check tbl (NewDirtyWordFilter tbl ws) uid content = Some (Ret r)"
  then show "(words_ok tbl ws \<and> plain tbl (Replace r)) \<and> masks content (Replace r)"
    using DirtyWordFilter_plain [of tbl content ws uid] by auto
qed

subsection \<open>Properties\<close>

lemma chain_masks_words:
  assumes "plain tbl content" "\<forall>w \<in> set ws. word_ok tbl w"
  shows "\<exists>r. FilterChain_Check [DirtyWordFilter_Check tbl (NewDirtyWordFilter tbl ws)] uid content =
      Some (Ret \<lparr>Pass = True, Reason = [], Replace = r\<rparr>) \<and>
    length r = length content \<and> (\<forall>i < length r. r ! i = content ! i \<or> r ! i = CHR ''*'') \<and>
    (\<forall>w \<in> set ws. \<not> Contains (ToLower tbl r) (ToLower tbl w)) \<and>
    ((\<forall>w \<in> set ws. \<not> Contains (ToLower tbl content) (ToLower tbl w)) \<longrightarrow> r = content)"
proof -
  obtain r where r: "DirtyWordFilter_Check tbl (NewDirtyWordFilter tbl ws) uid content =
      Some (Ret \<lparr>Pass = True, Reason = [], Replace = r\<rparr>)"
    "plain tbl r" "masks content r" "\<forall>w \<in> set ws. \<not> occurs w r"
    "(\<forall>w \<in> set ws. \<not> occurs w content) \<longrightarrow> r = content"
    using DirtyWordFilter_plain [of tbl content ws uid] assms by (auto simp: words_ok_def)
  have len: "length r = length content" using r(3) by (simp add: masks_def list_all2_lengthD)
  have occ: "Contains (ToLower tbl s) (ToLower tbl w) \<longleftrightarrow> occurs w s" if "plain tbl s" "w \<in> set ws" for s w
    using that assms(2) by (simp add: Contains_iff occurs_def ToLower_plain word_ok_def)
  have "FilterChain_Check [DirtyWordFilter_Check tbl (NewDirtyWordFilter tbl ws)] uid content =
      Some (Ret \<lparr>Pass = True, Reason = [], Replace = r\<rparr>)"
    using r(1) len by auto
  moreover have "\<forall>i < length r. r ! i = content ! i \<or> r ! i = CHR ''*''"
    using r(3) by (auto simp: masks_def list_all2_conv_all_nth)
  ultimately show ?thesis using len r(4,5) occ [OF r(2)] occ [OF assms(1)] by auto
qed

text \<open>
  C20: the dirty-word filter, run through the filter chain as the server configures it, on text
  whose lower case keeps every byte in place (ASCII and scripts without case), with words that are
  such text, not empty and without asterisks. The chain returns and passes; the result is the
  content with some bytes replaced by asterisks; no forbidden word occurs in it in any
  capitalisation; and content without a forbidden word is returned unchanged.
\<close>

theorem filter_masks_words:
  assumes "plain tbl content" "\<forall>w \<in> set ws. word_ok tbl w"
  shows "\<exists>r. FilterChain_Check [DirtyWordFilter_Check tbl (NewDirtyWordFilter tbl ws)] uid content =
      Some (Ret \<lparr>Pass = True, Reason = [], Replace = r\<rparr>) \<and>
    length r = length content \<and> (\<forall>i < length r. r ! i = content ! i \<or> r ! i = CHR ''*'') \<and>
    (\<forall>w \<in> set ws. \<not> Contains (ToLower tbl r) (ToLower tbl w)) \<and>
    ((\<forall>w \<in> set ws. \<not> Contains (ToLower tbl content) (ToLower tbl w)) \<longrightarrow> r = content)"
  using assms by (rule chain_masks_words)

lemma plain_ascii: "list_all (\<lambda>c. of_char c < (128::nat)) s \<Longrightarrow> plain tbl s"
proof (induction s)
  case (Cons c s)
  have "plain_chunk tbl [of_char c]" using Cons.prems by (simp add: plain_chunk_def rune_len_def)
  then show ?case
    using Cons plain_codes.chunk [of tbl "[of_char c]" "string_codes s"]
    by (simp add: plain_def string_codes_def)
qed (simp add: plain_def string_codes_def plain_codes.Nil)

theorem filter_masks_words_witness:
  "\<exists>r. FilterChain_Check [DirtyWordFilter_Check id (NewDirtyWordFilter id [''Bad''])] 5 ''a BAD day'' =
      Some (Ret \<lparr>Pass = True, Reason = [], Replace = r\<rparr>) \<and> length r = 9 \<and>
      \<not> Contains (ToLower id r) ''bad''"
proof -
  have "plain id ''a BAD day''" "plain id ''Bad''" by (rule plain_ascii, simp)+
  moreover from this(2) have "\<forall>w \<in> set [''Bad'']. word_ok id w" by (simp add: word_ok_def)
  moreover have "ToLower id ''Bad'' = ''bad''" by code_simp
  ultimately show ?thesis using filter_masks_words [of id "''a BAD day''" "[''Bad'']" 5] by auto
qed

subsection \<open>Outside that domain\<close>

text \<open>
  The two indices of \<open>replaceIgnoreCase\<close> run over different strings, the content and its lower
  case. When lowering lengthens the text (U+023A takes two bytes, its lower case U+2C65 three) an
  index of the second is out of range in the first, and the slice expression panics.
\<close>

lemma ToLowerI: "lower_codes tbl (string_codes s) = string_codes l \<Longrightarrow> ToLower tbl s = l"
  by (simp add: ToLower_def string_codes_def comp_def)

lemma filter_panics:
  assumes "tbl 570 = 11365"
  shows "DirtyWordFilter_Check tbl (NewDirtyWordFilter tbl [''bad'']) uid
     (concat (replicate 4 [CHR 0xC8, CHR 0xBA]) @ ''bad'') = Some Panic"
proof -
  let ?s = "[CHR 0xC8, CHR 0xBA, CHR 0xC8, CHR 0xBA, CHR 0xC8, CHR 0xBA, CHR 0xC8, CHR 0xBA,
             CHR ''b'', CHR ''a'', CHR ''d'']"
  let ?l = "[CHR 0xE2, CHR 0xB1, CHR 0xA5, CHR 0xE2, CHR 0xB1, CHR 0xA5, CHR 0xE2, CHR 0xB1, CHR 0xA5,
             CHR 0xE2, CHR 0xB1, CHR 0xA5, CHR ''b'', CHR ''a'', CHR ''d'']"
  have s: "concat (replicate 4 [CHR 0xC8, CHR 0xBA]) @ ''bad'' = ?s" by (simp add: eval_nat_numeral)
  have "lower_codes tbl (string_codes ?s) = string_codes ?l"
    using assms by (simp add: string_codes_def lower_chunk_defs)
  then have l: "ToLower tbl ?s = ?l" by (rule ToLowerI)
  have "lower_codes tbl (string_codes ''bad'') = string_codes ''bad''"
    by (simp add: string_codes_def lower_chunk_defs)
  then have b: "ToLower tbl ''bad'' = ''bad''" by (rule ToLowerI)
  have i: "Index ?l ''bad'' = Some 12" by (simp add: Index_simps)
  then have "replaceIgnoreCase tbl ?s ''bad'' ''***'' = Some Panic"
    by (simp add: replaceIgnoreCase_def l b replace_loop.simps)
  then show ?thesis
    using i unfolding s by (simp add: DirtyWordFilter_Check_def NewDirtyWordFilter_def l b Contains_def)
qed

text \<open>An empty forbidden word makes the loop run forever on every non-empty content.\<close>

lemma replace_loop_empty:
  assumes "replace_loop s lower old n rep i acc = Some y"
  shows "old = [] \<longrightarrow> n = 0 \<longrightarrow> i < length s \<longrightarrow> i \<le> length lower \<longrightarrow> False"
proof (rule replace_loop.raw_induct [where P = "\<lambda>s lower old n rep i acc y.
      old = [] \<longrightarrow> n = 0 \<longrightarrow> i < length s \<longrightarrow> i \<le> length lower \<longrightarrow> False", OF _ assms])
  fix loop :: "'a list \<Rightarrow> 'a list \<Rightarrow> 'a list \<Rightarrow> nat \<Rightarrow> 'a list \<Rightarrow> nat \<Rightarrow> 'a list \<Rightarrow> 'a list go option"
    and s lower old rep acc :: "'a list" and n i y
  assume IH: "\<And>s lower old n rep i acc y. loop s lower old n rep i acc = Some y \<Longrightarrow>
      old = [] \<longrightarrow> n = 0 \<longrightarrow> i < length s \<longrightarrow> i \<le> length lower \<longrightarrow> False"
    and step: "(if i < length s then if length lower < i then Some Panic
        else case Index (drop i lower) old of None \<Rightarrow> Some (Ret (acc @ drop i s))
          | Some idx \<Rightarrow> if length s < i + idx then Some Panic
              else loop s lower old n rep (i + (idx + n)) (acc @ take idx (drop i s) @ rep)
        else Some (Ret acc)) = Some y"
  have "Index (drop i lower) [] = Some 0" by (cases "drop i lower") (simp_all add: Index_simps)
  then show "old = [] \<longrightarrow> n = 0 \<longrightarrow> i < length s \<longrightarrow> i \<le> length lower \<longrightarrow> False"
    using step IH by (cases "old = [] \<and> n = 0 \<and> i < length s \<and> i \<le> length lower") auto
qed

lemma filter_diverges: "s \<noteq> [] \<Longrightarrow> replaceIgnoreCase tbl s [] rep = None"
  using replace_loop_empty [of s "ToLower tbl s" "ToLower tbl []" 0 rep 0 "[]"]
  by (cases "replaceIgnoreCase tbl s [] rep")
    (auto simp: replaceIgnoreCase_def ToLower_def string_codes_def)

end
