(* ===== verification/Redis_Client.thy ===== *)
theory Redis_Client
  imports Go_Lib Errs "HOL-Library.AList"
begin

text \<open>
  The Redis server and its Go client are not part of the repository. The store takes the round trip
  of one command as a parameter \<open>rd\<close>: at a time (in milliseconds) and in a server state of any type,
  a command gives a reply and a new state. What the code relies on is the hypothesis \<open>redis_doc\<close>:
  a reply is an error, and then the command was carried out or not at all, or it is the documented
  one and the keyspace changes as documented. \<open>redis_cmd_doc\<close> writes that documentation down for the
  commands the repository uses.
\<close>

datatype redis_cmd =
    GET string
  | SET string string int
  | INCR string
  | INCRBY string int
  | EXPIRE string int
  | DEL string
  | HSET string "(string \<times> string) list"
  | HGETALL string
  | SADD string string
  | SREM string string
  | SMEMBERS string
  | LPUSH string string
  | LTRIM string int int
  | LRANGE string int int

datatype redis_reply =
    RNil
  | ROK
  | RInt int
  | RBulk string
  | RList "string list"
  | RSet "string list"
  | RHash "(string \<times> string) list"
  | RErr string

datatype redis_val =
    VStr string
  | VHash "(string \<times> string) list"
  | VSet "string list"
  | VList "string list"

type_synonym redis_db = "string \<rightharpoonup> redis_val \<times> int option"
type_synonym 'r redis = "int \<Rightarrow> redis_cmd \<Rightarrow> 'r \<Rightarrow> redis_reply \<times> 'r"

text \<open>A key is gone once the clock has passed its expiry time.\<close>

definition live :: "int \<Rightarrow> redis_db \<Rightarrow> redis_db" where
  "live now db k =
     (case db k of
        Some (v, Some e) \<Rightarrow> if now \<le> e then Some (v, Some e) else None
      | x \<Rightarrow> x)"

definition wrongtype :: redis_reply where
  "wrongtype = RErr ''WRONGTYPE Operation against a key holding the wrong kind of value''"

definition notint :: redis_reply where
  "notint = RErr ''ERR value is not an integer or out of range''"

text \<open>The client sends \<open>EXPIRE\<close> in whole seconds and rounds a shorter positive time up to one.\<close>

definition ttl_secs :: "int \<Rightarrow> int" where
  "ttl_secs ttl = (if 0 < ttl \<and> ttl < 1000 then 1000 else ttl div 1000 * 1000)"

text \<open>The elements between two indices as \<open>LRANGE\<close> and \<open>LTRIM\<close> count them.\<close>

definition list_range :: "int \<Rightarrow> int \<Rightarrow> 'a list \<Rightarrow> 'a list" where
  "list_range a b xs =
     (let n = int (length xs);
          i = (if a < 0 then max 0 (n + a) else a);
          j = (if b < 0 then n + b else b)
      in if i > j then [] else take (nat (j - i + 1)) (drop (nat i) xs))"

definition hset_all :: "(string \<times> string) list \<Rightarrow> (string \<times> string) list \<Rightarrow> (string \<times> string) list" where
  "hset_all fvs h = fold (\<lambda>(f, v). AList.update f v) fvs h"

definition incr_doc :: "int \<Rightarrow> string \<Rightarrow> int \<Rightarrow> redis_db \<Rightarrow> redis_reply \<times> redis_db" where
  "incr_doc now k n db =
     (case live now db k of
        None \<Rightarrow> (RInt n, db(k \<mapsto> (VStr (Sprintf_d n), None)))
      | Some (VStr s, e) \<Rightarrow>
          (case ParseInt s of
             None \<Rightarrow> (notint, db)
           | Some i \<Rightarrow>
               if in_int64 (i + n) then (RInt (i + n), db(k \<mapsto> (VStr (Sprintf_d (i + n)), e)))
               else (notint, db))
      | Some _ \<Rightarrow> (wrongtype, db))"

definition set_key :: "string \<Rightarrow> redis_val \<Rightarrow> bool \<Rightarrow> int option \<Rightarrow> redis_db \<Rightarrow> redis_db" where
  "set_key k v is_empty e db = db(k := if is_empty then None else Some (v, e))"

fun redis_cmd_doc :: "int \<Rightarrow> redis_cmd \<Rightarrow> redis_db \<Rightarrow> redis_reply \<times> redis_db" where
  "redis_cmd_doc now (GET k) db =
     (case live now db k of
        None \<Rightarrow> (RNil, db) | Some (VStr s, _) \<Rightarrow> (RBulk s, db) | Some _ \<Rightarrow> (wrongtype, db))"
| "redis_cmd_doc now (SET k v ttl) db =
     (ROK, db(k \<mapsto> (VStr v, if ttl > 0 then Some (now + ttl) else None)))"
| "redis_cmd_doc now (INCR k) db = incr_doc now k 1 db"
| "redis_cmd_doc now (INCRBY k n) db = incr_doc now k n db"
| "redis_cmd_doc now (EXPIRE k ttl) db =
     (case live now db k of
        None \<Rightarrow> (RInt 0, db)
      | Some (v, _) \<Rightarrow>
          (RInt 1, if ttl \<le> 0 then db(k := None) else db(k \<mapsto> (v, Some (now + ttl_secs ttl)))))"
| "redis_cmd_doc now (DEL k) db = (RInt (if live now db k = None then 0 else 1), db(k := None))"
| "redis_cmd_doc now (HSET k fvs) db =
     (case live now db k of
        None \<Rightarrow> (RInt (int (length fvs)), db(k \<mapsto> (VHash (hset_all fvs []), None)))
      | Some (VHash h, e) \<Rightarrow>
          (RInt (int (length (filter (\<lambda>(f, _). map_of h f = None) fvs))),
           db(k \<mapsto> (VHash (hset_all fvs h), e)))
      | Some _ \<Rightarrow> (wrongtype, db))"
| "redis_cmd_doc now (HGETALL k) db =
     (case live now db k of
        None \<Rightarrow> (RHash [], db) | Some (VHash h, _) \<Rightarrow> (RHash h, db) | Some _ \<Rightarrow> (wrongtype, db))"
| "redis_cmd_doc now (SADD k m) db =
     (case live now db k of
        None \<Rightarrow> (RInt 1, db(k \<mapsto> (VSet [m], None)))
      | Some (VSet s, e) \<Rightarrow>
          if m \<in> set s then (RInt 0, db) else (RInt 1, db(k \<mapsto> (VSet (m # s), e)))
      | Some _ \<Rightarrow> (wrongtype, db))"
| "redis_cmd_doc now (SREM k m) db =
     (case live now db k of
        None \<Rightarrow> (RInt 0, db)
      | Some (VSet s, e) \<Rightarrow>
          (RInt (if m \<in> set s then 1 else 0),
           set_key k (VSet (removeAll m s)) (removeAll m s = []) e db)
      | Some _ \<Rightarrow> (wrongtype, db))"
| "redis_cmd_doc now (SMEMBERS k) db =
     (case live now db k of
        None \<Rightarrow> (RSet [], db) | Some (VSet s, _) \<Rightarrow> (RSet s, db) | Some _ \<Rightarrow> (wrongtype, db))"
| "redis_cmd_doc now (LPUSH k x) db =
     (case live now db k of
        None \<Rightarrow> (RInt 1, db(k \<mapsto> (VList [x], None)))
      | Some (VList l, e) \<Rightarrow> (RInt (int (length l) + 1), db(k \<mapsto> (VList (x # l), e)))
      | Some _ \<Rightarrow> (wrongtype, db))"
| "redis_cmd_doc now (LTRIM k a b) db =
     (case live now db k of
        None \<Rightarrow> (ROK, db)
      | Some (VList l, e) \<Rightarrow> (ROK, set_key k (VList (list_range a b l)) (list_range a b l = []) e db)
      | Some _ \<Rightarrow> (wrongtype, db))"
| "redis_cmd_doc now (LRANGE k a b) db =
     (case live now db k of
        None \<Rightarrow> (RList [], db) | Some (VList l, _) \<Rightarrow> (RList (list_range a b l), db)
      | Some _ \<Rightarrow> (wrongtype, db))"

text \<open>Members of a set and fields of a hash come in no particular order.\<close>

fun same_reply :: "redis_reply \<Rightarrow> redis_reply \<Rightarrow> bool" where
  "same_reply (RSet xs) y = (\<exists>ys. y = RSet ys \<and> set xs = set ys \<and> distinct xs)"
| "same_reply (RHash h) y = (\<exists>h'. y = RHash h' \<and> map_of h = map_of h' \<and> distinct (map fst h))"
| "same_reply x y = (x = y)"

fun is_RErr :: "redis_reply \<Rightarrow> bool" where
  "is_RErr (RErr _) = True"
| "is_RErr _ = False"

definition redis_step :: "int \<Rightarrow> redis_cmd \<Rightarrow> redis_db \<Rightarrow> redis_reply \<Rightarrow> redis_db \<Rightarrow> bool" where
  "redis_step now cmd db rep db' \<longleftrightarrow>
     (is_RErr rep \<and> (db' = db \<or> db' = snd (redis_cmd_doc now cmd db))) \<or>
     (\<not> is_RErr rep \<and> same_reply rep (fst (redis_cmd_doc now cmd db)) \<and>
      db' = snd (redis_cmd_doc now cmd db))"

definition redis_doc :: "('r \<Rightarrow> redis_db) \<Rightarrow> 'r redis \<Rightarrow> bool" where
  "redis_doc view rd \<longleftrightarrow>
     (\<forall>now cmd r. redis_step now cmd (view r) (fst (rd now cmd r)) (view (snd (rd now cmd r))))"

text \<open>A pipeline sends its commands in order and reports the first error.\<close>

fun pipe_exec :: "'r redis \<Rightarrow> int \<Rightarrow> redis_cmd list \<Rightarrow> 'r \<Rightarrow> redis_reply list \<times> 'r" where
  "pipe_exec rd now [] r = ([], r)"
| "pipe_exec rd now (c # cs) r =
     (let (rep, r1) = rd now c r; (reps, r2) = pipe_exec rd now cs r1 in (rep # reps, r2))"

fun cmd_err :: "redis_reply \<Rightarrow> err option" where
  "cmd_err (RErr m) = Some (OtherError m)"
| "cmd_err _ = None"

fun pipe_err :: "redis_reply list \<Rightarrow> err option" where
  "pipe_err [] = None"
| "pipe_err (rep # reps) = (case cmd_err rep of Some e \<Rightarrow> Some e | None \<Rightarrow> pipe_err reps)"

text \<open>A result of another kind than the command's is an error of the client.\<close>

definition bad_reply :: err where
  "bad_reply = OtherError ''redis: unexpected reply''"

subsection \<open>Facts\<close>

fun cmd_key :: "redis_cmd \<Rightarrow> string" where
  "cmd_key (GET k) = k"
| "cmd_key (SET k _ _) = k"
| "cmd_key (INCR k) = k"
| "cmd_key (INCRBY k _) = k"
| "cmd_key (EXPIRE k _) = k"
| "cmd_key (DEL k) = k"
| "cmd_key (HSET k _) = k"
| "cmd_key (HGETALL k) = k"
| "cmd_key (SADD k _) = k"
| "cmd_key (SREM k _) = k"
| "cmd_key (SMEMBERS k) = k"
| "cmd_key (LPUSH k _) = k"
| "cmd_key (LTRIM k _ _) = k"
| "cmd_key (LRANGE k _ _) = k"

named_theorems redis_simps \<open>replies and keyspace effects under the documented behaviour\<close>

lemma incr_doc_frame: "k' \<noteq> k \<Longrightarrow> snd (incr_doc now k n db) k' = db k'"
  by (simp add: incr_doc_def split: option.splits prod.splits redis_val.splits)

lemma redis_cmd_doc_frame: "k \<noteq> cmd_key cmd \<Longrightarrow> snd (redis_cmd_doc now cmd db) k = db k"
  by (cases cmd)
    (simp_all add: incr_doc_frame set_key_def split: option.splits prod.splits redis_val.splits)

lemma redis_doc_step:
  "redis_doc view rd \<Longrightarrow> rd now cmd r = (rep, r') \<Longrightarrow> redis_step now cmd (view r) rep (view r')"
  unfolding redis_doc_def by (metis fst_conv snd_conv)

lemma cmd_err_None: "cmd_err rep = None \<Longrightarrow> \<not> is_RErr rep"
  by (cases rep) simp_all

lemma redis_doc_ok:
  assumes "redis_doc view rd" "rd now cmd r = (rep, r')" "cmd_err rep = None"
  shows "same_reply rep (fst (redis_cmd_doc now cmd (view r)))"
    "view r' = snd (redis_cmd_doc now cmd (view r))"
  using redis_doc_step [OF assms(1,2)] cmd_err_None [OF assms(3)] by (simp_all add: redis_step_def)

lemma redis_doc_frame:
  assumes "redis_doc view rd" "rd now cmd r = (rep, r')" "k \<noteq> cmd_key cmd"
  shows "view r' k = view r k"
  using redis_doc_step [OF assms(1,2)] redis_cmd_doc_frame [OF assms(3), of now "view r"]
  by (auto simp: redis_step_def)

fun is_read :: "redis_cmd \<Rightarrow> bool" where
  "is_read (GET _) = True"
| "is_read (HGETALL _) = True"
| "is_read (SMEMBERS _) = True"
| "is_read (LRANGE _ _ _) = True"
| "is_read _ = False"

lemma redis_cmd_doc_read: "is_read cmd \<Longrightarrow> snd (redis_cmd_doc now cmd db) = db"
  by (cases cmd) (simp_all split: option.splits prod.splits redis_val.splits)

lemma redis_doc_read:
  assumes "redis_doc view rd" "rd now cmd r = (rep, r')" "is_read cmd"
  shows "view r' = view r"
  using redis_doc_step [OF assms(1,2)] redis_cmd_doc_read [OF assms(3)] by (auto simp: redis_step_def)

lemma pipe_read:
  assumes "redis_doc view rd" "pipe_exec rd now cmds r = (reps, r')" "\<forall>c \<in> set cmds. is_read c"
  shows "view r' = view r"
  using assms(2,3)
proof (induction cmds arbitrary: r reps)
  case (Cons c cs)
  then show ?case using redis_doc_read [OF assms(1)] by (fastforce split: prod.splits)
qed simp

lemma pipe_frame:
  assumes "redis_doc view rd" "pipe_exec rd now cmds r = (reps, r')" "k \<notin> cmd_key ` set cmds"
  shows "view r' k = view r k"
  using assms(2,3)
proof (induction cmds arbitrary: r reps)
  case (Cons c cs)
  then show ?case
    using redis_doc_frame [OF assms(1)] by (fastforce split: prod.splits)
qed simp

lemma live_cong: "db k = db' k \<Longrightarrow> live now db k = live now db' k"
  by (simp add: live_def)

lemma live_upd [simp]: "live now (db(k \<mapsto> (v, None))) k = Some (v, None)"
  "now \<le> e \<Longrightarrow> live now (db(k \<mapsto> (v, Some e))) k = Some (v, Some e)"
  "live now (db(k := None)) k = None"
  by (simp_all add: live_def)

subsection \<open>A server that never fails\<close>

text \<open>
  The documented behaviour itself is a server; it shows that the hypothesis can hold.
\<close>

fun tidy :: "redis_reply \<Rightarrow> redis_reply" where
  "tidy (RSet s) = RSet (remdups s)"
| "tidy (RHash h) = RHash (AList.clearjunk h)"
| "tidy rep = rep"

definition ref_redis :: "redis_db redis" where
  "ref_redis now cmd db = (let (rep, db') = redis_cmd_doc now cmd db in (tidy rep, db'))"

lemma same_tidy: "\<not> is_RErr rep \<Longrightarrow> same_reply (tidy rep) rep"
  by (cases rep) (simp_all add: map_of_clearjunk distinct_clearjunk)

lemma ref_redis_doc: "redis_doc id ref_redis"
  unfolding redis_doc_def redis_step_def
proof (intro allI)
  fix now cmd db
  obtain rep db' where e: "redis_cmd_doc now cmd db = (rep, db')" by fastforce
  show "is_RErr (fst (ref_redis now cmd db)) \<and>
      (id (snd (ref_redis now cmd db)) = id db \<or>
       id (snd (ref_redis now cmd db)) = snd (redis_cmd_doc now cmd (id db))) \<or>
      \<not> is_RErr (fst (ref_redis now cmd db)) \<and>
      same_reply (fst (ref_redis now cmd db)) (fst (redis_cmd_doc now cmd (id db))) \<and>
      id (snd (ref_redis now cmd db)) = snd (redis_cmd_doc now cmd (id db))"
    using same_tidy [of rep] by (cases rep) (simp_all add: ref_redis_def e)
qed

end
