(* ===== verification/Redis_Store.thy ===== *)
theory Redis_Store
  imports Redis_Client Pb_Types
begin

text \<open>
  \<open>internal/store/redis.go\<close>: the keys, the life times and every operation of \<open>RedisStore\<close>, over
  the command round trip \<open>rd\<close>. An operation that returns only an error gives an option, one that
  returns a value and an error a sum; the context argument and the log lines are left out. Times and
  durations are in milliseconds. The two Lua scripts of the file are written as the sequence of
  their \<open>redis.call\<close>s.
\<close>

subsection \<open>Keys and life times\<close>

definition keyPresence :: "int \<Rightarrow> string" where "keyPresence uid = ''im:presence:'' @ Sprintf_d uid"
definition keySeq :: "string \<Rightarrow> string" where "keySeq channelID = ''im:seq:'' @ channelID"
definition keyDedup :: "string \<Rightarrow> string" where "keyDedup clientMsgID = ''im:dedup:'' @ clientMsgID"
definition keyChannelState :: "string \<Rightarrow> string" where
  "keyChannelState channelID = ''im:channel:state:'' @ channelID"
definition keyUserChannels :: "int \<Rightarrow> string" where
  "keyUserChannels uid = ''im:user:channels:'' @ Sprintf_d uid"
definition keyMsgCache :: "string \<Rightarrow> string" where
  "keyMsgCache channelID = ''im:msg:cache:'' @ channelID"
definition keyBan :: "int \<Rightarrow> string" where "keyBan uid = ''im:ban:'' @ Sprintf_d uid"
definition keyRateLimit :: "int \<Rightarrow> string" where
  "keyRateLimit uid = ''im:ratelimit:'' @ Sprintf_d uid"
definition keyChannelAvail :: "int \<Rightarrow> string" where
  "keyChannelAvail channelType = ''im:channel:available:'' @ Sprintf_d channelType"
definition channelMembersKey :: "string \<Rightarrow> string" where
  "channelMembersKey channelID = ''im:channel:members:'' @ channelID"

definition presenceTTL :: int where "presenceTTL = 30 * 1000"
definition dedupTTL :: int where "dedupTTL = 24 * 3600 * 1000"
definition channelStateTTL :: int where "channelStateTTL = 7 * 24 * 3600 * 1000"
definition userChannelsTTL :: int where "userChannelsTTL = 7 * 24 * 3600 * 1000"
definition msgCacheTTL :: int where "msgCacheTTL = 3600 * 1000"
definition msgCacheMaxLen :: int where "msgCacheMaxLen = 200"
definition rateLimitTTL :: int where "rateLimitTTL = 1000"

subsection \<open>Presence\<close>

record presence_data =
  pd_GatewayNodeID :: string
  pd_ConnID :: string
  pd_Status :: string
  pd_LastSeen :: int

definition SetPresence ::
  "'r redis \<Rightarrow> int \<Rightarrow> int \<Rightarrow> presence_data \<Rightarrow> 'r \<Rightarrow> err option \<times> 'r" where
  "SetPresence rd now uid data r =
     (let key = keyPresence uid;
          (reps, r') = pipe_exec rd now
            [HSET key [(''gateway_node_id'', pd_GatewayNodeID data), (''conn_id'', pd_ConnID data),
                       (''status'', pd_Status data), (''last_seen'', Sprintf_d (pd_LastSeen data))],
             EXPIRE key presenceTTL] r
      in (pipe_err reps, r'))"

text \<open>Indexing a Go map with a missing key gives the empty string.\<close>

definition field :: "(string \<times> string) list \<Rightarrow> string \<Rightarrow> string" where
  "field h f = (case map_of h f of None \<Rightarrow> [] | Some v \<Rightarrow> v)"

definition presence_of_hash :: "(string \<times> string) list \<Rightarrow> presence_data" where
  "presence_of_hash h =
     \<lparr>pd_GatewayNodeID = field h ''gateway_node_id'', pd_ConnID = field h ''conn_id'',
      pd_Status = field h ''status'', pd_LastSeen = Sscanf_d0 (field h ''last_seen'')\<rparr>"

definition GetPresence ::
  "'r redis \<Rightarrow> int \<Rightarrow> int \<Rightarrow> 'r \<Rightarrow> (err + presence_data option) \<times> 'r" where
  "GetPresence rd now uid r =
     (case rd now (HGETALL (keyPresence uid)) r of
        (RErr m, r') \<Rightarrow> (Inl (OtherError m), r')
      | (RHash h, r') \<Rightarrow> (Inr (if h = [] then None else Some (presence_of_hash h)), r')
      | (_, r') \<Rightarrow> (Inl bad_reply, r'))"

fun batch_entry :: "redis_reply \<Rightarrow> presence_data option" where
  "batch_entry (RHash h) = (if h = [] then None else Some (presence_of_hash h))"
| "batch_entry _ = None"

text \<open>\<open>cmds[uid]\<close> is the last command issued for a user, so later replies win.\<close>

definition BatchGetPresence ::
  "'r redis \<Rightarrow> int \<Rightarrow> int list \<Rightarrow> 'r \<Rightarrow> (err + (int \<rightharpoonup> presence_data)) \<times> 'r" where
  "BatchGetPresence rd now uids r =
     (if uids = [] then (Inr Map.empty, r)
      else let (reps, r') = pipe_exec rd now (map (\<lambda>uid. HGETALL (keyPresence uid)) uids) r
           in (case pipe_err reps of
                 Some e \<Rightarrow> (Inl e, r')
               | None \<Rightarrow>
                   (Inr (\<lambda>uid. Option.bind (map_of (rev (zip uids reps)) uid) batch_entry), r')))"

definition DeletePresence :: "'r redis \<Rightarrow> int \<Rightarrow> int \<Rightarrow> 'r \<Rightarrow> err option \<times> 'r" where
  "DeletePresence rd now uid r =
     (let (rep, r') = rd now (DEL (keyPresence uid)) r in (cmd_err rep, r'))"

definition RefreshPresenceTTL :: "'r redis \<Rightarrow> int \<Rightarrow> int \<Rightarrow> 'r \<Rightarrow> err option \<times> 'r" where
  "RefreshPresenceTTL rd now uid r =
     (let (rep, r') = rd now (EXPIRE (keyPresence uid) presenceTTL) r in (cmd_err rep, r'))"

subsection \<open>Sequence numbers\<close>

fun int_reply :: "redis_reply \<Rightarrow> err + int" where
  "int_reply (RInt n) = Inr n"
| "int_reply (RErr m) = Inl (OtherError m)"
| "int_reply _ = Inl bad_reply"

definition NextSeq :: "'r redis \<Rightarrow> int \<Rightarrow> string \<Rightarrow> 'r \<Rightarrow> (err + int) \<times> 'r" where
  "NextSeq rd now channelID r =
     (let (rep, r') = rd now (INCR (keySeq channelID)) r in (int_reply rep, r'))"

definition IncrBy :: "'r redis \<Rightarrow> int \<Rightarrow> string \<Rightarrow> int \<Rightarrow> 'r \<Rightarrow> (err + int) \<times> 'r" where
  "IncrBy rd now channelID delta r =
     (let (rep, r') = rd now (INCRBY (keySeq channelID) delta) r in (int_reply rep, r'))"

text \<open>\<open>Get(...).Int64()\<close>: \<open>Inr None\<close> is \<open>redis.Nil\<close>.\<close>

fun get_int64 :: "redis_reply \<Rightarrow> err + int option" where
  "get_int64 RNil = Inr None"
| "get_int64 (RBulk s) =
     (case ParseInt s of None \<Rightarrow> Inl (OtherError ''strconv.ParseInt'') | Some i \<Rightarrow> Inr (Some i))"
| "get_int64 (RErr m) = Inl (OtherError m)"
| "get_int64 _ = Inl bad_reply"

definition GetCurrentSeq :: "'r redis \<Rightarrow> int \<Rightarrow> string \<Rightarrow> 'r \<Rightarrow> (err + int) \<times> 'r" where
  "GetCurrentSeq rd now channelID r =
     (let (rep, r') = rd now (GET (keySeq channelID)) r
      in (case get_int64 rep of
            Inl e \<Rightarrow> Inl e | Inr None \<Rightarrow> Inr 0 | Inr (Some val) \<Rightarrow> Inr val, r'))"

subsection \<open>Deduplication\<close>

definition CheckDedup :: "'r redis \<Rightarrow> int \<Rightarrow> string \<Rightarrow> 'r \<Rightarrow> (err + bool \<times> int) \<times> 'r" where
  "CheckDedup rd now clientMsgID r =
     (let (rep, r') = rd now (GET (keyDedup clientMsgID)) r
      in (case get_int64 rep of
            Inl e \<Rightarrow> Inl e | Inr None \<Rightarrow> Inr (False, 0) | Inr (Some val) \<Rightarrow> Inr (True, val), r'))"

definition SetDedup :: "'r redis \<Rightarrow> int \<Rightarrow> string \<Rightarrow> int \<Rightarrow> 'r \<Rightarrow> err option \<times> 'r" where
  "SetDedup rd now clientMsgID msgID r =
     (let (rep, r') = rd now (SET (keyDedup clientMsgID) (Sprintf_d msgID) dedupTTL) r
      in (cmd_err rep, r'))"

subsection \<open>Channel state\<close>

text \<open>\<open>json.Marshal\<close> and \<open>json.Unmarshal\<close> of a channel state are the codec \<open>js\<close>.\<close>

record channel_state =
  cs_ChannelID :: string
  cs_ChannelType :: int
  cs_CreatedAt :: int
  cs_LastActive :: int

definition SetChannelState ::
  "channel_state codec \<Rightarrow> 'r redis \<Rightarrow> int \<Rightarrow> channel_state \<Rightarrow> 'r \<Rightarrow> err option \<times> 'r" where
  "SetChannelState js rd now state r =
     (case fst js state of
        None \<Rightarrow> (Some (OtherError ''json''), r)
      | Some data \<Rightarrow>
          (let (rep, r') =
             rd now (SET (keyChannelState (cs_ChannelID state)) (string_of_bytes data) channelStateTTL) r
           in (cmd_err rep, r')))"

definition GetChannelState ::
  "channel_state codec \<Rightarrow> 'r redis \<Rightarrow> int \<Rightarrow> string \<Rightarrow> 'r \<Rightarrow> (err + channel_state option) \<times> 'r" where
  "GetChannelState js rd now channelID r =
     (case rd now (GET (keyChannelState channelID)) r of
        (RNil, r') \<Rightarrow> (Inr None, r')
      | (RErr m, r') \<Rightarrow> (Inl (OtherError m), r')
      | (RBulk data, r') \<Rightarrow>
          (case snd js (bytes_of_string data) of
             None \<Rightarrow> (Inl (OtherError ''json''), r') | Some state \<Rightarrow> (Inr (Some state), r'))
      | (_, r') \<Rightarrow> (Inl bad_reply, r'))"

definition DeleteChannelState :: "'r redis \<Rightarrow> int \<Rightarrow> string \<Rightarrow> 'r \<Rightarrow> err option \<times> 'r" where
  "DeleteChannelState rd now channelID r =
     (let (rep, r') = rd now (DEL (keyChannelState channelID)) r in (cmd_err rep, r'))"

definition RefreshChannelStateTTL :: "'r redis \<Rightarrow> int \<Rightarrow> string \<Rightarrow> 'r \<Rightarrow> err option \<times> 'r" where
  "RefreshChannelStateTTL rd now channelID r =
     (let (rep, r') = rd now (EXPIRE (keyChannelState channelID) channelStateTTL) r in (cmd_err rep, r'))"

subsection \<open>Members\<close>

definition AddChannelMember :: "'r redis \<Rightarrow> int \<Rightarrow> string \<Rightarrow> int \<Rightarrow> 'r \<Rightarrow> err option \<times> 'r" where
  "AddChannelMember rd now channelID uid r =
     (let (rep, r') = rd now (SADD (channelMembersKey channelID) (Sprintf_d uid)) r in (cmd_err rep, r'))"

definition RemoveChannelMember :: "'r redis \<Rightarrow> int \<Rightarrow> string \<Rightarrow> int \<Rightarrow> 'r \<Rightarrow> err option \<times> 'r" where
  "RemoveChannelMember rd now channelID uid r =
     (let (rep, r') = rd now (SREM (channelMembersKey channelID) (Sprintf_d uid)) r in (cmd_err rep, r'))"

definition GetChannelMembers :: "'r redis \<Rightarrow> int \<Rightarrow> string \<Rightarrow> 'r \<Rightarrow> (err + int list) \<times> 'r" where
  "GetChannelMembers rd now channelID r =
     (case rd now (SMEMBERS (channelMembersKey channelID)) r of
        (RErr m, r') \<Rightarrow> (Inl (OtherError m), r')
      | (RSet vals, r') \<Rightarrow> (Inr (map Sscanf_d0 vals), r')
      | (_, r') \<Rightarrow> (Inl bad_reply, r'))"

definition AddUserChannel :: "'r redis \<Rightarrow> int \<Rightarrow> int \<Rightarrow> string \<Rightarrow> 'r \<Rightarrow> err option \<times> 'r" where
  "AddUserChannel rd now uid channelID r =
     (let key = keyUserChannels uid;
          (reps, r') = pipe_exec rd now [SADD key channelID, EXPIRE key userChannelsTTL] r
      in (pipe_err reps, r'))"

definition RemoveUserChannel :: "'r redis \<Rightarrow> int \<Rightarrow> int \<Rightarrow> string \<Rightarrow> 'r \<Rightarrow> err option \<times> 'r" where
  "RemoveUserChannel rd now uid channelID r =
     (let (rep, r') = rd now (SREM (keyUserChannels uid) channelID) r in (cmd_err rep, r'))"

definition GetUserChannels :: "'r redis \<Rightarrow> int \<Rightarrow> int \<Rightarrow> 'r \<Rightarrow> (err + string list) \<times> 'r" where
  "GetUserChannels rd now uid r =
     (case rd now (SMEMBERS (keyUserChannels uid)) r of
        (RErr m, r') \<Rightarrow> (Inl (OtherError m), r')
      | (RSet vals, r') \<Rightarrow> (Inr vals, r')
      | (_, r') \<Rightarrow> (Inl bad_reply, r'))"

subsection \<open>Message cache\<close>

definition PushMsgCache ::
  "proto \<Rightarrow> 'r redis \<Rightarrow> int \<Rightarrow> string \<Rightarrow> im_message \<Rightarrow> 'r \<Rightarrow> err option \<times> 'r" where
  "PushMsgCache P rd now channelID msg r =
     (case proto_Marshal (pImMessage P) msg of
        None \<Rightarrow> (Some (OtherError ''proto''), r)
      | Some data \<Rightarrow>
          (let key = keyMsgCache channelID;
               (reps, r') = pipe_exec rd now
                 [LPUSH key (string_of_bytes data), LTRIM key 0 (msgCacheMaxLen - 1),
                  EXPIRE key msgCacheTTL] r
           in (pipe_err reps, r')))"

text \<open>The loop over the entries from the oldest to the newest; corrupt entries are skipped.\<close>

fun cache_loop :: "proto \<Rightarrow> int \<Rightarrow> string list \<Rightarrow> im_message list" where
  "cache_loop P lastMsgID [] = []"
| "cache_loop P lastMsgID (d # ds) =
     (case proto_Unmarshal (pImMessage P) (bytes_of_string d) of
        None \<Rightarrow> cache_loop P lastMsgID ds
      | Some msg \<Rightarrow>
          if MsgId msg > lastMsgID then msg # cache_loop P lastMsgID ds
          else cache_loop P lastMsgID ds)"

definition last_n :: "int \<Rightarrow> 'a list \<Rightarrow> 'a list" where
  "last_n limit xs =
     (if limit > 0 \<and> int (length xs) > limit then drop (length xs - nat limit) xs else xs)"

definition GetMsgCache ::
  "proto \<Rightarrow> 'r redis \<Rightarrow> int \<Rightarrow> string \<Rightarrow> int \<Rightarrow> int \<Rightarrow> 'r \<Rightarrow> (err + im_message list) \<times> 'r" where
  "GetMsgCache P rd now channelID lastMsgID limit r =
     (case rd now (LRANGE (keyMsgCache channelID) 0 (msgCacheMaxLen - 1)) r of
        (RErr m, r') \<Rightarrow> (Inl (OtherError m), r')
      | (RList data, r') \<Rightarrow> (Inr (last_n limit (cache_loop P lastMsgID (rev data))), r')
      | (_, r') \<Rightarrow> (Inl bad_reply, r'))"

text \<open>
  The goroutine that \<open>PostSendAsync\<close> starts, at the time it runs. Its errors are logged only.
\<close>

definition PostSendAsync ::
  "proto \<Rightarrow> 'r redis \<Rightarrow> int \<Rightarrow> string \<Rightarrow> im_message \<Rightarrow> 'r \<Rightarrow> 'r" where
  "PostSendAsync P rd now channelID msg r =
     (case proto_Marshal (pImMessage P) msg of
        None \<Rightarrow> r
      | Some data \<Rightarrow>
          (let cacheKey = keyMsgCache channelID
           in snd (pipe_exec rd now
                [LPUSH cacheKey (string_of_bytes data), LTRIM cacheKey 0 (msgCacheMaxLen - 1),
                 EXPIRE cacheKey msgCacheTTL] r)))"

subsection \<open>Bans\<close>

definition SetBan :: "'r redis \<Rightarrow> int \<Rightarrow> int \<Rightarrow> int \<Rightarrow> string \<Rightarrow> 'r \<Rightarrow> err option \<times> 'r" where
  "SetBan rd now uid duration reason r =
     (let key = keyBan uid;
          expireAt = now + duration;
          (reps, r') = pipe_exec rd now
            [HSET key [(''reason'', reason), (''expire_at'', Sprintf_d expireAt)],
             EXPIRE key duration] r
      in (pipe_err reps, r'))"

definition DeleteBan :: "'r redis \<Rightarrow> int \<Rightarrow> int \<Rightarrow> 'r \<Rightarrow> err option \<times> 'r" where
  "DeleteBan rd now uid r = (let (rep, r') = rd now (DEL (keyBan uid)) r in (cmd_err rep, r'))"

definition IsBanned :: "'r redis \<Rightarrow> int \<Rightarrow> int \<Rightarrow> 'r \<Rightarrow> (err + bool \<times> int) \<times> 'r" where
  "IsBanned rd now uid r =
     (case rd now (HGETALL (keyBan uid)) r of
        (RErr m, r') \<Rightarrow> (Inl (OtherError m), r')
      | (RHash h, r') \<Rightarrow>
          (Inr (if h = [] then (False, 0) else (True, Sscanf_d0 (field h ''expire_at''))), r')
      | (_, r') \<Rightarrow> (Inl bad_reply, r'))"

subsection \<open>Lua\<close>

text \<open>
  Lua numbers are doubles. \<open>lnum\<close> is the integer a script sees for (and returns as) an integer,
  \<open>ltonumber\<close> reads a string and \<open>ltostring\<close> is how a number is passed to \<open>redis.call\<close>. Up to
  \<open>2^53\<close> in absolute value they are exact.
\<close>

record lua =
  lnum :: "int \<Rightarrow> int"
  ltonumber :: "string \<Rightarrow> int option"
  ltostring :: "int \<Rightarrow> string"

definition lua_doc :: "lua \<Rightarrow> bool" where
  "lua_doc L \<longleftrightarrow>
     (\<forall>n. \<bar>n\<bar> \<le> 9007199254740992 \<longrightarrow>
        lnum L n = n \<and> ltonumber L (Sprintf_d n) = Some n \<and> ltostring L n = Sprintf_d n)"

definition lua_error :: err where
  "lua_error = OtherError ''ERR attempt to compare nil with number''"

subsection \<open>Rate limit\<close>

definition rateLimitScript :: "'r redis \<Rightarrow> lua \<Rightarrow> int \<Rightarrow> string \<Rightarrow> int \<Rightarrow> 'r \<Rightarrow> (err + int) \<times> 'r" where
  "rateLimitScript rd L now key ttl r =
     (case rd now (INCR key) r of
        (RInt n, r1) \<Rightarrow>
          if lnum L n = 1 then
            (case rd now (EXPIRE key (ttl * 1000)) r1 of
               (RErr m, r2) \<Rightarrow> (Inl (OtherError m), r2) | (_, r2) \<Rightarrow> (Inr (lnum L n), r2))
          else (Inr (lnum L n), r1)
      | (RErr m, r1) \<Rightarrow> (Inl (OtherError m), r1)
      | (_, r1) \<Rightarrow> (Inl bad_reply, r1))"

definition CheckRateLimit :: "'r redis \<Rightarrow> lua \<Rightarrow> int \<Rightarrow> int \<Rightarrow> int \<Rightarrow> 'r \<Rightarrow> (err + bool) \<times> 'r" where
  "CheckRateLimit rd L now uid maxPerSecond r =
     (case rateLimitScript rd L now (keyRateLimit uid) (rateLimitTTL div 1000) r of
        (Inl e, r') \<Rightarrow> (Inl e, r')
      | (Inr val, r') \<Rightarrow> (Inr (val \<le> maxPerSecond), r'))"

subsection \<open>Channel availability\<close>

definition SetChannelAvailable :: "'r redis \<Rightarrow> int \<Rightarrow> int \<Rightarrow> bool \<Rightarrow> 'r \<Rightarrow> err option \<times> 'r" where
  "SetChannelAvailable rd now channelType available r =
     (let val = (if available then ''1'' else ''0'');
          (rep, r') = rd now (SET (keyChannelAvail channelType) val 0) r
      in (cmd_err rep, r'))"

definition IsChannelAvailable :: "'r redis \<Rightarrow> int \<Rightarrow> int \<Rightarrow> 'r \<Rightarrow> (err + bool) \<times> 'r" where
  "IsChannelAvailable rd now channelType r =
     (case rd now (GET (keyChannelAvail channelType)) r of
        (RNil, r') \<Rightarrow> (Inr True, r')
      | (RErr m, r') \<Rightarrow> (Inl (OtherError m), r')
      | (RBulk val, r') \<Rightarrow> (Inr (val = ''1''), r')
      | (_, r') \<Rightarrow> (Inl bad_reply, r'))"

subsection \<open>Dedup and rate limit in one script\<close>

record dedup_rate_result =
  DedupExists :: bool
  DedupMsgID :: int
  RateOK :: bool

text \<open>
  The script in its three steps, the last one first; \<open>nil > 0\<close> is a script error. The reply table
  ends at its first nil, so a dedup value that is not a number gives the empty reply.
\<close>

definition mark_dedup ::
  "'r redis \<Rightarrow> lua \<Rightarrow> int \<Rightarrow> string \<Rightarrow> int option \<Rightarrow> int option \<Rightarrow> int \<Rightarrow> 'r \<Rightarrow> (err + int list) \<times> 'r" where
  "mark_dedup rd L now dedup_key dedup_ttl seq_hint rate_count r =
     (case (dedup_ttl, seq_hint) of
        (Some ttl, Some hint) \<Rightarrow>
          if ttl > 0 \<and> hint > 0 then
            (case rd now (SET dedup_key (ltostring L hint) (ttl * 1000)) r of
               (RErr m, r') \<Rightarrow> (Inl (OtherError m), r')
             | (_, r') \<Rightarrow> (Inr [-1, rate_count], r'))
          else (Inr [-1, rate_count], r)
      | (Some ttl, None) \<Rightarrow> if ttl > 0 then (Inl lua_error, r) else (Inr [-1, rate_count], r)
      | (None, _) \<Rightarrow> (Inl lua_error, r))"

definition count_and_mark ::
  "'r redis \<Rightarrow> lua \<Rightarrow> int \<Rightarrow> string \<Rightarrow> string \<Rightarrow> int option \<Rightarrow> int option \<Rightarrow> int option \<Rightarrow> 'r \<Rightarrow> (err + int list) \<times> 'r" where
  "count_and_mark rd L now dedup_key rate_key rate_ttl dedup_ttl seq_hint r =
     (case rd now (INCR rate_key) r of
        (RInt n, r2) \<Rightarrow>
          if lnum L n = 1 then
            (case rate_ttl of
               None \<Rightarrow> (Inl lua_error, r2)
             | Some ttl \<Rightarrow>
                 (case rd now (EXPIRE rate_key (ttl * 1000)) r2 of
                    (RErr m, r3) \<Rightarrow> (Inl (OtherError m), r3)
                  | (_, r3) \<Rightarrow> mark_dedup rd L now dedup_key dedup_ttl seq_hint (lnum L n) r3))
          else mark_dedup rd L now dedup_key dedup_ttl seq_hint (lnum L n) r2
      | (RErr m, r2) \<Rightarrow> (Inl (OtherError m), r2)
      | (_, r2) \<Rightarrow> (Inl bad_reply, r2))"

definition dedupRateScript ::
  "'r redis \<Rightarrow> lua \<Rightarrow> int \<Rightarrow> string \<Rightarrow> string \<Rightarrow> string \<Rightarrow> string \<Rightarrow> string \<Rightarrow> 'r \<Rightarrow> (err + int list) \<times> 'r" where
  "dedupRateScript rd L now dedup_key rate_key arg_rate_ttl arg_dedup_ttl arg_seq_hint r =
     (let rate_ttl = ltonumber L arg_rate_ttl;
          dedup_ttl = ltonumber L arg_dedup_ttl;
          seq_hint = ltonumber L arg_seq_hint
      in case rd now (GET dedup_key) r of
           (RErr m, r1) \<Rightarrow> (Inl (OtherError m), r1)
         | (RBulk dedup_val, r1) \<Rightarrow>
             (Inr (case ltonumber L dedup_val of None \<Rightarrow> [] | Some n \<Rightarrow> [n, 0]), r1)
         | (_, r1) \<Rightarrow> count_and_mark rd L now dedup_key rate_key rate_ttl dedup_ttl seq_hint r1)"

definition DedupAndRateCheck ::
  "'r redis \<Rightarrow> lua \<Rightarrow> int \<Rightarrow> string \<Rightarrow> int \<Rightarrow> int \<Rightarrow> int \<Rightarrow> 'r \<Rightarrow> (err + dedup_rate_result) go \<times> 'r" where
  "DedupAndRateCheck rd L now clientMsgID uid rateLimit seqHint r =
     (let dedupTTLSec = (if clientMsgID \<noteq> [] then dedupTTL div 1000 else 0)
      in case dedupRateScript rd L now (keyDedup clientMsgID) (keyRateLimit uid)
                (Sprintf_d (rateLimitTTL div 1000)) (Sprintf_d dedupTTLSec) (Sprintf_d seqHint) r of
           (Inl e, r') \<Rightarrow> (Ret (Inl e), r')
         | (Inr (res0 # res1 # _), r') \<Rightarrow>
             (Ret (Inr \<lparr>DedupExists = (res0 \<ge> 0), DedupMsgID = (if res0 \<ge> 0 then res0 else 0),
                        RateOK = (res1 \<le> rateLimit)\<rparr>), r')
         | (Inr _, r') \<Rightarrow> (Panic, r'))"

end
