(* ===== verification/Redis_Laws.thy ===== *)
theory Redis_Laws
  imports Redis_Store Proto_Wire
begin

text \<open>
  What the Redis operations promise when the server keeps to its documentation: keys of different
  purposes never meet, presence and bans are found until their life time ends and not after it, and
  the batch lookup of presence agrees with the single one. Deduplication and rate limit are in
  \<open>Redis_Dedup\<close>, the message cache and the member sets in \<open>Redis_Cache\<close>.
\<close>

subsection \<open>Keys\<close>

datatype key_ref =
    KPresence int | KSeq string | KDedup string | KChannelState string | KUserChannels int
  | KMsgCache string | KBan int | KRateLimit int | KChannelAvail int | KMembers string

fun redis_key :: "key_ref \<Rightarrow> string" where
  "redis_key (KPresence uid) = keyPresence uid"
| "redis_key (KSeq c) = keySeq c"
| "redis_key (KDedup c) = keyDedup c"
| "redis_key (KChannelState c) = keyChannelState c"
| "redis_key (KUserChannels uid) = keyUserChannels uid"
| "redis_key (KMsgCache c) = keyMsgCache c"
| "redis_key (KBan uid) = keyBan uid"
| "redis_key (KRateLimit uid) = keyRateLimit uid"
| "redis_key (KChannelAvail t) = keyChannelAvail t"
| "redis_key (KMembers c) = channelMembersKey c"

lemmas key_defs = keyPresence_def keySeq_def keyDedup_def keyChannelState_def keyUserChannels_def
  keyMsgCache_def keyBan_def keyRateLimit_def keyChannelAvail_def channelMembersKey_def

lemma redis_key_eq [key_simps]: "redis_key a = redis_key b \<longleftrightarrow> a = b"
  by (cases a; cases b) (simp_all add: key_defs)

lemma rate_key_not_dedup [key_simps]: "keyRateLimit u \<noteq> keyDedup c" "keyDedup c \<noteq> keyRateLimit u"
  using redis_key_eq [of "KRateLimit u" "KDedup c"] by auto

text \<open>
  C34: two Redis keys are equal only when they have the same purpose and the same user, channel or
  client message; and a pipeline of commands on one key, failing or not, leaves the data under
  every other key as it was.
\<close>

theorem redis_keys_separate:
  assumes "redis_doc view rd" "\<forall>c \<in> set cmds. cmd_key c = redis_key a"
    and "pipe_exec rd now cmds r = (reps, r')"
  shows "(redis_key a = redis_key b \<longleftrightarrow> a = b) \<and>
    (a \<noteq> b \<longrightarrow> view r' (redis_key b) = view r (redis_key b))"
  using pipe_frame [OF assms(1,3), of "redis_key b"] assms(2) redis_key_eq [of a b]
  by (metis (mono_tags, lifting) imageE)

theorem redis_keys_separate_witness:
  "redis_key (KBan 12) \<noteq> redis_key (KRateLimit 12) \<and>
   snd (pipe_exec ref_redis 5 [SET (keyBan 12) ''x'' 0, DEL (keyBan 12)] Map.empty) (keyRateLimit 12) = None"
proof -
  have "\<forall>c \<in> set [SET (keyBan 12) ''x'' 0, DEL (keyBan 12)]. cmd_key c = redis_key (KBan 12)" by simp
  from redis_keys_separate [OF ref_redis_doc this surjective_pairing, of "KRateLimit 12" 5 Map.empty]
  show ?thesis by simp
qed

subsection \<open>Commands that succeed\<close>

lemma same_reply_not_err: "cmd_err rep = None \<Longrightarrow> same_reply rep rep' \<Longrightarrow> cmd_err rep' = None"
  by (cases rep) auto

lemma cmd_err_wrongtype [simp]: "cmd_err wrongtype \<noteq> None" "cmd_err notint \<noteq> None"
  by (simp_all add: wrongtype_def notint_def)

lemma pipe_ok:
  "(case x of (reps, r') \<Rightarrow> (pipe_err reps, r')) = (None, r1) \<Longrightarrow>
     \<exists>reps. x = (reps, r1) \<and> pipe_err reps = None"
  by (cases x) auto

lemma cmd_ok:
  "(case x of (rep, r') \<Rightarrow> (cmd_err rep, r')) = (None, r1) \<Longrightarrow>
     \<exists>rep. x = (rep, r1) \<and> cmd_err rep = None"
  by (cases x) auto

paragraph \<open>Hashes\<close>

lemma map_of_hset_all:
  "map_of (hset_all fvs h) f = (case map_of (rev fvs) f of None \<Rightarrow> map_of h f | Some v \<Rightarrow> Some v)"
  unfolding hset_all_def
proof (induction fvs arbitrary: h)
  case (Cons fv fvs)
  then show ?case
    by (cases fv) (auto simp: AList.update_conv' map_add_def split: option.splits)
qed simp

lemma hset_expire:
  assumes doc: "redis_doc view rd"
    and run: "pipe_exec rd now [HSET k fvs, EXPIRE k ttl] r = (reps, r')" "pipe_err reps = None"
    and ttl: "ttl > 0"
  shows "\<exists>h. view r' k = Some (VHash h, Some (now + ttl_secs ttl)) \<and>
    (\<forall>f v. map_of (rev fvs) f = Some v \<longrightarrow> map_of h f = Some v)"
proof -
  obtain rep1 r1 rep2 where c: "rd now (HSET k fvs) r = (rep1, r1)" "rd now (EXPIRE k ttl) r1 = (rep2, r')"
    "cmd_err rep1 = None" "cmd_err rep2 = None"
    using run by (auto split: prod.splits option.splits)
  note hs = redis_doc_ok [OF doc c(1,3)] and ex = redis_doc_ok [OF doc c(2,4)]
  have "cmd_err (fst (redis_cmd_doc now (HSET k fvs) (view r))) = None"
    using same_reply_not_err [OF c(3) hs(1)] .
  then obtain h e where h: "view r1 k = Some (VHash (hset_all fvs h), e)" "live now (view r1) k \<noteq> None"
    using hs(2) by (force simp: live_def split: option.splits redis_val.splits prod.splits if_splits)
  have "live now (view r1) k = Some (VHash (hset_all fvs h), e)"
    using h by (auto simp: live_def split: option.splits if_splits)
  then have "view r' k = Some (VHash (hset_all fvs h), Some (now + ttl_secs ttl))"
    using ex(2) ttl by simp
  then show ?thesis by (auto simp: map_of_hset_all)
qed

lemma hgetall_live:
  assumes doc: "redis_doc view rd" and run: "rd now (HGETALL k) r = (rep, r')" "cmd_err rep = None"
  shows "\<exists>h. rep = RHash h \<and>
    (case live now (view r) k of
       None \<Rightarrow> h = []
     | Some (v, e) \<Rightarrow> \<exists>h'. v = VHash h' \<and> map_of h = map_of h')"
  using redis_doc_ok(1) [OF doc run] same_reply_not_err [OF run(2) redis_doc_ok(1) [OF doc run]] run(2)
  by (cases rep) (auto simp: wrongtype_def split: option.splits redis_val.splits prod.splits)

lemma map_of_nonempty: "map_of h f = Some v \<Longrightarrow> h \<noteq> []"
  by auto

lemma hash_until:
  assumes doc: "redis_doc view rd"
    and stored: "view r k = Some (VHash h, Some e)" and run: "rd t (HGETALL k) r = (rep, r')" "cmd_err rep = None"
  shows "\<exists>h'. rep = RHash h' \<and> (if t \<le> e then map_of h' = map_of h else h' = [])"
proof -
  have "live t (view r) k = (if t \<le> e then Some (VHash h, Some e) else None)"
    using stored by (simp add: live_def)
  then show ?thesis using hgetall_live [OF doc run] by (auto split: if_splits)
qed

subsection \<open>Presence\<close>

lemma presence_of_hash_cong: "map_of h = map_of h' \<Longrightarrow> presence_of_hash h = presence_of_hash h'"
  by (simp add: presence_of_hash_def field_def)

lemma SetPresence_stores:
  assumes "redis_doc view rd" "SetPresence rd now uid data r = (None, r')" "in_int64 (pd_LastSeen data)"
  shows "\<exists>h. view r' (keyPresence uid) = Some (VHash h, Some (now + presenceTTL)) \<and>
    h \<noteq> [] \<and> presence_of_hash h = data"
proof -
  obtain reps where reps: "pipe_exec rd now
      [HSET (keyPresence uid) [(''gateway_node_id'', pd_GatewayNodeID data), (''conn_id'', pd_ConnID data),
         (''status'', pd_Status data), (''last_seen'', Sprintf_d (pd_LastSeen data))],
       EXPIRE (keyPresence uid) presenceTTL] r = (reps, r')" "pipe_err reps = None"
    using pipe_ok [OF assms(2) [unfolded SetPresence_def Let_def]] by blast
  obtain h where h: "view r' (keyPresence uid) = Some (VHash h, Some (now + ttl_secs presenceTTL))"
    "map_of h ''gateway_node_id'' = Some (pd_GatewayNodeID data)"
    "map_of h ''conn_id'' = Some (pd_ConnID data)" "map_of h ''status'' = Some (pd_Status data)"
    "map_of h ''last_seen'' = Some (Sprintf_d (pd_LastSeen data))"
    using hset_expire [OF assms(1) reps] by (auto simp: presenceTTL_def)
  then show ?thesis using assms(3)
    by (auto simp: presence_of_hash_def field_def ttl_secs_def presenceTTL_def)
qed

lemma GetPresence_ok:
  assumes "GetPresence rd now uid r = (Inr p, r')"
  shows "\<exists>h. rd now (HGETALL (keyPresence uid)) r = (RHash h, r') \<and>
    p = (if h = [] then None else Some (presence_of_hash h))"
proof -
  obtain rep s where rd: "rd now (HGETALL (keyPresence uid)) r = (rep, s)" by fastforce
  show ?thesis using assms by (cases rep) (simp_all add: GetPresence_def rd)
qed

text \<open>The presence a lookup at time \<open>t\<close> finds.\<close>

definition presence_at :: "int \<Rightarrow> redis_db \<Rightarrow> int \<Rightarrow> presence_data option" where
  "presence_at t db uid =
     (case live t db (keyPresence uid) of
        Some (VHash h, e) \<Rightarrow> if h = [] then None else Some (presence_of_hash h)
      | _ \<Rightarrow> None)"

lemma HGETALL_presence:
  assumes "redis_doc view rd" "rd t (HGETALL (keyPresence uid)) r = (rep, r')" "cmd_err rep = None"
  shows "\<exists>h. rep = RHash h \<and> presence_at t (view r) uid = (if h = [] then None else Some (presence_of_hash h))"
proof -
  obtain h where h: "rep = RHash h" "case live t (view r) (keyPresence uid) of
       None \<Rightarrow> h = [] | Some (v, e) \<Rightarrow> \<exists>h'. v = VHash h' \<and> map_of h = map_of h'"
    using hgetall_live [OF assms] by blast
  have empty: "h = [] \<longleftrightarrow> h' = []" if "map_of h = map_of h'" for h'
    using that map_of_eq_empty_iff [of h] map_of_eq_empty_iff [of h'] by simp
  show ?thesis
  proof (cases "live t (view r) (keyPresence uid)")
    case (Some ve)
    then obtain h' e where h': "ve = (VHash h', e)" "map_of h = map_of h'" using h(2) by (cases ve) auto
    show ?thesis using h(1) Some h'(1) empty [OF h'(2)] presence_of_hash_cong [OF h'(2)] by (simp add: presence_at_def)
  qed (use h in \<open>simp add: presence_at_def\<close>)
qed

lemma GetPresence_at:
  assumes "redis_doc view rd" "GetPresence rd t uid r = (Inr p, r')"
  shows "p = presence_at t (view r) uid"
proof -
  obtain h where h: "rd t (HGETALL (keyPresence uid)) r = (RHash h, r')"
    "p = (if h = [] then None else Some (presence_of_hash h))"
    using GetPresence_ok [OF assms(2)] by blast
  from HGETALL_presence [OF assms(1) h(1)] h(2) show ?thesis by simp
qed

lemma pipe_presence:
  assumes "redis_doc view rd"
  shows "pipe_exec rd t (map (\<lambda>uid. HGETALL (keyPresence uid)) uids) r = (reps, r') \<Longrightarrow> pipe_err reps = None \<Longrightarrow>
    length reps = length uids \<and> map batch_entry reps = map (presence_at t (view r)) uids"
proof (induction uids arbitrary: r reps)
  case (Cons u uids)
  obtain rep r1 where g: "rd t (HGETALL (keyPresence u)) r = (rep, r1)" by fastforce
  obtain reps1 where reps: "reps = rep # reps1"
    "pipe_exec rd t (map (\<lambda>uid. HGETALL (keyPresence uid)) uids) r1 = (reps1, r')"
    using Cons.prems(1) g by (auto split: prod.splits)
  have ok: "cmd_err rep = None" "pipe_err reps1 = None" using Cons.prems(2) reps(1) by (auto split: option.splits)
  have "view r1 = view r" using redis_doc_read [OF assms g] by simp
  then show ?case using Cons.IH [OF reps(2) ok(2)] HGETALL_presence [OF assms g ok(1)] reps(1) by auto
qed simp

lemma map_of_rev_zip:
  "length ys = length xs \<Longrightarrow> map f ys = map g xs \<Longrightarrow>
     Option.bind (map_of (rev (zip xs ys)) x) f = (if x \<in> set xs then g x else None)"
proof (induction ys xs rule: list_induct2)
  case (Cons y ys x' xs)
  have dom: "fst ` set (zip xs ys) = set xs" using Cons.hyps by (metis list.set_map map_fst_zip)
  show ?case
  proof (cases "x \<in> set xs")
    case True
    then have "map_of (rev (zip xs ys)) x \<noteq> None"
      using dom by (simp add: map_of_eq_None_iff)
    then show ?thesis using Cons True by (auto simp: map_add_def split: option.splits)
  next
    case False
    then have "map_of (rev (zip xs ys)) x = None"
      using dom by (simp add: map_of_eq_None_iff)
    then show ?thesis using Cons.prems False by (auto simp: map_add_def)
  qed
qed simp

lemma BatchGetPresence_at:
  assumes "redis_doc view rd" "BatchGetPresence rd t uids r = (Inr pm, r')"
  shows "pm uid = (if uid \<in> set uids then presence_at t (view r) uid else None)"
proof (cases "uids = []")
  case False
  obtain reps where reps: "pipe_exec rd t (map (\<lambda>uid. HGETALL (keyPresence uid)) uids) r = (reps, r')"
    "pipe_err reps = None" "pm = (\<lambda>uid. Option.bind (map_of (rev (zip uids reps)) uid) batch_entry)"
    using assms(2) False by (auto simp: BatchGetPresence_def split: prod.splits option.splits)
  from pipe_presence [OF assms(1) reps(1,2)] map_of_rev_zip [of reps uids batch_entry "presence_at t (view r)"]
  show ?thesis by (simp add: reps(3))
qed (use assms(2) in \<open>auto simp: BatchGetPresence_def\<close>)

text \<open>
  C35: the batch lookup is the single lookup. When both succeed on the same server state, the batch
  lookup gives for every user asked for, repeated or not, what the single lookup gives, and nothing
  for anybody else.
\<close>

theorem batch_presence_equivalence:
  assumes "redis_doc view rd" "BatchGetPresence rd t uids r = (Inr pm, r1)" "GetPresence rd t uid r = (Inr p, r2)"
  shows "pm uid = (if uid \<in> set uids then p else None)"
  using BatchGetPresence_at [OF assms(1,2)] GetPresence_at [OF assms(1,3)] by simp

lemma presence_stored_at:
  assumes "redis_doc view rd" "SetPresence rd now uid data r = (None, r1)" "in_int64 (pd_LastSeen data)"
    and "view r2 (keyPresence uid) = view r1 (keyPresence uid)"
  shows "presence_at t (view r2) uid = (if t \<le> now + 30000 then Some data else None)"
  using SetPresence_stores [OF assms(1-3)] assms(4)
  by (auto simp: presence_at_def live_def presenceTTL_def)

text \<open>
  Presence. After a successful \<open>SetPresence\<close>, as long as nobody writes the user's key again,
  a lookup that does not fail returns exactly the data stored for 30 seconds and "offline" from then
  on; \<open>DeletePresence\<close> makes it offline at once.
\<close>

theorem presence_until_ttl:
  assumes "redis_doc view rd" "SetPresence rd now uid data r = (None, r1)" "in_int64 (pd_LastSeen data)"
    and "view r2 (keyPresence uid) = view r1 (keyPresence uid)"
  shows "(GetPresence rd t uid r2 = (Inr p, r3) \<longrightarrow> p = (if t \<le> now + 30000 then Some data else None)) \<and>
    (DeletePresence rd t uid r2 = (None, r4) \<longrightarrow> GetPresence rd t' uid r4 = (Inr q, r5) \<longrightarrow> q = None)"
proof -
  have "q = None" if d: "DeletePresence rd t uid r2 = (None, r4)" and g: "GetPresence rd t' uid r4 = (Inr q, r5)"
  proof -
    obtain rep where "rd t (DEL (keyPresence uid)) r2 = (rep, r4)" "cmd_err rep = None"
      using cmd_ok [OF d [unfolded DeletePresence_def Let_def]] by blast
    then have "view r4 (keyPresence uid) = None" using redis_doc_ok(2) [OF assms(1)] by fastforce
    then show ?thesis using GetPresence_at [OF assms(1) g] by (simp add: presence_at_def live_def)
  qed
  then show ?thesis using GetPresence_at [OF assms(1)] presence_stored_at [OF assms] by blast
qed

definition demo_presence :: presence_data where
  "demo_presence = \<lparr>pd_GatewayNodeID = ''n1'', pd_ConnID = ''a'', pd_Status = ''online'', pd_LastSeen = 5\<rparr>"

theorem presence_until_ttl_witness:
  "\<exists>r3. GetPresence ref_redis 20000 7 (snd (SetPresence ref_redis 0 7 demo_presence Map.empty)) =
     (Inr (Some demo_presence), r3)"
proof -
  let ?r1 = "snd (SetPresence ref_redis 0 7 demo_presence Map.empty)"
  have set: "SetPresence ref_redis 0 7 demo_presence Map.empty = (None, ?r1)"
    by (simp add: SetPresence_def ref_redis_def live_def Let_def split: prod.splits)
  have "fst (GetPresence ref_redis 20000 7 ?r1) \<noteq> Inl e" for e
    by (simp add: SetPresence_def GetPresence_def ref_redis_def live_def Let_def presenceTTL_def ttl_secs_def
        split: prod.splits)
  then obtain p r3 where get: "GetPresence ref_redis 20000 7 ?r1 = (Inr p, r3)"
    by (cases "GetPresence ref_redis 20000 7 ?r1"; cases "fst (GetPresence ref_redis 20000 7 ?r1)") auto
  have "in_int64 (pd_LastSeen demo_presence)"
    by (simp add: demo_presence_def in_int64_def int64_max_def int64_min_def)
  from presence_until_ttl [OF ref_redis_doc set this refl, of 20000 p r3] get show ?thesis by auto
qed

theorem batch_presence_equivalence_witness:
  "\<exists>pm r1. BatchGetPresence ref_redis 5 [7, 8] Map.empty = (Inr pm, r1) \<and> pm 7 = None"
proof -
  have "\<exists>pm r1. BatchGetPresence ref_redis 5 [7, 8] Map.empty = (Inr pm, r1)"
    by (simp add: BatchGetPresence_def ref_redis_def live_def)
  then obtain pm r1 where b: "BatchGetPresence ref_redis 5 [7, 8] Map.empty = (Inr pm, r1)" by blast
  have "GetPresence ref_redis 5 7 Map.empty = (Inr None, Map.empty)"
    by (simp add: GetPresence_def ref_redis_def live_def)
  from batch_presence_equivalence [OF ref_redis_doc b this] b show ?thesis by simp
qed

subsection \<open>Bans\<close>

definition ban_ttl :: "int \<Rightarrow> int" where
  "ban_ttl duration = (if duration < 1000 then 1000 else duration - duration mod 1000)"

lemma IsBanned_ok:
  assumes "IsBanned rd now uid r = (Inr p, r')"
  shows "\<exists>h. rd now (HGETALL (keyBan uid)) r = (RHash h, r') \<and>
    p = (if h = [] then (False, 0) else (True, Sscanf_d0 (field h ''expire_at'')))"
proof -
  obtain rep s where rd: "rd now (HGETALL (keyBan uid)) r = (rep, s)" by fastforce
  show ?thesis using assms by (cases rep) (simp_all add: IsBanned_def rd)
qed

lemma hset_expire_past:
  assumes doc: "redis_doc view rd"
    and run: "pipe_exec rd now [HSET k fvs, EXPIRE k ttl] r = (reps, r')" "pipe_err reps = None"
    and ttl: "ttl \<le> 0"
  shows "live t (view r') k = None"
proof -
  obtain rep1 r1 rep2 where c: "rd now (HSET k fvs) r = (rep1, r1)" "rd now (EXPIRE k ttl) r1 = (rep2, r')"
    "cmd_err rep1 = None" "cmd_err rep2 = None"
    using run by (auto split: prod.splits option.splits)
  note hs = redis_doc_ok [OF doc c(1,3)]
  have "cmd_err (fst (redis_cmd_doc now (HSET k fvs) (view r))) = None"
    using same_reply_not_err [OF c(3) hs(1)] .
  then have "live now (view r1) k \<noteq> None"
    using hs(2) by (force simp: live_def split: option.splits redis_val.splits prod.splits if_splits)
  then have "view r' k = None" using redis_doc_ok(2) [OF doc c(2,4)] ttl by auto
  then show ?thesis by (simp add: live_def)
qed

lemma IsBanned_after_SetBan:
  assumes "redis_doc view rd" "SetBan rd now uid duration reason r = (None, r1)" "in_int64 (now + duration)"
    and "view r2 (keyBan uid) = view r1 (keyBan uid)" "IsBanned rd t uid r2 = (Inr b, r3)"
  shows "b = (if 0 < duration \<and> t \<le> now + ban_ttl duration then (True, now + duration) else (False, 0))"
proof -
  obtain reps where reps: "pipe_exec rd now
      [HSET (keyBan uid) [(''reason'', reason), (''expire_at'', Sprintf_d (now + duration))],
       EXPIRE (keyBan uid) duration] r = (reps, r1)" "pipe_err reps = None"
    using pipe_ok [OF assms(2) [unfolded SetBan_def Let_def]] by blast
  obtain h where h: "rd t (HGETALL (keyBan uid)) r2 = (RHash h, r3)"
    "b = (if h = [] then (False, 0) else (True, Sscanf_d0 (field h ''expire_at'')))"
    using IsBanned_ok [OF assms(5)] by blast
  show ?thesis
  proof (cases "0 < duration")
    case True
    obtain h0 where h0: "view r2 (keyBan uid) = Some (VHash h0, Some (now + ttl_secs duration))"
      "map_of h0 ''expire_at'' = Some (Sprintf_d (now + duration))"
      using hset_expire [OF assms(1) reps True] assms(4) by auto
    have "ttl_secs duration = ban_ttl duration"
      using True by (simp add: ttl_secs_def ban_ttl_def minus_mod_eq_div_mult)
    then show ?thesis
      using hash_until [OF assms(1) h0(1) h(1)] h(2) h0(2) True assms(3) map_of_nonempty [of h]
      by (auto simp: field_def split: if_splits)
  next
    case False
    then have "live t (view r2) (keyBan uid) = None"
      using hset_expire_past [OF assms(1) reps] assms(4) live_cong by (metis linorder_not_less)
    then show ?thesis using hgetall_live [OF assms(1) h(1)] h(2) False by simp
  qed
qed

text \<open>
  Bans. After a successful \<open>SetBan\<close>, as long as nobody writes the user's ban again, a check
  that does not fail reports the ban with its end time while the key lives: to the whole second
  below a duration of a second or more, for one second when the duration is shorter. A duration
  that is not positive bans nobody.
\<close>

theorem ban_until:
  assumes "redis_doc view rd" "SetBan rd now uid duration reason r = (None, r1)" "in_int64 (now + duration)"
    and "view r2 (keyBan uid) = view r1 (keyBan uid)" "IsBanned rd t uid r2 = (Inr b, r3)"
  shows "b = (if 0 < duration \<and> t \<le> now + ban_ttl duration then (True, now + duration) else (False, 0))"
  using assms by (rule IsBanned_after_SetBan)

theorem ban_until_witness:
  "\<exists>r3. IsBanned ref_redis 4000 7 (snd (SetBan ref_redis 0 7 5500 ''spam'' Map.empty)) = (Inr (True, 5500), r3)"
proof -
  let ?r1 = "snd (SetBan ref_redis 0 7 5500 ''spam'' Map.empty)"
  have set: "SetBan ref_redis 0 7 5500 ''spam'' Map.empty = (None, ?r1)"
    by (simp add: SetBan_def ref_redis_def live_def Let_def split: prod.splits)
  have "fst (IsBanned ref_redis 4000 7 ?r1) \<noteq> Inl e" for e
    by (simp add: SetBan_def IsBanned_def ref_redis_def live_def Let_def ttl_secs_def split: prod.splits)
  then obtain b r3 where get: "IsBanned ref_redis 4000 7 ?r1 = (Inr b, r3)"
    by (cases "IsBanned ref_redis 4000 7 ?r1"; cases "fst (IsBanned ref_redis 4000 7 ?r1)") auto
  have "in_int64 (0 + 5500)" by (simp add: in_int64_def int64_max_def int64_min_def)
  from ban_until [OF ref_redis_doc set this refl get] get show ?thesis by (simp add: ban_ttl_def)
qed

end
