(* ===== verification/Redis_Dedup.thy ===== *)
theory Redis_Dedup
  imports Redis_Laws
begin

text \<open>
  The script that checks a client message for duplication and the sender against the rate limit:
  a message is remembered for a day, and a window of one second accepts no more than the limit.
\<close>

lemma lua_docD:
  assumes "lua_doc L" "0 \<le> n" "n \<le> 9007199254740992"
  shows "lnum L n = n" "ltonumber L (Sprintf_d n) = Some n" "ltostring L n = Sprintf_d n"
  using assms by (simp_all add: lua_doc_def)

lemma in_int64_small: "0 \<le> n \<Longrightarrow> n \<le> 9007199254740992 \<Longrightarrow> in_int64 n"
  by (simp add: in_int64_def int64_max_def int64_min_def)

subsection \<open>Duplicates\<close>

definition dedup_live :: "int \<Rightarrow> redis_db \<Rightarrow> string \<Rightarrow> int \<Rightarrow> bool" where
  "dedup_live t db cid n \<longleftrightarrow> (\<exists>e. live t db (keyDedup cid) = Some (VStr (Sprintf_d n), e))"

lemma get_str:
  assumes doc: "redis_doc view rd" and run: "rd t (GET k) r = (rep, r')" "cmd_err rep = None"
  shows "view r' = view r \<and>
    (case live t (view r) k of None \<Rightarrow> rep = RNil | Some (v, e) \<Rightarrow> \<exists>s. v = VStr s \<and> rep = RBulk s)"
  using redis_doc_ok [OF doc run] same_reply_not_err [OF run(2) redis_doc_ok(1) [OF doc run]] run(2)
  by (cases rep) (auto simp: wrongtype_def split: option.splits redis_val.splits prod.splits)

lemma dedup_hit:
  assumes doc: "redis_doc view rd" "lua_doc L"
    and hit: "dedup_live t (view r) cid n" "0 \<le> n" "n \<le> 9007199254740992"
    and run: "DedupAndRateCheck rd L t cid uid limit hint r = (out, r')"
  shows "(\<exists>e. out = Ret (Inl e)) \<or>
    (\<exists>res. out = Ret (Inr res) \<and> DedupExists res \<and> DedupMsgID res = n) \<and> view r' = view r"
proof -
  obtain rep r1 where g: "rd t (GET (keyDedup cid)) r = (rep, r1)" by fastforce
  show ?thesis
  proof (cases "cmd_err rep")
    case None
    then have "rep = RBulk (Sprintf_d n)" "view r1 = view r"
      using get_str [OF doc(1) g] hit(1) by (auto simp: dedup_live_def)
    then show ?thesis
      using run g lua_docD(2) [OF doc(2) hit(2,3)] hit(2)
      by (auto simp: DedupAndRateCheck_def dedupRateScript_def Let_def)
  next
    case (Some e)
    then obtain m where "rep = RErr m" by (cases rep) auto
    then show ?thesis using run g by (auto simp: DedupAndRateCheck_def dedupRateScript_def Let_def)
  qed
qed

lemma mark_dedup_stores:
  assumes doc: "redis_doc view rd" "lua_doc L"
    and hint: "0 < hint" "hint \<le> 9007199254740992" and ttl: "0 < ttl"
    and run: "mark_dedup rd L now dk (Some ttl) (Some hint) n r = (Inr xs, r')"
  shows "view r' dk = Some (VStr (Sprintf_d hint), Some (now + ttl * 1000))"
proof -
  obtain rep r1 where s: "rd now (SET dk (ltostring L hint) (ttl * 1000)) r = (rep, r1)" by fastforce
  have "cmd_err rep = None" "r' = r1" using run hint ttl s by (cases rep; simp add: mark_dedup_def)+
  then show ?thesis
    using redis_doc_ok(2) [OF doc(1) s] lua_docD(3) [OF doc(2)] hint ttl by simp
qed

lemma mark_dedup_frame:
  assumes "redis_doc view rd" "mark_dedup rd L now dk ttl hint n r = (out, r')" "k \<noteq> dk"
  shows "view r' k = view r k"
proof -
  have "r' = r \<or> (\<exists>v x rep. rd now (SET dk v x) r = (rep, r'))"
    using assms(2) unfolding mark_dedup_def
    by (auto split: option.splits if_splits prod.splits redis_reply.splits)
  then show ?thesis using redis_doc_frame [OF assms(1)] assms(3) by fastforce
qed

subsection \<open>The rate window\<close>

text \<open>
  The state of a user's counter in a window that opens at \<open>t0\<close>: nothing stored yet, or the number
  of increments so far under a key that outlives the window.
\<close>

definition rate_inv :: "int \<Rightarrow> int \<Rightarrow> redis_db \<Rightarrow> int \<Rightarrow> bool" where
  "rate_inv t0 uid db c \<longleftrightarrow>
     (if c = 0 then live t0 db (keyRateLimit uid) = None
      else \<exists>e. db (keyRateLimit uid) = Some (VStr (Sprintf_d c), e) \<and> (\<forall>e'. e = Some e' \<longrightarrow> t0 + 1000 \<le> e'))"

definition dedup_ok :: "lua \<Rightarrow> redis_db \<Rightarrow> bool" where
  "dedup_ok L db \<longleftrightarrow>
     (\<forall>cid s e. db (keyDedup cid) = Some (VStr s, e) \<longrightarrow> (\<exists>n \<ge> 0. ltonumber L s = Some n))"

lemma rate_inv_cong: "db' (keyRateLimit uid) = db (keyRateLimit uid) \<Longrightarrow> rate_inv t0 uid db' c = rate_inv t0 uid db c"
  by (simp add: rate_inv_def live_def)

lemma live_later: "live t0 db k = None \<Longrightarrow> t0 \<le> t \<Longrightarrow> live t db k = None"
  by (auto simp: live_def split: option.splits if_splits)

lemma rate_incr:
  assumes "rate_inv t0 uid db c" "t0 \<le> t" "t \<le> t0 + 1000" "0 \<le> c" "c < 9007199254740992"
  shows "fst (redis_cmd_doc t (INCR (keyRateLimit uid)) db) = RInt (c + 1)"
    "rate_inv t0 uid (snd (redis_cmd_doc t (INCR (keyRateLimit uid)) db)) (c + 1)"
proof -
  have "fst (redis_cmd_doc t (INCR (keyRateLimit uid)) db) = RInt (c + 1) \<and>
    rate_inv t0 uid (snd (redis_cmd_doc t (INCR (keyRateLimit uid)) db)) (c + 1)"
  proof (cases "c = 0")
    case True
    then have "live t db (keyRateLimit uid) = None" using assms live_later by (auto simp: rate_inv_def)
    then show ?thesis using True by (simp add: incr_doc_def rate_inv_def)
  next
    case False
    then obtain e where e: "db (keyRateLimit uid) = Some (VStr (Sprintf_d c), e)" "\<forall>e'. e = Some e' \<longrightarrow> t0 + 1000 \<le> e'"
      using assms(1) by (auto simp: rate_inv_def)
    then have "live t db (keyRateLimit uid) = Some (VStr (Sprintf_d c), e)"
      using assms(3) by (auto simp: live_def split: option.splits)
    then show ?thesis
      using e assms(4,5) in_int64_small [of c] in_int64_small [of "c + 1"]
      by (simp add: incr_doc_def rate_inv_def ParseInt_Sprintf_d)
  qed
  then show "fst (redis_cmd_doc t (INCR (keyRateLimit uid)) db) = RInt (c + 1)"
    "rate_inv t0 uid (snd (redis_cmd_doc t (INCR (keyRateLimit uid)) db)) (c + 1)" by auto
qed

lemma rate_expire:
  assumes "rate_inv t0 uid db c" "t0 \<le> t" "0 < c"
  shows "rate_inv t0 uid (snd (redis_cmd_doc t (EXPIRE (keyRateLimit uid) 1000) db)) c"
  using assms by (auto simp: rate_inv_def live_def ttl_secs_def split: option.splits)

definition accepted :: "(err + dedup_rate_result) go \<Rightarrow> bool" where
  "accepted out \<longleftrightarrow> (\<exists>res. out = Ret (Inr res) \<and> \<not> DedupExists res \<and> RateOK res)"

lemma rate_ttl_arg: "rateLimitTTL div 1000 = 1"
  by (simp add: rateLimitTTL_def)

lemma INCR_step:
  assumes "redis_doc view rd" "rate_inv t0 uid (view r) c" "t0 \<le> t" "t \<le> t0 + 1000" "0 \<le> c" "c < 9007199254740992"
    and "rd t (INCR (keyRateLimit uid)) r = (rep, r')"
  shows "if cmd_err rep = None then rep = RInt (c + 1) \<and> rate_inv t0 uid (view r') (c + 1)
    else \<exists>c'. (c' = c \<or> c' = c + 1) \<and> rate_inv t0 uid (view r') c'"
proof (cases "cmd_err rep = None")
  case True
  then show ?thesis
    using redis_doc_ok [OF assms(1,7)] rate_incr [OF assms(2-6)] by (cases rep) auto
next
  case False
  then show ?thesis
    using redis_doc_step [OF assms(1,7)] rate_incr(2) [OF assms(2-6)] assms(2)
    by (cases rep) (auto simp: redis_step_def)
qed

lemma EXPIRE_step:
  assumes "redis_doc view rd" "rate_inv t0 uid (view r) c" "t0 \<le> t" "0 < c"
    and "rd t (EXPIRE (keyRateLimit uid) 1000) r = (rep, r')"
  shows "rate_inv t0 uid (view r') c"
  using redis_doc_step [OF assms(1,5)] rate_expire [OF assms(2-4)] assms(2)
  by (auto simp: redis_step_def)

lemma mark_step:
  assumes "redis_doc view rd" "rate_inv t0 uid (view r) c"
    and run: "mark_dedup rd L t (keyDedup cid) (Some ttl) (Some hint) c r = (out, r')"
  shows "rate_inv t0 uid (view r') c" "out = Inr xs \<Longrightarrow> xs = [-1, c]"
proof -
  have "view r' (keyRateLimit uid) = view r (keyRateLimit uid)"
    by (rule mark_dedup_frame [OF assms(1) run]) (simp add: key_simps)
  then show "rate_inv t0 uid (view r') c" using assms(2) by (simp add: rate_inv_cong [of "view r'" uid "view r"])
  show "out = Inr xs \<Longrightarrow> xs = [-1, c]"
    using run by (auto simp: mark_dedup_def split: if_splits prod.splits redis_reply.splits)
qed

lemma count_and_mark_step:
  assumes doc: "redis_doc view rd" "lua_doc L"
    and inv: "rate_inv t0 uid (view r) c" "t0 \<le> t" "t \<le> t0 + 1000" "0 \<le> c" "c < 9007199254740992"
    and run: "count_and_mark rd L t (keyDedup cid) (keyRateLimit uid) (Some 1) (Some ttl) (Some hint) r = (out, r')"
    and hint: "0 < hint" "hint \<le> 9007199254740992"
  shows "\<exists>c'. (c' = c \<or> c' = c + 1) \<and> rate_inv t0 uid (view r') c' \<and>
    (\<forall>xs. out = Inr xs \<longrightarrow> xs = [-1, c + 1] \<and> c' = c + 1)"
proof -
  obtain rep1 r1 where i: "rd t (INCR (keyRateLimit uid)) r = (rep1, r1)" by fastforce
  note s1 = INCR_step [OF doc(1) inv i]
  note mark = mark_step [OF doc(1), of t0 uid _ "c + 1" L t cid ttl hint out r']
  show ?thesis
  proof (cases "cmd_err rep1 = None")
    case False
    then obtain m where "rep1 = RErr m" by (cases rep1) auto
    then show ?thesis using s1 run i by (auto simp: count_and_mark_def)
  next
    case True
    then have rep1: "rep1 = RInt (c + 1)" and r1: "rate_inv t0 uid (view r1) (c + 1)" using s1 by auto
    have l: "lnum L (c + 1) = c + 1" using lua_docD(1) [OF doc(2), of "c + 1"] inv(4,5) by simp
    show ?thesis
    proof (cases "c = 0")
      case False
      then show ?thesis using run mark [OF r1] by (auto simp: count_and_mark_def i rep1 l)
    next
      case c: True
      then have l1: "lnum L 1 = 1" using l by simp
      obtain rep2 r2 where e: "rd t (EXPIRE (keyRateLimit uid) 1000) r1 = (rep2, r2)" by fastforce
      have r2: "rate_inv t0 uid (view r2) (c + 1)" using EXPIRE_step [OF doc(1) r1 inv(2) _ e] c by simp
      show ?thesis
      proof (cases "cmd_err rep2 = None")
        case True
        then have "mark_dedup rd L t (keyDedup cid) (Some ttl) (Some hint) (c + 1) r2 = (out, r')"
          using run by (cases rep2) (simp_all add: count_and_mark_def i rep1 l1 e c)
        then show ?thesis using mark [OF r2] by blast
      next
        case False
        then obtain m where "rep2 = RErr m" by (cases rep2) auto
        then show ?thesis using run r2 by (auto simp: count_and_mark_def i rep1 l1 e c)
      qed
    qed
  qed
qed

definition dedup_secs :: "string \<Rightarrow> int" where
  "dedup_secs cid = (if cid \<noteq> [] then 86400 else 0)"

lemma DedupAndRateCheck_eq:
  assumes "lua_doc L" "0 < hint" "hint \<le> 9007199254740992"
  shows "dedupRateScript rd L t (keyDedup cid) (keyRateLimit uid) (Sprintf_d (rateLimitTTL div 1000))
      (Sprintf_d (if cid \<noteq> [] then dedupTTL div 1000 else 0)) (Sprintf_d hint) r =
    (case rd t (GET (keyDedup cid)) r of
       (RErr m, r1) \<Rightarrow> (Inl (OtherError m), r1)
     | (RBulk v, r1) \<Rightarrow> (Inr (case ltonumber L v of None \<Rightarrow> [] | Some n \<Rightarrow> [n, 0]), r1)
     | (_, r1) \<Rightarrow> count_and_mark rd L t (keyDedup cid) (keyRateLimit uid) (Some 1) (Some (dedup_secs cid)) (Some hint) r1)"
proof -
  have "ltonumber L (Sprintf_d (rateLimitTTL div 1000)) = Some 1"
    "ltonumber L (Sprintf_d (if cid \<noteq> [] then dedupTTL div 1000 else 0)) = Some (dedup_secs cid)"
    "ltonumber L (Sprintf_d hint) = Some hint"
    using lua_docD(2) [OF assms(1)] assms(2,3) by (simp_all add: rateLimitTTL_def dedupTTL_def dedup_secs_def)
  then show ?thesis by (simp add: dedupRateScript_def Let_def)
qed

lemma check_fresh:
  assumes doc: "redis_doc view rd" "lua_doc L"
    and inv: "rate_inv t0 uid (view r1) c" "t0 \<le> t" "t \<le> t0 + 1000" "0 \<le> c" "c < 9007199254740992"
    and hint: "0 < hint" "hint \<le> 9007199254740992"
    and got: "rd t (GET (keyDedup cid)) r = (RNil, r1)"
    and run: "DedupAndRateCheck rd L t cid uid limit hint r = (out, r')"
  shows "\<exists>c'. (c' = c \<or> c' = c + 1) \<and> rate_inv t0 uid (view r') c' \<and> (accepted out \<longrightarrow> c' = c + 1 \<and> c + 1 \<le> limit)"
proof -
  obtain out1 r2 where cm: "count_and_mark rd L t (keyDedup cid) (keyRateLimit uid) (Some 1)
      (Some (dedup_secs cid)) (Some hint) r1 = (out1, r2)" by fastforce
  have o: "(case (out1, r2) of (Inl e, r') \<Rightarrow> (Ret (Inl e), r')
      | (Inr (res0 # res1 # _), r') \<Rightarrow>
          (Ret (Inr \<lparr>DedupExists = (res0 \<ge> 0), DedupMsgID = (if res0 \<ge> 0 then res0 else 0),
                    RateOK = (res1 \<le> limit)\<rparr>), r')
      | (Inr _, r') \<Rightarrow> (Panic, r')) = (out, r')"
    using run by (simp add: DedupAndRateCheck_def DedupAndRateCheck_eq [OF doc(2) hint] got cm)
  obtain c' where "c' = c \<or> c' = c + 1" "rate_inv t0 uid (view r2) c'"
    "\<forall>xs. out1 = Inr xs \<longrightarrow> xs = [-1, c + 1] \<and> c' = c + 1"
    using count_and_mark_step [OF doc inv cm hint] by blast
  then show ?thesis using o by (cases out1) (auto simp: accepted_def)
qed

lemma check_step:
  assumes doc: "redis_doc view rd" "lua_doc L" "dedup_ok L (view r)"
    and inv: "rate_inv t0 uid (view r) c" "t0 \<le> t" "t \<le> t0 + 1000" "0 \<le> c" "c < 9007199254740992"
    and run: "DedupAndRateCheck rd L t cid uid limit hint r = (out, r')"
    and hint: "0 < hint" "hint \<le> 9007199254740992"
  shows "\<exists>c'. (c' = c \<or> c' = c + 1) \<and> rate_inv t0 uid (view r') c' \<and>
    (accepted out \<longrightarrow> c' = c + 1 \<and> c + 1 \<le> limit)"
proof -
  obtain rep r1 where g: "rd t (GET (keyDedup cid)) r = (rep, r1)" by fastforce
  have r1: "rate_inv t0 uid (view r1) c"
  proof -
    have "view r1 (keyRateLimit uid) = view r (keyRateLimit uid)"
      by (rule redis_doc_frame [OF doc(1) g]) (simp add: key_simps)
    then show ?thesis using inv(1) by (simp only: rate_inv_cong [of "view r1" uid "view r"])
  qed
  show ?thesis
  proof (cases "cmd_err rep = None")
    case False
    then obtain m where "rep = RErr m" by (cases rep) auto
    then show ?thesis using run r1
      by (auto simp: DedupAndRateCheck_def DedupAndRateCheck_eq [OF doc(2) hint] g accepted_def)
  next
    case True
    note got = get_str [OF doc(1) g True]
    show ?thesis
    proof (cases "live t (view r) (keyDedup cid)")
      case None
      then have "rep = RNil" using got by simp
      then show ?thesis using check_fresh [OF doc(1,2) r1 inv(2-5) hint _ run] g by simp
    next
      case (Some ve)
      then obtain s e where s: "view r (keyDedup cid) = Some (VStr s, e)" "rep = RBulk s"
        using got by (auto simp: live_def split: option.splits if_splits prod.splits)
      then obtain n where "n \<ge> 0" "ltonumber L s = Some n" using doc(3) by (auto simp: dedup_ok_def)
      then show ?thesis using run s(2) r1
        by (auto simp: DedupAndRateCheck_def DedupAndRateCheck_eq [OF doc(2) hint] g accepted_def)
    qed
  qed
qed

text \<open>
  A run of checks for one user: before each check other clients may have changed the server state,
  which is the function in the call.
\<close>

fun check_run ::
  "'r redis \<Rightarrow> lua \<Rightarrow> int \<Rightarrow> int \<Rightarrow> (int \<times> string \<times> int \<times> ('r \<Rightarrow> 'r)) list \<Rightarrow> 'r \<Rightarrow>
    (err + dedup_rate_result) go list" where
  "check_run rd L uid limit [] r = []"
| "check_run rd L uid limit ((t, cid, hint, other) # calls) r =
     (let (out, r') = DedupAndRateCheck rd L t cid uid limit hint (other r)
      in out # check_run rd L uid limit calls r')"

definition call_ok :: "('r \<Rightarrow> redis_db) \<Rightarrow> lua \<Rightarrow> int \<Rightarrow> int \<Rightarrow> int \<times> string \<times> int \<times> ('r \<Rightarrow> 'r) \<Rightarrow> bool" where
  "call_ok view L uid t0 call \<longleftrightarrow>
     (case call of (t, cid, hint, other) \<Rightarrow>
        t0 \<le> t \<and> t \<le> t0 + 1000 \<and> 0 < hint \<and> hint \<le> 9007199254740992 \<and>
        (\<forall>r. view (other r) (keyRateLimit uid) = view r (keyRateLimit uid) \<and>
             (dedup_ok L (view r) \<longrightarrow> dedup_ok L (view (other r)))))"

lemma dedup_ok_upd:
  assumes "dedup_ok L db" "\<And>cid. db' (keyDedup cid) = db (keyDedup cid) \<or>
      (\<exists>s e n. db' (keyDedup cid) = Some (VStr s, e) \<and> 0 \<le> n \<and> ltonumber L s = Some n)"
  shows "dedup_ok L db'"
  using assms unfolding dedup_ok_def by (metis option.inject prod.inject redis_val.inject(1))

lemma GET_view:
  assumes "redis_doc view rd" "rd t (GET k) r = (rep, r')"
  shows "view r' = view r"
proof -
  have "snd (redis_cmd_doc t (GET k) (view r)) = view r"
    by (simp split: option.splits prod.splits redis_val.splits)
  then show ?thesis using redis_doc_step [OF assms] by (auto simp: redis_step_def)
qed

lemma mark_dedup_effect:
  assumes "redis_doc view rd" "lua_doc L" "0 < hint" "hint \<le> 9007199254740992"
    and "mark_dedup rd L t dk (Some ttl) (Some hint) n r = (out, r')"
  shows "view r' dk = view r dk \<or> (\<exists>e. view r' dk = Some (VStr (Sprintf_d hint), e))"
proof -
  obtain rep r1 where s: "rd t (SET dk (ltostring L hint) (ttl * 1000)) r = (rep, r1)" by fastforce
  have "r' = r \<or> r' = r1"
    using assms(5) s by (cases rep) (auto simp: mark_dedup_def split: if_splits)
  moreover have "view r1 dk = view r dk \<or> (\<exists>e. view r1 dk = Some (VStr (Sprintf_d hint), e))"
    using redis_doc_step [OF assms(1) s] lua_docD(3) [OF assms(2)] assms(3,4)
    by (auto simp: redis_step_def)
  ultimately show ?thesis by auto
qed

lemma count_and_mark_effect:
  assumes "redis_doc view rd" "lua_doc L" "0 < hint" "hint \<le> 9007199254740992" "rk \<noteq> keyDedup c"
    and "count_and_mark rd L t (keyDedup cid) rk (Some one) (Some ttl) (Some hint) r = (out, r')"
  shows "view r' (keyDedup c) = view r (keyDedup c) \<or> (\<exists>e. view r' (keyDedup c) = Some (VStr (Sprintf_d hint), e))"
proof -
  obtain rep1 r1 rep2 r2 where s: "rd t (INCR rk) r = (rep1, r1)" "rd t (EXPIRE rk (one * 1000)) r1 = (rep2, r2)"
    by fastforce
  have f: "view r1 (keyDedup c) = view r (keyDedup c)" "view r2 (keyDedup c) = view r1 (keyDedup c)"
    using redis_doc_frame [OF assms(1) s(1)] redis_doc_frame [OF assms(1) s(2)] assms(5) by auto
  have "r' = r1 \<or> r' = r2 \<or> (\<exists>n r0. (r0 = r1 \<or> r0 = r2) \<and>
      mark_dedup rd L t (keyDedup cid) (Some ttl) (Some hint) n r0 = (out, r'))"
    using assms(6) s by (cases rep1; cases rep2) (auto simp: count_and_mark_def split: if_splits)
  then consider "r' = r1" | "r' = r2" | n r0 where "r0 = r1 \<or> r0 = r2"
      "mark_dedup rd L t (keyDedup cid) (Some ttl) (Some hint) n r0 = (out, r')" by blast
  then show ?thesis
  proof cases
    case 3
    have "view r' (keyDedup c) = view r0 (keyDedup c) \<or> (\<exists>e. view r' (keyDedup c) = Some (VStr (Sprintf_d hint), e))"
    proof (cases "keyDedup c = keyDedup cid")
      case True
      then show ?thesis using mark_dedup_effect [OF assms(1-4) 3(2)] by simp
    next
      case False
      then show ?thesis using mark_dedup_frame [OF assms(1) 3(2)] by blast
    qed
    then show ?thesis using 3(1) f by auto
  qed (use f in auto)
qed

lemma check_dedup_ok:
  assumes doc: "redis_doc view rd" "lua_doc L" "dedup_ok L (view r)"
    and run: "DedupAndRateCheck rd L t cid uid limit hint r = (out, r')"
    and hint: "0 < hint" "hint \<le> 9007199254740992"
  shows "dedup_ok L (view r')"
proof (rule dedup_ok_upd [OF doc(3)])
  fix c
  obtain rep r1 where g: "rd t (GET (keyDedup cid)) r = (rep, r1)" by fastforce
  have v: "view r1 = view r" by (rule GET_view [OF doc(1) g])
  obtain out1 r2 where cm: "count_and_mark rd L t (keyDedup cid) (keyRateLimit uid) (Some 1)
      (Some (dedup_secs cid)) (Some hint) r1 = (out1, r2)" by fastforce
  have "r' = r1 \<or> r' = r2"
    using run by (cases rep; cases out1)
      (auto simp: DedupAndRateCheck_def DedupAndRateCheck_eq [OF doc(2) hint] g cm
        split: option.splits list.splits)
  moreover have "view r2 (keyDedup c) = view r1 (keyDedup c) \<or> (\<exists>e. view r2 (keyDedup c) = Some (VStr (Sprintf_d hint), e))"
    by (rule count_and_mark_effect [OF doc(1,2) hint _ cm]) (simp add: key_simps)
  ultimately show "view r' (keyDedup c) = view r (keyDedup c) \<or>
      (\<exists>s e n. view r' (keyDedup c) = Some (VStr s, e) \<and> 0 \<le> n \<and> ltonumber L s = Some n)"
    using v lua_docD(2) [OF doc(2), of hint] hint by fastforce
qed

lemma check_run_bound:
  assumes doc: "redis_doc view rd" "lua_doc L"
  shows "dedup_ok L (view r) \<Longrightarrow> rate_inv t0 uid (view r) c \<Longrightarrow> 0 \<le> c \<Longrightarrow>
    c + int (length calls) \<le> 9007199254740992 \<Longrightarrow> \<forall>call \<in> set calls. call_ok view L uid t0 call \<Longrightarrow>
    int (length (filter accepted (check_run rd L uid limit calls r))) \<le> max 0 (limit - c)"
proof (induction calls arbitrary: r c)
  case (Cons call calls)
  obtain t cid hint other where call: "call = (t, cid, hint, other)" by (cases call) auto
  have ok: "t0 \<le> t" "t \<le> t0 + 1000" "0 < hint" "hint \<le> 9007199254740992"
    "view (other r) (keyRateLimit uid) = view r (keyRateLimit uid)" "dedup_ok L (view (other r))"
    using Cons.prems(1,5) by (auto simp: call_ok_def call)
  have inv: "rate_inv t0 uid (view (other r)) c"
    using Cons.prems(2) ok(5) by (simp only: rate_inv_cong [of "view (other r)" uid "view r"])
  obtain out r' where run: "DedupAndRateCheck rd L t cid uid limit hint (other r) = (out, r')" by fastforce
  obtain c' where c': "c' = c \<or> c' = c + 1" "rate_inv t0 uid (view r') c'" "accepted out \<longrightarrow> c' = c + 1 \<and> c + 1 \<le> limit"
    using check_step [OF doc ok(6) inv ok(1,2) Cons.prems(3) _ run ok(3,4)] Cons.prems(4) by auto
  have "int (length (filter accepted (check_run rd L uid limit calls r'))) \<le> max 0 (limit - c')"
    using Cons.IH [OF check_dedup_ok [OF doc ok(6) run ok(3,4)] c'(2)] c'(1) Cons.prems(3-5) by auto
  then show ?case using c' by (auto simp: call run)
qed simp

subsection \<open>Properties\<close>

definition exact_lua :: lua where
  "exact_lua = \<lparr>lnum = id, ltonumber = ParseInt, ltostring = Sprintf_d\<rparr>"

lemma exact_lua_doc: "lua_doc exact_lua"
  unfolding lua_doc_def
proof (intro allI impI)
  fix n :: int assume "\<bar>n\<bar> \<le> 9007199254740992"
  then have "in_int64 n" unfolding in_int64_def int64_max_def int64_min_def by linarith
  then show "lnum exact_lua n = n \<and> ltonumber exact_lua (Sprintf_d n) = Some n \<and> ltostring exact_lua n = Sprintf_d n"
    by (simp add: exact_lua_def ParseInt_Sprintf_d)
qed

lemma check_marks:
  assumes "redis_doc view rd" "lua_doc L"
    and "DedupAndRateCheck rd L now cid uid limit hint r = (Ret (Inr res), r1)" "\<not> DedupExists res"
    and "cid \<noteq> []" "0 < hint" "hint \<le> 9007199254740992" "dedup_ok L (view r)"
  shows "view r1 (keyDedup cid) = Some (VStr (Sprintf_d hint), Some (now + dedup_secs cid * 1000))"
proof -
  obtain rep ra where g: "rd now (GET (keyDedup cid)) r = (rep, ra)" by fastforce
  obtain out1 rb where cm: "count_and_mark rd L now (keyDedup cid) (keyRateLimit uid) (Some 1)
      (Some (dedup_secs cid)) (Some hint) ra = (out1, rb)" by fastforce
  have "\<not> (\<exists>v. rep = RBulk v)"
  proof
    assume "\<exists>v. rep = RBulk v"
    then obtain v where v: "rep = RBulk v" by blast
    then obtain e where "live now (view r) (keyDedup cid) = Some (VStr v, e)"
      using get_str [OF assms(1) g] by (auto split: option.splits)
    then have "view r (keyDedup cid) = Some (VStr v, e)"
      by (auto simp: live_def split: option.splits if_splits)
    then obtain n where "n \<ge> 0" "ltonumber L v = Some n" using assms(8) by (auto simp: dedup_ok_def)
    then show False using assms(3,4) v
      by (auto simp: DedupAndRateCheck_def DedupAndRateCheck_eq [OF assms(2,6,7)] g)
  qed
  then have "\<exists>xs. out1 = Inr xs \<and> rb = r1"
    using assms(3) by (cases rep; cases out1)
      (auto simp: DedupAndRateCheck_def DedupAndRateCheck_eq [OF assms(2,6,7)] g cm split: list.splits)
  then obtain xs where xs: "out1 = Inr xs" "rb = r1" by blast
  have "\<exists>n r0. mark_dedup rd L now (keyDedup cid) (Some (dedup_secs cid)) (Some hint) n r0 = (Inr xs, r1)"
    using cm xs by (auto simp: count_and_mark_def split: prod.splits redis_reply.splits if_splits)
  then obtain n r0 where "mark_dedup rd L now (keyDedup cid) (Some (dedup_secs cid)) (Some hint) n r0 = (Inr xs, r1)"
    by blast
  from mark_dedup_stores [OF assms(1,2,6,7) _ this]
  show ?thesis using assms(5) by (simp add: dedup_secs_def)
qed

text \<open>
  C17: idempotence of sending. Once a check has let a client message id through with a sequence
  number, then for 24 hours every further check of that id by anybody, however often and with
  whatever number, fails or reports a duplicate with the number assigned first, and it changes
  nothing on the server, in particular not the rate counter.
\<close>

theorem dedup_remembers:
  assumes "redis_doc view rd" "lua_doc L"
    and "DedupAndRateCheck rd L now cid uid limit hint r = (Ret (Inr res), r1)" "\<not> DedupExists res"
    and "cid \<noteq> []" "0 < hint" "hint \<le> 9007199254740992" "dedup_ok L (view r)"
    and "view r2 (keyDedup cid) = view r1 (keyDedup cid)" "t \<le> now + 24 * 3600 * 1000"
    and "DedupAndRateCheck rd L t cid uid' limit' hint' r2 = (out, r3)"
  shows "(\<exists>e. out = Ret (Inl e)) \<or>
    (\<exists>res'. out = Ret (Inr res') \<and> DedupExists res' \<and> DedupMsgID res' = hint) \<and> view r3 = view r2"
proof -
  have "dedup_live t (view r2) cid hint"
    using check_marks [OF assms(1-8)] assms(5,9,10) by (simp add: dedup_live_def live_def dedup_secs_def)
  from dedup_hit [OF assms(1,2) this _ assms(7,11)] show ?thesis using assms(6) by simp
qed

lemmas check_defs = DedupAndRateCheck_def dedupRateScript_def count_and_mark_def mark_dedup_def
  ref_redis_def incr_doc_def exact_lua_def

lemma ParseInt_numeral [simp]:
  "ParseInt (Sprintf_d 0) = Some 0" "ParseInt (Sprintf_d 1) = Some 1"
  "in_int64 (numeral k) \<Longrightarrow> ParseInt (Sprintf_d (numeral k)) = Some (numeral k)"
  by (simp_all add: ParseInt_Sprintf_d in_int64_def int64_max_def int64_min_def)

lemma first_check:
  "\<exists>r1. DedupAndRateCheck ref_redis exact_lua 0 ''m1'' 7 100 5 Map.empty =
     (Ret (Inr \<lparr>DedupExists = False, DedupMsgID = 0, RateOK = True\<rparr>), r1)"
  by (simp add: check_defs live_def rateLimitTTL_def dedupTTL_def in_int64_def int64_max_def int64_min_def
      wrongtype_def Let_def)

theorem dedup_remembers_witness:
  "\<exists>r1 out r3. DedupAndRateCheck ref_redis exact_lua 0 ''m1'' 7 100 5 Map.empty =
       (Ret (Inr \<lparr>DedupExists = False, DedupMsgID = 0, RateOK = True\<rparr>), r1) \<and>
     DedupAndRateCheck ref_redis exact_lua 60000 ''m1'' 8 100 9 r1 = (out, r3) \<and>
     ((\<exists>e. out = Ret (Inl e)) \<or> (\<exists>res. out = Ret (Inr res) \<and> DedupExists res \<and> DedupMsgID res = 5) \<and> r3 = r1)"
proof -
  obtain r1 where r1: "DedupAndRateCheck ref_redis exact_lua 0 ''m1'' 7 100 5 Map.empty =
     (Ret (Inr \<lparr>DedupExists = False, DedupMsgID = 0, RateOK = True\<rparr>), r1)"
    using first_check by blast
  obtain out r3 where r3: "DedupAndRateCheck ref_redis exact_lua 60000 ''m1'' 8 100 9 r1 = (out, r3)" by fastforce
  have "dedup_ok exact_lua (id Map.empty)" by (simp add: dedup_ok_def)
  from dedup_remembers [OF ref_redis_doc exact_lua_doc r1 _ _ _ _ this refl _ r3] r1 r3
  show ?thesis by simp
qed

text \<open>
  C12: the rate limit. Starting from a moment at which the user has no counter, the checks of the
  following second, whatever other clients do in between and whichever commands fail, accept no more
  messages of the user than the limit.
\<close>

theorem rate_window_bound:
  assumes "redis_doc view rd" "lua_doc L" "dedup_ok L (view r)" "live t0 (view r) (keyRateLimit uid) = None"
    and "\<forall>call \<in> set calls. call_ok view L uid t0 call" "int (length calls) \<le> 9007199254740992"
  shows "int (length (filter accepted (check_run rd L uid limit calls r))) \<le> max 0 limit"
  using check_run_bound [OF assms(1-3), of t0 uid 0 calls limit] assms(4-6) by (simp add: rate_inv_def)

theorem rate_window_bound_witness:
  "length (filter accepted (check_run ref_redis exact_lua 7 1
     [(0, ''m1'', 5, id), (10, ''m2'', 6, id), (900, ''m3'', 7, id)] Map.empty)) \<le> 1"
proof -
  let ?calls = "[(0, ''m1'', 5, id), (10, ''m2'', 6, id), (900, ''m3'', 7, id)] :: (int \<times> string \<times> int \<times> (redis_db \<Rightarrow> redis_db)) list"
  have "dedup_ok exact_lua (id Map.empty)" "live 0 (id Map.empty) (keyRateLimit 7) = None"
    by (simp_all add: dedup_ok_def live_def)
  moreover have "\<forall>call \<in> set ?calls. call_ok id exact_lua 7 0 call" by (simp add: call_ok_def)
  ultimately show ?thesis
    using rate_window_bound [OF ref_redis_doc exact_lua_doc, of Map.empty 0 7 ?calls 1] by simp
qed

end
