(* ===== verification/Redis_Cache.thy ===== *)
theory Redis_Cache
  imports Redis_Laws
begin

text \<open>
  The message cache and the member sets of \<open>RedisStore\<close>, each against an abstract model: the cache
  of a channel is the list of its newest messages, the members of a channel are a set of users.
\<close>

subsection \<open>Message cache\<close>

definition newest :: "nat \<Rightarrow> 'a list \<Rightarrow> 'a list" where
  "newest n xs = drop (length xs - n) xs"

lemma rev_take_newest: "rev (take n xs) = newest n (rev xs)"
  by (simp add: newest_def rev_take)

lemma newest_append: "newest n (newest n xs @ ys) = newest n (xs @ ys)"
proof (cases "length xs \<le> n")
  case False
  then show ?thesis by (cases "length ys \<le> n") (simp_all add: newest_def add.commute)
qed (simp add: newest_def)

lemma length_newest: "length (newest n xs) \<le> n"
  by (simp add: newest_def)

definition decodes :: "proto \<Rightarrow> string list \<Rightarrow> im_message list \<Rightarrow> bool" where
  "decodes P l ms \<longleftrightarrow> map (\<lambda>d. proto_Unmarshal (pImMessage P) (bytes_of_string d)) l = map Some ms"

text \<open>The list under the cache key at a time, newest entry first.\<close>

definition cache_list :: "int \<Rightarrow> redis_db \<Rightarrow> string \<Rightarrow> string list option" where
  "cache_list t db cid =
     (case live t db (keyMsgCache cid) of
        None \<Rightarrow> Some [] | Some (VList l, _) \<Rightarrow> Some l | Some _ \<Rightarrow> None)"

definition cache_holds :: "proto \<Rightarrow> int \<Rightarrow> redis_db \<Rightarrow> string \<Rightarrow> im_message list \<Rightarrow> bool" where
  "cache_holds P t db cid ms \<longleftrightarrow> (\<exists>l. cache_list t db cid = Some l \<and> decodes P (rev l) ms)"

lemma decodes_append: "decodes P (l @ [d]) (ms @ [m]) \<longleftrightarrow>
    decodes P l ms \<and> proto_Unmarshal (pImMessage P) (bytes_of_string d) = Some m"
  by (auto simp: decodes_def)

lemma decodes_newest: "decodes P l ms \<Longrightarrow> decodes P (newest n l) (newest n ms)"
proof -
  assume d: "decodes P l ms"
  then have "length l = length ms" unfolding decodes_def by (metis length_map)
  then show ?thesis using d by (simp add: decodes_def newest_def flip: drop_map)
qed

lemma cache_loop_decodes:
  "decodes P l ms \<Longrightarrow> cache_loop P lastId l = filter (\<lambda>m. MsgId m > lastId) ms"
proof (induction l arbitrary: ms)
  case (Cons d l)
  then obtain m ms' where "ms = m # ms'" by (cases ms) (auto simp: decodes_def)
  then show ?case using Cons by (simp add: decodes_def)
qed (simp add: decodes_def)

lemma list_range_take: "0 \<le> b \<Longrightarrow> list_range 0 b l = take (nat (b + 1)) l"
  by (simp add: list_range_def Let_def)

lemma push_pipeline:
  assumes doc: "redis_doc view rd"
    and run: "pipe_exec rd now [LPUSH k d, LTRIM k 0 199, EXPIRE k ttl] r = (reps, r')" "pipe_err reps = None"
    and ttl: "ttl > 0"
  shows "\<exists>l. (case live now (view r) k of None \<Rightarrow> l = [] | Some (v, _) \<Rightarrow> v = VList l) \<and>
    view r' k = Some (VList (take 200 (d # l)), Some (now + ttl_secs ttl))"
proof -
  obtain rep1 r1 rep2 r2 rep3 where c: "rd now (LPUSH k d) r = (rep1, r1)" "rd now (LTRIM k 0 199) r1 = (rep2, r2)"
    "rd now (EXPIRE k ttl) r2 = (rep3, r')" "cmd_err rep1 = None" "cmd_err rep2 = None" "cmd_err rep3 = None"
    using run by (auto split: prod.splits option.splits)
  note p = redis_doc_ok [OF doc c(1,4)] and t = redis_doc_ok [OF doc c(2,5)] and x = redis_doc_ok [OF doc c(3,6)]
  have "cmd_err (fst (redis_cmd_doc now (LPUSH k d) (view r))) = None"
    using same_reply_not_err [OF c(4) p(1)] .
  then obtain l e where l: "case live now (view r) k of None \<Rightarrow> l = [] | Some (v, _) \<Rightarrow> v = VList l"
      "view r1 k = Some (VList (d # l), e)" "live now (view r1) k = Some (VList (d # l), e)"
    using p(2) by (cases "live now (view r) k")
      (force simp: live_def split: option.splits redis_val.splits prod.splits if_splits)+
  have "view r2 k = Some (VList (take 200 (d # l)), e)"
    using t(2) l(3) by (simp add: list_range_take set_key_def)
  moreover have "\<forall>x. e = Some x \<longrightarrow> now \<le> x"
    using l(2,3) by (auto simp: live_def split: if_splits)
  ultimately have "live now (view r2) k = Some (VList (take 200 (d # l)), e)"
    by (cases e) (simp_all add: live_def)
  then have "view r' k = Some (VList (take 200 (d # l)), Some (now + ttl_secs ttl))"
    using x(2) ttl by simp
  then show ?thesis using l(1) by blast
qed

lemma PushMsgCache_holds:
  assumes doc: "redis_doc view rd" "codec_ok (pImMessage P)"
    and holds: "cache_holds P now (view r) cid ms"
    and run: "PushMsgCache P rd now cid msg r = (None, r')"
    and t: "now \<le> t" "t \<le> now + msgCacheTTL"
  shows "cache_holds P t (view r') cid (newest 200 (ms @ [msg]))"
proof -
  obtain d where d: "proto_Marshal (pImMessage P) msg = Some d"
    using run by (cases "proto_Marshal (pImMessage P) msg") (simp_all add: PushMsgCache_def)
  obtain reps where reps: "pipe_exec rd now [LPUSH (keyMsgCache cid) (string_of_bytes d),
      LTRIM (keyMsgCache cid) 0 199, EXPIRE (keyMsgCache cid) msgCacheTTL] r = (reps, r')" "pipe_err reps = None"
    using run pipe_ok [of "pipe_exec rd now [LPUSH (keyMsgCache cid) (string_of_bytes d),
      LTRIM (keyMsgCache cid) 0 199, EXPIRE (keyMsgCache cid) msgCacheTTL] r" r']
    by (auto simp: PushMsgCache_def d Let_def msgCacheMaxLen_def)
  obtain l where l: "case live now (view r) (keyMsgCache cid) of None \<Rightarrow> l = [] | Some (v, _) \<Rightarrow> v = VList l"
    "view r' (keyMsgCache cid) = Some (VList (take 200 (string_of_bytes d # l)), Some (now + msgCacheTTL))"
    using push_pipeline [OF doc(1) reps] by (auto simp: msgCacheTTL_def ttl_secs_def)
  have "decodes P (rev l) ms"
    using holds l(1) by (auto simp: cache_holds_def cache_list_def split: option.splits prod.splits)
  then have "decodes P (rev (string_of_bytes d # l)) (ms @ [msg])"
    using codec_okD [OF doc(2) d] by (simp add: decodes_append)
  then have "decodes P (rev (take 200 (string_of_bytes d # l))) (newest 200 (ms @ [msg]))"
    unfolding rev_take_newest by (rule decodes_newest)
  moreover have "cache_list t (view r') cid = Some (take 200 (string_of_bytes d # l))"
    using l(2) t by (simp add: cache_list_def live_def)
  ultimately show ?thesis by (auto simp: cache_holds_def)
qed

lemma GetMsgCache_holds:
  assumes doc: "redis_doc view rd" and holds: "cache_holds P t (view r) cid ms" and len: "length ms \<le> 200"
    and run: "GetMsgCache P rd t cid lastId limit r = (Inr out, r')"
  shows "out = last_n limit (filter (\<lambda>m. MsgId m > lastId) ms)"
proof -
  obtain l where l: "cache_list t (view r) cid = Some l" "decodes P (rev l) ms"
    using holds by (auto simp: cache_holds_def)
  have "length l \<le> 200" using len l(2) unfolding decodes_def by (metis length_map length_rev)
  obtain rep s where g: "rd t (LRANGE (keyMsgCache cid) 0 199) r = (rep, s)" by fastforce
  have ok: "cmd_err rep = None" using run by (cases rep) (simp_all add: GetMsgCache_def msgCacheMaxLen_def g)
  have "rep = RList l"
    using redis_doc_ok(1) [OF doc g ok] l(1) ok \<open>length l \<le> 200\<close>
    by (cases rep) (auto simp: cache_list_def list_range_take wrongtype_def split: option.splits prod.splits redis_val.splits)
  then show ?thesis
    using run cache_loop_decodes [OF l(2), of lastId] by (simp add: GetMsgCache_def msgCacheMaxLen_def g)
qed

text \<open>A run of successful pushes into one channel's cache, at the given times.\<close>

fun push_run :: "proto \<Rightarrow> 'r redis \<Rightarrow> string \<Rightarrow> (int \<times> im_message) list \<Rightarrow> 'r \<Rightarrow> 'r option" where
  "push_run P rd cid [] r = Some r"
| "push_run P rd cid ((now, msg) # ps) r =
     (case PushMsgCache P rd now cid msg r of
        (None, r') \<Rightarrow> push_run P rd cid ps r'
      | (Some _, _) \<Rightarrow> None)"

fun spaced :: "int \<Rightarrow> int list \<Rightarrow> bool" where
  "spaced t [] = True"
| "spaced t (u # us) \<longleftrightarrow> t \<le> u \<and> u \<le> t + 3600000 \<and> spaced u us"

lemma push_run_holds:
  assumes doc: "redis_doc view rd" "codec_ok (pImMessage P)"
  shows "ps \<noteq> [] \<Longrightarrow> cache_holds P (fst (hd ps)) (view r) cid ms \<Longrightarrow> push_run P rd cid ps r = Some r' \<Longrightarrow>
    spaced (fst (hd ps)) (map fst (tl ps) @ [t]) \<Longrightarrow>
    cache_holds P t (view r') cid (newest 200 (ms @ map snd ps))"
proof (induction ps arbitrary: r ms)
  case (Cons p ps)
  obtain now msg where p: "p = (now, msg)" by fastforce
  obtain r1 where r1: "PushMsgCache P rd now cid msg r = (None, r1)" "push_run P rd cid ps r1 = Some r'"
    using Cons.prems(3) by (auto simp: p split: prod.splits option.splits)
  have held: "cache_holds P u (view r1) cid (newest 200 (ms @ [msg]))" if "now \<le> u" "u \<le> now + 3600000" for u
    using PushMsgCache_holds [OF doc _ r1(1)] Cons.prems(2) that by (auto simp: p msgCacheTTL_def)
  show ?case
  proof (cases ps)
    case Nil
    then show ?thesis using held [of t] r1(2) Cons.prems(4) by (simp add: p)
  next
    case ps: (Cons q qs)
    have "cache_holds P (fst (hd ps)) (view r1) cid (newest 200 (ms @ [msg]))"
      using held Cons.prems(4) by (simp add: p ps)
    then have "cache_holds P t (view r') cid (newest 200 (newest 200 (ms @ [msg]) @ map snd ps))"
      using Cons.IH r1(2) Cons.prems(4) by (simp add: p ps)
    moreover have "newest 200 (newest 200 (ms @ [msg]) @ map snd ps) = newest 200 (ms @ map snd (p # ps))"
      using newest_append [of 200 "ms @ [msg]" "map snd ps"] by (simp add: p)
    ultimately show ?thesis by simp
  qed
qed simp

text \<open>
  C27: the message cache is the list of the newest messages. After a run of successful pushes into
  an empty cache, no two of them more than an hour apart, a read within an hour of the last one that
  does not fail returns, oldest first, the newest \<open>limit\<close> (all, when the limit is not positive) of
  those among the last 200 messages pushed whose id is above \<open>lastMsgID\<close>.
\<close>

theorem msg_cache_newest:
  assumes "redis_doc view rd" "codec_ok (pImMessage P)"
    and "ps \<noteq> []" "live (fst (hd ps)) (view r) (keyMsgCache cid) = None"
    and "push_run P rd cid ps r = Some r1" "spaced (fst (hd ps)) (map fst (tl ps) @ [t])"
    and "GetMsgCache P rd t cid lastMsgID limit r1 = (Inr out, r2)"
  shows "out = last_n limit (filter (\<lambda>m. MsgId m > lastMsgID) (newest 200 (map snd ps)))"
proof -
  have "cache_holds P (fst (hd ps)) (view r) cid []"
    using assms(4) by (simp add: cache_holds_def cache_list_def decodes_def)
  from push_run_holds [OF assms(1-3) this assms(5,6)]
  have "cache_holds P t (view r1) cid (newest 200 (map snd ps))" by simp
  from GetMsgCache_holds [OF assms(1) this length_newest assms(7)] show ?thesis .
qed

definition demo_msg :: im_message where
  "demo_msg = \<lparr>MsgId = 3, ChannelId = ''world'', ChannelType = 1, Sender = None, Content = ''hi'',
     MsgType = 0, MsgParam = [], SendTime = 9, ClientMsgId = ''m1''\<rparr>"

definition demo_proto :: proto where
  "demo_proto = wire_proto\<lparr>pImMessage := one_codec demo_msg\<rparr>"

theorem msg_cache_newest_witness:
  "\<exists>r1 r2. push_run demo_proto ref_redis ''world'' [(0, demo_msg), (5, demo_msg)] Map.empty = Some r1 \<and>
     GetMsgCache demo_proto ref_redis 10 ''world'' 2 1 r1 = (Inr [demo_msg], r2)"
proof -
  let ?ps = "[(0, demo_msg), (5, demo_msg)]"
  have m: "proto_Marshal (pImMessage demo_proto) demo_msg = Some [1]" "codec_ok (pImMessage demo_proto)"
    by (simp_all add: demo_proto_def one_codec_def [of demo_msg]) (simp flip: one_codec_def)
  let ?r1 = "[keyMsgCache ''world'' \<mapsto> (VList [string_of_bytes [1], string_of_bytes [1]], Some 3600005)]"
  have r1: "push_run demo_proto ref_redis ''world'' ?ps Map.empty = Some ?r1"
    by (simp add: PushMsgCache_def m ref_redis_def live_def list_range_def set_key_def msgCacheMaxLen_def
        msgCacheTTL_def ttl_secs_def Let_def)
  have "\<exists>out. GetMsgCache demo_proto ref_redis 10 ''world'' 2 1 ?r1 = (Inr out, ?r1)"
    by (simp add: GetMsgCache_def ref_redis_def live_def)
  then obtain out where g: "GetMsgCache demo_proto ref_redis 10 ''world'' 2 1 ?r1 = (Inr out, ?r1)" by blast
  have "live 0 (id Map.empty) (keyMsgCache ''world'') = None" "spaced 0 [5, 10]" by (simp_all add: live_def)
  from msg_cache_newest [OF ref_redis_doc m(2), of ?ps Map.empty "''world''" ?r1 10 2 1 out ?r1] this r1 g
  show ?thesis by (simp add: newest_def last_n_def demo_msg_def)
qed

subsection \<open>Members\<close>

datatype member_op = Add int | Remove int

fun member_exec :: "'r redis \<Rightarrow> string \<Rightarrow> int \<times> member_op \<Rightarrow> 'r \<Rightarrow> err option \<times> 'r" where
  "member_exec rd cid (now, Add uid) r = AddChannelMember rd now cid uid r"
| "member_exec rd cid (now, Remove uid) r = RemoveChannelMember rd now cid uid r"

fun member_run :: "'r redis \<Rightarrow> string \<Rightarrow> (int \<times> member_op) list \<Rightarrow> 'r \<Rightarrow> 'r option" where
  "member_run rd cid [] r = Some r"
| "member_run rd cid (op # ops) r =
     (case member_exec rd cid op r of (None, r') \<Rightarrow> member_run rd cid ops r' | (Some _, _) \<Rightarrow> None)"

text \<open>The abstract model: a set of users.\<close>

fun member_spec :: "member_op \<Rightarrow> int set \<Rightarrow> int set" where
  "member_spec (Add uid) S = insert uid S"
| "member_spec (Remove uid) S = S - {uid}"

definition members_abs :: "redis_db \<Rightarrow> string \<Rightarrow> int set \<Rightarrow> bool" where
  "members_abs db cid S \<longleftrightarrow>
     (\<forall>u \<in> S. in_int64 u) \<and>
     (case db (channelMembersKey cid) of
        None \<Rightarrow> S = {}
      | Some (v, e) \<Rightarrow> e = None \<and> (\<exists>s. v = VSet s \<and> set s = Sprintf_d ` S))"

lemma inj_Sprintf_d: "inj Sprintf_d"
  by (rule injI) simp

lemma members_live: "members_abs db cid S \<Longrightarrow> live t db (channelMembersKey cid) = db (channelMembersKey cid)"
  by (auto simp: members_abs_def live_def split: option.splits prod.splits)

fun op_uid :: "member_op \<Rightarrow> int" where
  "op_uid (Add uid) = uid"
| "op_uid (Remove uid) = uid"

lemma member_exec_refines:
  assumes doc: "redis_doc view rd" and abs: "members_abs (view r) cid S"
    and run: "member_exec rd cid (now, op) r = (None, r')" and uid: "in_int64 (op_uid op)"
  shows "members_abs (view r') cid (member_spec op S)"
proof (cases op)
  case (Add u)
  obtain rep where c: "rd now (SADD (channelMembersKey cid) (Sprintf_d u)) r = (rep, r')" "cmd_err rep = None"
    using run cmd_ok [of "rd now (SADD (channelMembersKey cid) (Sprintf_d u)) r"] by (auto simp: Add AddChannelMember_def)
  show ?thesis
    using redis_doc_ok(2) [OF doc c] abs uid members_live [OF abs, of now]
    by (cases "view r (channelMembersKey cid)") (auto simp: members_abs_def Add image_iff)
next
  case (Remove u)
  obtain rep where c: "rd now (SREM (channelMembersKey cid) (Sprintf_d u)) r = (rep, r')" "cmd_err rep = None"
    using run cmd_ok [of "rd now (SREM (channelMembersKey cid) (Sprintf_d u)) r"] by (auto simp: Remove RemoveChannelMember_def)
  have set_diff: "Sprintf_d ` (S - {u}) = Sprintf_d ` S - {Sprintf_d u}"
    by (simp add: image_set_diff [OF inj_Sprintf_d])
  show ?thesis
  proof (cases "view r (channelMembersKey cid)")
    case None
    then show ?thesis
      using redis_doc_ok(2) [OF doc c] abs members_live [OF abs, of now] by (simp add: members_abs_def Remove)
  next
    case (Some ve)
    then obtain s where s: "view r (channelMembersKey cid) = Some (VSet s, None)" "set s = Sprintf_d ` S"
      using abs by (auto simp: members_abs_def)
    have v: "view r' = set_key (channelMembersKey cid) (VSet (removeAll (Sprintf_d u) s))
        (removeAll (Sprintf_d u) s = []) None (view r)"
      using redis_doc_ok(2) [OF doc c] members_live [OF abs, of now] s(1) by simp
    have "set (removeAll (Sprintf_d u) s) = Sprintf_d ` (S - {u})" using s(2) by (simp add: set_diff)
    moreover from this have "removeAll (Sprintf_d u) s = [] \<longleftrightarrow> S - {u} = {}"
      by (metis image_is_empty set_empty)
    ultimately show ?thesis using abs by (simp add: members_abs_def Remove v set_key_def)
  qed
qed

lemma member_run_refines:
  assumes "redis_doc view rd"
  shows "members_abs (view r) cid S \<Longrightarrow> member_run rd cid ops r = Some r' \<Longrightarrow>
    \<forall>op \<in> set ops. in_int64 (op_uid (snd op)) \<Longrightarrow> members_abs (view r') cid (fold (member_spec \<circ> snd) ops S)"
proof (induction ops arbitrary: r S)
  case (Cons op ops)
  obtain now o' where op: "op = (now, o')" by fastforce
  obtain r1 where r1: "member_exec rd cid (now, o') r = (None, r1)" "member_run rd cid ops r1 = Some r'"
    using Cons.prems(2) by (auto simp: op split: prod.splits option.splits)
  have "members_abs (view r1) cid (member_spec o' S)"
    using member_exec_refines [OF assms Cons.prems(1) r1(1)] Cons.prems(3) by (simp add: op)
  from Cons.IH [OF this r1(2)] show ?case using Cons.prems(3) by (simp add: op)
qed simp

lemma members_listed:
  assumes doc: "redis_doc view rd" and abs: "members_abs (view r) cid S"
    and run: "GetChannelMembers rd t cid r = (Inr uids, r')"
  shows "set uids = S \<and> distinct uids"
proof -
  obtain rep s where g: "rd t (SMEMBERS (channelMembersKey cid)) r = (rep, s)" by fastforce
  have ok: "cmd_err rep = None" using run by (cases rep) (simp_all add: GetChannelMembers_def g)
  obtain vals where vals: "rep = RSet vals" using run by (cases rep) (simp_all add: GetChannelMembers_def g)
  have v: "set vals = Sprintf_d ` S" "distinct vals"
    using redis_doc_ok(1) [OF doc g ok] members_live [OF abs, of t] abs
    by (auto simp: vals members_abs_def wrongtype_def split: option.splits prod.splits)
  have inv: "\<forall>u \<in> S. Sscanf_d0 (Sprintf_d u) = u" using abs by (simp add: members_abs_def)
  have "uids = map Sscanf_d0 vals" using run by (simp add: GetChannelMembers_def g vals)
  moreover have "Sscanf_d0 ` set vals = S" using v(1) inv by (force simp: image_iff)
  moreover have "inj_on Sscanf_d0 (set vals)" using v(1) inv by (auto simp: inj_on_def)
  ultimately show ?thesis using v(2) by (simp add: distinct_map)
qed

text \<open>
  C30: the member set of a channel. Starting from no members, after any history of successful
  joins and leaves of users a lookup that does not fail lists each user who is in the set that the
  history describes exactly once, and nobody else, at any later time.
\<close>

theorem members_follow_history:
  assumes "redis_doc view rd" "view r (channelMembersKey cid) = None"
    and "member_run rd cid ops r = Some r1" "\<forall>op \<in> set ops. in_int64 (op_uid (snd op))"
    and "GetChannelMembers rd t cid r1 = (Inr uids, r2)"
  shows "set uids = fold (member_spec \<circ> snd) ops {} \<and> distinct uids"
proof -
  have "members_abs (view r) cid {}" using assms(2) by (simp add: members_abs_def)
  from member_run_refines [OF assms(1) this assms(3,4)] show ?thesis
    using members_listed [OF assms(1) _ assms(5)] by blast
qed

theorem members_follow_history_witness:
  "\<exists>r1 uids r2. member_run ref_redis ''g'' [(0, Add 4), (1, Add 5), (2, Remove 4)] Map.empty = Some r1 \<and>
     GetChannelMembers ref_redis 9 ''g'' r1 = (Inr uids, r2) \<and> set uids = {5}"
proof -
  let ?ops = "[(0, Add 4), (1, Add 5), (2, Remove 4)]" and ?r1 = "[channelMembersKey ''g'' \<mapsto> (VSet [Sprintf_d 5], None)]"
  have r1: "member_run ref_redis ''g'' ?ops Map.empty = Some ?r1"
    by (simp add: AddChannelMember_def RemoveChannelMember_def ref_redis_def live_def set_key_def)
  have "\<exists>uids. GetChannelMembers ref_redis 9 ''g'' ?r1 = (Inr uids, ?r1)"
    by (simp add: GetChannelMembers_def ref_redis_def live_def)
  then obtain uids where g: "GetChannelMembers ref_redis 9 ''g'' ?r1 = (Inr uids, ?r1)" by blast
  have "\<forall>op \<in> set ?ops. in_int64 (op_uid (snd op))" by (simp add: in_int64_def int64_max_def int64_min_def)
  from members_follow_history [OF ref_redis_doc _ r1 this g] r1 g show ?thesis by (auto simp: insert_Diff_if)
qed

end
