(* ===== verification/Seq_Alloc.thy ===== *)
theory Seq_Alloc
  imports Redis_Laws
begin

text \<open>
  The allocator of sequence numbers, \<open>internal/service/seqalloc.go\<close>. \<open>Next\<close> has two sections under
  the mutex with the Redis call between them; they are separate definitions, so that the calls of
  several goroutines can be interleaved in the step relation below.
\<close>

definition seqBatchSize :: int where
  "seqBatchSize = 1000"

record seq_range =
  next_seq :: int
  max_seq :: int

type_synonym seq_ranges = "string \<rightharpoonup> seq_range"

definition NewSeqAllocator :: seq_ranges where [simp]:
  "NewSeqAllocator = Map.empty"

text \<open>The first section: the number from the local range, or \<open>None\<close> when it is exhausted.\<close>

definition next_local :: "string \<Rightarrow> seq_ranges \<Rightarrow> (int \<times> seq_ranges) option" where
  "next_local channelID ranges =
     (case ranges channelID of
        None \<Rightarrow> None
      | Some r \<Rightarrow>
          if next_seq r \<le> max_seq r
          then Some (next_seq r, ranges(channelID \<mapsto> r\<lparr>next_seq := next_seq r + 1\<rparr>))
          else None)"

text \<open>The second section, after Redis has reserved the numbers up to \<open>newMax\<close>.\<close>

definition install_range :: "string \<Rightarrow> int \<Rightarrow> seq_ranges \<Rightarrow> int \<times> seq_ranges" where
  "install_range channelID newMax ranges =
     (let newStart = newMax - seqBatchSize + 1
      in (newStart, ranges(channelID \<mapsto> \<lparr>next_seq = newStart + 1, max_seq = newMax\<rparr>)))"

definition SeqAllocator_Next ::
  "'r redis \<Rightarrow> int \<Rightarrow> string \<Rightarrow> seq_ranges \<Rightarrow> 'r \<Rightarrow> (err + int) \<times> seq_ranges \<times> 'r" where
  "SeqAllocator_Next rd now channelID ranges r =
     (case next_local channelID ranges of
        Some (seq, ranges') \<Rightarrow> (Inr seq, ranges', r)
      | None \<Rightarrow>
          (case IncrBy rd now channelID seqBatchSize r of
             (Inl e, r') \<Rightarrow> (Inl e, ranges, r')
           | (Inr newMax, r') \<Rightarrow>
               (let (seq, ranges') = install_range channelID newMax ranges in (Inr seq, ranges', r'))))"

subsection \<open>The counter in Redis\<close>

definition seq_counter :: "redis_db \<Rightarrow> string \<Rightarrow> int \<Rightarrow> bool" where
  "seq_counter db ch n \<longleftrightarrow>
     0 \<le> n \<and> in_int64 n \<and>
     (case db (keySeq ch) of None \<Rightarrow> n = 0 | Some (v, e) \<Rightarrow> v = VStr (Sprintf_d n) \<and> e = None)"

lemma seq_counter_fun: "seq_counter db ch n \<Longrightarrow> seq_counter db ch m \<Longrightarrow> n = m"
  by (auto simp: seq_counter_def split: option.splits prod.splits)

lemma seq_counter_incr:
  assumes "seq_counter db ch n" "0 \<le> d" "in_int64 d"
  shows "if in_int64 (n + d)
    then fst (redis_cmd_doc t (INCRBY (keySeq ch) d) db) = RInt (n + d) \<and>
         seq_counter (snd (redis_cmd_doc t (INCRBY (keySeq ch) d) db)) ch (n + d)
    else fst (redis_cmd_doc t (INCRBY (keySeq ch) d) db) = notint \<and>
         snd (redis_cmd_doc t (INCRBY (keySeq ch) d) db) = db"
  using assms
  by (cases "db (keySeq ch)") (auto simp: seq_counter_def incr_doc_def live_def ParseInt_Sprintf_d)

lemma IncrBy_counter:
  assumes doc: "redis_doc view rd" and c: "seq_counter (view r) ch n" "0 \<le> d" "in_int64 d"
    and run: "IncrBy rd t ch d r = (out, r')"
  shows "(\<exists>n'. n \<le> n' \<and> seq_counter (view r') ch n') \<and>
    (\<forall>m. out = Inr m \<longrightarrow> m = n + d \<and> seq_counter (view r') ch m)"
proof -
  obtain rep where rep: "rd t (INCRBY (keySeq ch) d) r = (rep, r')" "out = int_reply rep"
    using run by (auto simp: IncrBy_def Let_def split: prod.splits)
  note step = redis_doc_step [OF doc rep(1)] and incr = seq_counter_incr [OF c, of t]
  have "view r' = view r \<or> view r' = snd (redis_cmd_doc t (INCRBY (keySeq ch) d) (view r))"
    using step by (auto simp: redis_step_def)
  then have "seq_counter (view r') ch n \<or> seq_counter (view r') ch (n + d)"
    using incr c(1) by (cases "in_int64 (n + d)") auto
  then have "\<exists>n'. n \<le> n' \<and> seq_counter (view r') ch n'"
    using c(2) by (metis add_increasing2 order_refl)
  moreover have "m = n + d \<and> seq_counter (view r') ch m" if "out = Inr m" for m
  proof -
    have "rep = RInt m" using that rep(2) by (cases rep) auto
    then show ?thesis
      using step incr by (cases "in_int64 (n + d)") (auto simp: redis_step_def notint_def)
  qed
  ultimately show ?thesis by blast
qed

lemma IncrBy_other:
  assumes "redis_doc view rd" "IncrBy rd t ch d r = (out, r')" "ch' \<noteq> ch"
  shows "view r' (keySeq ch') = view r (keySeq ch')"
proof -
  obtain rep where rep: "rd t (INCRBY (keySeq ch) d) r = (rep, r')"
    using assms(2) by (auto simp: IncrBy_def Let_def split: prod.splits)
  have "keySeq ch' \<noteq> keySeq ch" using assms(3) by (simp add: keySeq_def)
  then show ?thesis using redis_doc_frame [OF assms(1) rep] by simp
qed

lemma seq_counter_cong: "db' (keySeq ch) = db (keySeq ch) \<Longrightarrow> seq_counter db' ch n = seq_counter db ch n"
  by (simp add: seq_counter_def)

subsection \<open>Any number of goroutines and servers\<close>

text \<open>
  A state: the shared ranges, the Redis server, the calls that found the range exhausted and have
  not been answered by Redis yet, those that have their batch but not the second lock, and the
  numbers returned so far. Other servers may move the counters up at any time.
\<close>

record 'r seq_state =
  ranges :: seq_ranges
  server :: 'r
  missed :: "string list"
  refilled :: "(string \<times> int) list"
  issued :: "(string \<times> int) list"

inductive seq_step :: "('r \<Rightarrow> redis_db) \<Rightarrow> 'r redis \<Rightarrow> 'r seq_state \<Rightarrow> 'r seq_state \<Rightarrow> bool"
  for view rd where
  hit: "next_local ch (ranges s) = Some (seq, ranges') \<Longrightarrow>
    seq_step view rd s (s\<lparr>ranges := ranges', issued := issued s @ [(ch, seq)]\<rparr>)"
| miss: "next_local ch (ranges s) = None \<Longrightarrow> seq_step view rd s (s\<lparr>missed := ch # missed s\<rparr>)"
| refill: "ch \<in> set (missed s) \<Longrightarrow> IncrBy rd now ch seqBatchSize (server s) = (Inr newMax, r') \<Longrightarrow>
    seq_step view rd s (s\<lparr>missed := remove1 ch (missed s), server := r', refilled := (ch, newMax) # refilled s\<rparr>)"
| failed: "ch \<in> set (missed s) \<Longrightarrow> IncrBy rd now ch seqBatchSize (server s) = (Inl e, r') \<Longrightarrow>
    seq_step view rd s (s\<lparr>missed := remove1 ch (missed s), server := r'\<rparr>)"
| install: "(ch, newMax) \<in> set (refilled s) \<Longrightarrow> install_range ch newMax (ranges s) = (seq, ranges') \<Longrightarrow>
    seq_step view rd s (s\<lparr>ranges := ranges', refilled := remove1 (ch, newMax) (refilled s),
                          issued := issued s @ [(ch, seq)]\<rparr>)"
| others: "(\<And>ch n. seq_counter (view (server s)) ch n \<Longrightarrow> \<exists>n' \<ge> n. seq_counter (view r') ch n') \<Longrightarrow>
    seq_step view rd s (s\<lparr>server := r'\<rparr>)"

inductive seq_reach :: "('r \<Rightarrow> redis_db) \<Rightarrow> 'r redis \<Rightarrow> 'r seq_state \<Rightarrow> bool" for view rd where
  start: "(\<And>ch. \<exists>n. seq_counter (view r) ch n) \<Longrightarrow>
    seq_reach view rd \<lparr>ranges = Map.empty, server = r, missed = [], refilled = [], issued = []\<rparr>"
| step: "seq_reach view rd s \<Longrightarrow> seq_step view rd s s' \<Longrightarrow> seq_reach view rd s'"

definition issued_of :: "'r seq_state \<Rightarrow> string \<Rightarrow> int list" where
  "issued_of s ch = map snd (filter (\<lambda>p. fst p = ch) (issued s))"

definition range_of :: "seq_ranges \<Rightarrow> string \<Rightarrow> int set" where
  "range_of rs ch = (case rs ch of None \<Rightarrow> {} | Some r \<Rightarrow> {next_seq r..max_seq r})"

definition batch :: "int \<Rightarrow> int set" where
  "batch m = {m - 999..m}"

text \<open>
  Every number below the counter has at most one owner: it was issued, is in the local range, or
  belongs to one batch on its way.
\<close>

definition chan_inv :: "redis_db \<Rightarrow> 'r seq_state \<Rightarrow> string \<Rightarrow> int \<Rightarrow> bool" where
  "chan_inv db s ch n \<longleftrightarrow>
     seq_counter db ch n \<and> distinct (issued_of s ch) \<and>
     set (issued_of s ch) \<subseteq> {1..n} \<and> range_of (ranges s) ch \<subseteq> {1..n} \<and>
     set (issued_of s ch) \<inter> range_of (ranges s) ch = {} \<and>
     (\<forall>m. (ch, m) \<in> set (refilled s) \<longrightarrow> batch m \<subseteq> {1..n} \<and>
        batch m \<inter> set (issued_of s ch) = {} \<and> batch m \<inter> range_of (ranges s) ch = {} \<and>
        (\<forall>m'. (ch, m') \<in> set (refilled s) \<longrightarrow> m' \<noteq> m \<longrightarrow> batch m \<inter> batch m' = {}))"

definition seq_inv :: "('r \<Rightarrow> redis_db) \<Rightarrow> 'r seq_state \<Rightarrow> bool" where
  "seq_inv view s \<longleftrightarrow> distinct (refilled s) \<and> (\<forall>ch. \<exists>n. chan_inv (view (server s)) s ch n)"

lemma batch_mem: "m \<in> batch m"
  by (simp add: batch_def)

lemma chan_inv_cong:
  assumes "issued_of s' ch = issued_of s ch" "range_of (ranges s') ch = range_of (ranges s) ch"
    and "\<And>m. (ch, m) \<in> set (refilled s') \<Longrightarrow> (ch, m) \<in> set (refilled s)"
    and "chan_inv db s ch n" "seq_counter db' ch n'" "n \<le> n'"
  shows "chan_inv db' s' ch n'"
  using assms unfolding chan_inv_def by (auto simp: subset_iff) (meson order_trans)+

lemma chan_inv_counter: "chan_inv db s ch n \<Longrightarrow> seq_counter db ch n"
  by (simp add: chan_inv_def)

lemma chan_inv_batch:
  assumes "chan_inv db s ch n" "(ch, m) \<in> set (refilled s)"
  shows "batch m \<subseteq> {1..n}" "batch m \<inter> set (issued_of s ch) = {}" "batch m \<inter> range_of (ranges s) ch = {}"
    "(ch, m') \<in> set (refilled s) \<Longrightarrow> m' \<noteq> m \<Longrightarrow> batch m' \<inter> batch m = {}"
  using assms unfolding chan_inv_def by blast+

lemma chan_invI:
  assumes "seq_counter db ch n" "distinct (issued_of s ch)"
    "set (issued_of s ch) \<subseteq> {1..n}" "range_of (ranges s) ch \<subseteq> {1..n}"
    "set (issued_of s ch) \<inter> range_of (ranges s) ch = {}"
    and "\<And>m. (ch, m) \<in> set (refilled s) \<Longrightarrow> batch m \<subseteq> {1..n}"
    and "\<And>m. (ch, m) \<in> set (refilled s) \<Longrightarrow> batch m \<inter> set (issued_of s ch) = {}"
    and "\<And>m. (ch, m) \<in> set (refilled s) \<Longrightarrow> batch m \<inter> range_of (ranges s) ch = {}"
    and "\<And>m m'. (ch, m) \<in> set (refilled s) \<Longrightarrow> (ch, m') \<in> set (refilled s) \<Longrightarrow> m' \<noteq> m \<Longrightarrow>
      batch m \<inter> batch m' = {}"
  shows "chan_inv db s ch n"
  unfolding chan_inv_def by (intro conjI allI impI; (rule assms; assumption?)?)

lemma issued_of_snoc:
  "issued_of (s\<lparr>issued := issued s @ [(ch', q)]\<rparr>) ch = issued_of s ch @ (if ch' = ch then [q] else [])"
  by (simp add: issued_of_def)

lemma seq_inv_hit:
  assumes inv: "seq_inv view s" and hit: "next_local ch (ranges s) = Some (seq, rs)"
  shows "seq_inv view (s\<lparr>ranges := rs, issued := issued s @ [(ch, seq)]\<rparr>)" (is "seq_inv view ?s")
proof -
  obtain r where r: "ranges s ch = Some r" "next_seq r \<le> max_seq r" "seq = next_seq r"
    "rs = (ranges s)(ch \<mapsto> r\<lparr>next_seq := next_seq r + 1\<rparr>)"
    using hit by (auto simp: next_local_def split: option.splits if_splits)
  have iss: "issued_of ?s c = issued_of s c @ (if ch = c then [seq] else [])" for c
    by (simp add: issued_of_def)
  have new: "range_of rs ch = range_of (ranges s) ch - {seq}" "seq \<in> range_of (ranges s) ch"
    using r by (auto simp: range_of_def)
  have "\<exists>n. chan_inv (view (server s)) ?s c n" for c
  proof -
    obtain n where n: "chan_inv (view (server s)) s c n" using inv by (auto simp: seq_inv_def)
    show ?thesis
    proof (cases "c = ch")
      case True
      then have "chan_inv (view (server s)) ?s c n"
        using n new unfolding chan_inv_def iss by (auto simp: subset_iff)
      then show ?thesis by blast
    next
      case False
      then have "range_of rs c = range_of (ranges s) c" by (simp add: range_of_def r(4))
      then have "chan_inv (view (server s)) ?s c n"
        using False iss by (intro chan_inv_cong [OF _ _ _ n]) (simp_all add: chan_inv_counter [OF n])
      then show ?thesis by blast
    qed
  qed
  then show ?thesis using inv by (simp add: seq_inv_def)
qed

lemma seq_inv_refill:
  assumes doc: "redis_doc view rd" and inv: "seq_inv view s"
    and run: "IncrBy rd now ch seqBatchSize (server s) = (Inr m, r')"
  shows "seq_inv view (s\<lparr>missed := ms, server := r', refilled := (ch, m) # refilled s\<rparr>)" (is "seq_inv view ?s")
proof -
  have d: "0 \<le> seqBatchSize" "in_int64 seqBatchSize"
    by (simp_all add: seqBatchSize_def in_int64_def int64_max_def int64_min_def)
  have own: "issued_of ?s c = issued_of s c" for c by (simp add: issued_of_def)
  obtain n where n: "chan_inv (view (server s)) s ch n" using inv by (auto simp: seq_inv_def)
  then have c: "seq_counter (view (server s)) ch n" by (simp add: chan_inv_def)
  have m: "m = n + 1000" "seq_counter (view r') ch m"
    using IncrBy_counter [OF doc c d run] by (auto simp: seqBatchSize_def)
  have fresh: "(ch, m) \<notin> set (refilled s)"
    using subsetD [OF chan_inv_batch(1) [OF n] batch_mem, of m] m(1) by auto
  have "\<exists>n. chan_inv (view r') ?s c n" for c
  proof (cases "c = ch")
    case True
    have below: "batch k \<inter> batch m = {}" if "(ch, k) \<in> set (refilled s)" for k
      using subsetD [OF chan_inv_batch(1) [OF n that] batch_mem] m(1) by (auto simp: batch_def)
    have "chan_inv (view r') ?s ch m"
    proof (rule chan_invI)
      show "set (issued_of ?s ch) \<subseteq> {1..m}" "range_of (ranges ?s) ch \<subseteq> {1..m}"
        using n m(1) unfolding chan_inv_def own by (auto simp: subset_iff)
      have new: "batch m \<subseteq> {1..m}" "batch m \<inter> set (issued_of s ch) = {}" "batch m \<inter> range_of (ranges s) ch = {}"
        using n m(1) c unfolding chan_inv_def seq_counter_def by (auto simp: batch_def subset_iff)
      have old: "batch k \<subseteq> {1..m}" if "(ch, k) \<in> set (refilled s)" for k
      proof -
        have "{1..n} \<subseteq> {1..m}" using m(1) by simp
        then show ?thesis using chan_inv_batch(1) [OF n that] by blast
      qed
      show "batch k \<subseteq> {1..m}" "batch k \<inter> set (issued_of ?s ch) = {}" "batch k \<inter> range_of (ranges ?s) ch = {}"
        if "(ch, k) \<in> set (refilled ?s)" for k
        using that new old [of k] chan_inv_batch(2,3) [OF n, of k] unfolding own by auto
      show "batch k \<inter> batch k' = {}"
        if "(ch, k) \<in> set (refilled ?s)" "(ch, k') \<in> set (refilled ?s)" "k' \<noteq> k" for k k'
        using that chan_inv_batch(4) [OF n, of k' k] below by auto
    qed (use n m(2) in \<open>simp_all add: own chan_inv_def\<close>)
    then show ?thesis using True by blast
  next
    case False
    obtain k where k: "chan_inv (view (server s)) s c k" using inv by (auto simp: seq_inv_def)
    then have "seq_counter (view r') c k"
      using seq_counter_cong [of "view r'" c "view (server s)"] IncrBy_other [OF doc run False]
      by (simp add: chan_inv_def)
    then show ?thesis using chan_inv_cong [OF own _ _ k, of "view r'" k] False by auto
  qed
  then show ?thesis using inv fresh by (simp add: seq_inv_def)
qed

lemma seq_inv_failed:
  assumes doc: "redis_doc view rd" and inv: "seq_inv view s"
    and run: "IncrBy rd now ch seqBatchSize (server s) = (Inl e, r')"
  shows "seq_inv view (s\<lparr>missed := ms, server := r'\<rparr>)" (is "seq_inv view ?s")
proof -
  have d: "0 \<le> seqBatchSize" "in_int64 seqBatchSize"
    by (simp_all add: seqBatchSize_def in_int64_def int64_max_def int64_min_def)
  have own: "issued_of ?s c = issued_of s c" for c by (simp add: issued_of_def)
  have "\<exists>n. chan_inv (view r') ?s c n" for c
  proof -
    obtain k where k: "chan_inv (view (server s)) s c k" using inv by (auto simp: seq_inv_def)
    then have c: "seq_counter (view (server s)) c k" by (simp add: chan_inv_def)
    have "\<exists>n'. k \<le> n' \<and> seq_counter (view r') c n'"
    proof (cases "c = ch")
      case True
      then show ?thesis using IncrBy_counter [OF doc _ d run] c by blast
    next
      case False
      then show ?thesis
        using c seq_counter_cong [of "view r'" c "view (server s)"] IncrBy_other [OF doc run] by auto
    qed
    then show ?thesis using chan_inv_cong [OF own _ _ k] by auto
  qed
  then show ?thesis using inv by (simp add: seq_inv_def)
qed

lemma seq_inv_others:
  assumes inv: "seq_inv view s"
    and up: "\<And>ch n. seq_counter (view (server s)) ch n \<Longrightarrow> \<exists>n' \<ge> n. seq_counter (view r') ch n'"
  shows "seq_inv view (s\<lparr>server := r'\<rparr>)" (is "seq_inv view ?s")
proof -
  have own: "issued_of ?s c = issued_of s c" for c by (simp add: issued_of_def)
  have "\<exists>n. chan_inv (view r') ?s c n" for c
  proof -
    obtain k where k: "chan_inv (view (server s)) s c k" using inv by (auto simp: seq_inv_def)
    obtain n' where "n' \<ge> k" "seq_counter (view r') c n'" using up [OF chan_inv_counter [OF k]] by blast
    then show ?thesis using chan_inv_cong [OF own _ _ k] by auto
  qed
  then show ?thesis using inv by (simp add: seq_inv_def)
qed

lemma seq_inv_install:
  assumes inv: "seq_inv view s" and m: "(ch, m) \<in> set (refilled s)"
    and inst: "install_range ch m (ranges s) = (seq, rs)"
  shows "seq_inv view (s\<lparr>ranges := rs, refilled := remove1 (ch, m) (refilled s),
      issued := issued s @ [(ch, seq)]\<rparr>)" (is "seq_inv view ?s")
proof -
  have dist: "distinct (refilled s)" using inv by (simp add: seq_inv_def)
  have rem: "set (remove1 (ch, m) (refilled s)) = set (refilled s) - {(ch, m)}" using dist by simp
  have seq: "seq = m - 999" "rs = (ranges s)(ch \<mapsto> \<lparr>next_seq = m - 998, max_seq = m\<rparr>)"
    using inst by (auto simp: install_range_def seqBatchSize_def Let_def)
  have iss: "issued_of ?s c = issued_of s c @ (if ch = c then [seq] else [])" for c
    by (simp add: issued_of_def)
  have new: "range_of rs ch = batch m - {seq}" "seq \<in> batch m"
    by (auto simp: range_of_def batch_def seq)
  have "\<exists>n. chan_inv (view (server s)) ?s c n" for c
  proof -
    obtain n where n: "chan_inv (view (server s)) s c n" using inv by (auto simp: seq_inv_def)
    show ?thesis
    proof (cases "c = ch")
      case True
      note n' = n [unfolded True] and b = chan_inv_batch [OF n [unfolded True] m]
      have "chan_inv (view (server s)) ?s ch n"
      proof (rule chan_invI)
        show "distinct (issued_of ?s ch)" "set (issued_of ?s ch) \<subseteq> {1..n}"
          using n' b(1,2) new(2) unfolding chan_inv_def iss by auto
        show "range_of (ranges ?s) ch \<subseteq> {1..n}" "set (issued_of ?s ch) \<inter> range_of (ranges ?s) ch = {}"
          using b(1,2) unfolding iss by (auto simp: new(1))
        show "batch k \<subseteq> {1..n}" "batch k \<inter> set (issued_of ?s ch) = {}" "batch k \<inter> range_of (ranges ?s) ch = {}"
          if "(ch, k) \<in> set (refilled ?s)" for k
          using that chan_inv_batch(1,2) [OF n', of k] b(4) [of k] new(2) unfolding iss by (auto simp: rem new(1))
        show "batch k \<inter> batch k' = {}"
          if "(ch, k) \<in> set (refilled ?s)" "(ch, k') \<in> set (refilled ?s)" "k' \<noteq> k" for k k'
          using that chan_inv_batch(4) [OF n', of k' k] by (simp add: rem)
      qed (rule chan_inv_counter [OF n'])
      then show ?thesis using True by blast
    next
      case False
      then have "range_of rs c = range_of (ranges s) c" by (simp add: range_of_def seq)
      moreover have "seq_counter (view (server s)) c n" using n by (simp add: chan_inv_def)
      ultimately show ?thesis
        using chan_inv_cong [of ?s c s "view (server s)" n "view (server s)" n] n False iss rem by auto
    qed
  qed
  then show ?thesis using inv by (simp add: seq_inv_def distinct_remove1)
qed

lemma distinct_by_key: "(\<And>k. distinct (filter (\<lambda>p. fst p = k) xs)) \<Longrightarrow> distinct xs"
proof (induction xs)
  case (Cons x xs)
  have "distinct (filter (\<lambda>p. fst p = k) xs)" for k
    using Cons.prems [of k] by (simp split: if_splits)
  moreover have "x \<notin> set xs" using Cons.prems [of "fst x"] by auto
  ultimately show ?case using Cons.IH by simp
qed simp

lemma seq_inv_step:
  assumes doc: "redis_doc view rd"
  shows "seq_step view rd s s' \<Longrightarrow> seq_inv view s \<Longrightarrow> seq_inv view s'"
proof (induction rule: seq_step.induct)
  case (miss ch s)
  then show ?case by (simp add: seq_inv_def chan_inv_def issued_of_def)
qed (simp_all add: seq_inv_hit seq_inv_refill [OF doc] seq_inv_failed [OF doc] seq_inv_install seq_inv_others)

lemma seq_inv_reach:
  assumes "redis_doc view rd" "seq_reach view rd s"
  shows "seq_inv view s"
  using assms(2)
proof (induction rule: seq_reach.induct)
  case (start r)
  then show ?case by (auto simp: seq_inv_def chan_inv_def issued_of_def range_of_def)
next
  case (step s s')
  then show ?case by (blast intro: seq_inv_step [OF assms(1)])
qed

lemma issued_distinct:
  assumes "redis_doc view rd" "seq_reach view rd s"
  shows "distinct (issued s)"
proof (rule distinct_by_key)
  fix ch
  obtain n where "chan_inv (view (server s)) s ch n" using seq_inv_reach [OF assms] by (auto simp: seq_inv_def)
  then show "distinct (filter (\<lambda>p. fst p = ch) (issued s))"
    unfolding chan_inv_def issued_of_def by (auto simp: distinct_map)
qed

lemma issued_counted:
  assumes "redis_doc view rd" "seq_reach view rd s" "(ch, q) \<in> set (issued s)"
  shows "\<exists>n. seq_counter (view (server s)) ch n \<and> 1 \<le> q \<and> q \<le> n"
proof -
  obtain n where n: "chan_inv (view (server s)) s ch n" using seq_inv_reach [OF assms(1,2)] by (auto simp: seq_inv_def)
  have "q \<in> set (issued_of s ch)" using assms(3) by (force simp: issued_of_def)
  then show ?thesis using n unfolding chan_inv_def by (meson atLeastAtMost_iff subsetD)
qed

text \<open>A whole call of \<open>Next\<close> as steps of the interleaved model.\<close>

lemma Next_run:
  assumes "seq_reach view rd \<lparr>ranges = rs, server = r, missed = [], refilled = [], issued = h\<rparr>"
    and "SeqAllocator_Next rd now ch rs r = (out, rs', r')"
  shows "seq_reach view rd \<lparr>ranges = rs', server = r', missed = [], refilled = [],
    issued = h @ (case out of Inl e \<Rightarrow> [] | Inr q \<Rightarrow> [(ch, q)])\<rparr>"
proof (cases "next_local ch rs")
  case None
  have miss: "seq_reach view rd \<lparr>ranges = rs, server = r, missed = [ch], refilled = [], issued = h\<rparr>"
    using seq_reach.step [OF assms(1) seq_step.miss [of ch]] None by simp
  obtain x r1 where i: "IncrBy rd now ch seqBatchSize r = (x, r1)" by fastforce
  show ?thesis
  proof (cases x)
    case (Inl e)
    then show ?thesis
      using seq_reach.step [OF miss seq_step.failed [of ch _ rd now e r1]] i None assms(2)
      by (auto simp: SeqAllocator_Next_def)
  next
    case (Inr m)
    have refilled: "seq_reach view rd \<lparr>ranges = rs, server = r1, missed = [], refilled = [(ch, m)], issued = h\<rparr>"
      using seq_reach.step [OF miss seq_step.refill [of ch _ rd now m r1]] i Inr by simp
    obtain q rs1 where inst: "install_range ch m rs = (q, rs1)" by fastforce
    then show ?thesis
      using seq_reach.step [OF refilled seq_step.install [of ch m _ q rs1]] i Inr None assms(2)
      by (auto simp: SeqAllocator_Next_def)
  qed
next
  case (Some p)
  then show ?thesis
    using seq_reach.step [OF assms(1) seq_step.hit [of ch _ "fst p" "snd p"]] assms(2)
    by (cases p) (auto simp: SeqAllocator_Next_def)
qed

paragraph \<open>Two runs\<close>

definition counter_db :: "int \<Rightarrow> redis_db" where
  "counter_db n = [keySeq ''world'' \<mapsto> (VStr (Sprintf_d n), None)]"

lemma IncrBy_ref:
  "IncrBy ref_redis 0 ''world'' seqBatchSize Map.empty = (Inr 1000, counter_db 1000)"
  "IncrBy ref_redis 0 ''world'' seqBatchSize (counter_db 1000) = (Inr 2000, counter_db 2000)"
  by (simp_all add: IncrBy_def ref_redis_def incr_doc_def live_def seqBatchSize_def counter_db_def
      ParseInt_Sprintf_d in_int64_def int64_max_def int64_min_def)

abbreviation seq_st :: "seq_ranges \<Rightarrow> redis_db \<Rightarrow> string list \<Rightarrow> (string \<times> int) list \<Rightarrow> (string \<times> int) list \<Rightarrow> redis_db seq_state" where
  "seq_st rs db ms rf is \<equiv> \<lparr>ranges = rs, server = db, missed = ms, refilled = rf, issued = is\<rparr>"

lemma seq_start: "seq_reach id ref_redis (seq_st Map.empty Map.empty [] [] [])"
  by (rule seq_reach.start)
    (auto simp: seq_counter_def in_int64_def int64_max_def int64_min_def intro!: exI [of _ 0])

lemma seq_runs:
  assumes "seq_reach id ref_redis (seq_st rs db ms rf out)"
  shows "next_local ch rs = None \<Longrightarrow> seq_reach id ref_redis (seq_st rs db (ch # ms) rf out)"
    "ch \<in> set ms \<Longrightarrow> IncrBy ref_redis 0 ch seqBatchSize db = (Inr m, db') \<Longrightarrow>
       seq_reach id ref_redis (seq_st rs db' (remove1 ch ms) ((ch, m) # rf) out)"
    "(ch, m) \<in> set rf \<Longrightarrow> install_range ch m rs = (q, rs') \<Longrightarrow>
       seq_reach id ref_redis (seq_st rs' db ms (remove1 (ch, m) rf) (out @ [(ch, q)]))"
    "next_local ch rs = Some (q, rs') \<Longrightarrow> seq_reach id ref_redis (seq_st rs' db ms rf (out @ [(ch, q)]))"
  using seq_reach.step [OF assms seq_step.miss [of ch]] seq_reach.step [OF assms seq_step.refill [of ch _ ref_redis 0]]
    seq_reach.step [OF assms seq_step.install [of ch m]] seq_reach.step [OF assms seq_step.hit [of ch]]
  by simp_all

lemma demo_seq_run: "\<exists>s. seq_reach id ref_redis s \<and> issued s = [(''world'', 1), (''world'', 2)]"
proof -
  let ?r1 = "[''world'' \<mapsto> \<lparr>next_seq = 2, max_seq = 1000\<rparr>]" and ?r2 = "[''world'' \<mapsto> \<lparr>next_seq = 3, max_seq = 1000\<rparr>]"
  have "seq_reach id ref_redis (seq_st Map.empty Map.empty [''world''] [] [])"
    using seq_runs(1) [OF seq_start, of "''world''"] by (simp add: next_local_def)
  from seq_runs(2) [OF this _ IncrBy_ref(1)]
  have "seq_reach id ref_redis (seq_st Map.empty (counter_db 1000) [] [(''world'', 1000)] [])" by simp
  from seq_runs(3) [OF this, of "''world''" 1000 1 ?r1]
  have "seq_reach id ref_redis (seq_st ?r1 (counter_db 1000) [] [] [(''world'', 1)])"
    by (simp add: install_range_def seqBatchSize_def)
  from seq_runs(4) [OF this, of "''world''" 2 ?r2] show ?thesis by (fastforce simp: next_local_def)
qed

text \<open>
  Two concurrent refills can install their batches in the opposite order: then a call that starts
  after 1001 has been returned gets 1, and the next one 2.
\<close>

lemma seq_can_decrease: "\<exists>s. seq_reach id ref_redis s \<and> issued s = [(''world'', 1001), (''world'', 1), (''world'', 2)]"
proof -
  let ?w = "''world''"
  let ?r1 = "[?w \<mapsto> \<lparr>next_seq = 1002, max_seq = 2000\<rparr>]" and ?r2 = "[?w \<mapsto> \<lparr>next_seq = 2, max_seq = 1000\<rparr>]"
  and ?r3 = "[?w \<mapsto> \<lparr>next_seq = 3, max_seq = 1000\<rparr>]"
  have "seq_reach id ref_redis (seq_st Map.empty Map.empty [?w] [] [])"
    using seq_runs(1) [OF seq_start, of ?w] by (simp add: next_local_def)
  from seq_runs(1) [OF this, of ?w] have "seq_reach id ref_redis (seq_st Map.empty Map.empty [?w, ?w] [] [])"
    by (simp add: next_local_def)
  from seq_runs(2) [OF this _ IncrBy_ref(1)]
  have "seq_reach id ref_redis (seq_st Map.empty (counter_db 1000) [?w] [(?w, 1000)] [])" by simp
  from seq_runs(2) [OF this _ IncrBy_ref(2)]
  have "seq_reach id ref_redis (seq_st Map.empty (counter_db 2000) [] [(?w, 2000), (?w, 1000)] [])" by simp
  from seq_runs(3) [OF this, of ?w 2000 1001 ?r1]
  have "seq_reach id ref_redis (seq_st ?r1 (counter_db 2000) [] [(?w, 1000)] [(?w, 1001)])"
    by (simp add: install_range_def seqBatchSize_def)
  from seq_runs(3) [OF this, of ?w 1000 1 ?r2]
  have "seq_reach id ref_redis (seq_st ?r2 (counter_db 2000) [] [] [(?w, 1001), (?w, 1)])"
    by (simp add: install_range_def seqBatchSize_def)
  from seq_runs(4) [OF this, of ?w 2 ?r3] show ?thesis by (fastforce simp: next_local_def)
qed

subsection \<open>Properties\<close>



subsection \<open>One caller at a time\<close>

text \<open>
  Successive calls for one channel; before each call other servers may have used the counter.
\<close>

fun next_run :: "'r redis \<Rightarrow> string \<Rightarrow> (int \<times> ('r \<Rightarrow> 'r)) list \<Rightarrow> seq_ranges \<Rightarrow> 'r \<Rightarrow> (err + int) list" where
  "next_run rd ch [] rs r = []"
| "next_run rd ch ((now, other) # calls) rs r =
     (let (out, rs', r') = SeqAllocator_Next rd now ch rs (other r) in out # next_run rd ch calls rs' r')"

definition successes :: "('e + 'a) list \<Rightarrow> 'a list" where
  "successes outs = List.map_filter (\<lambda>out. case out of Inl _ \<Rightarrow> None | Inr q \<Rightarrow> Some q) outs"

lemma successes_simps [simp]:
  "successes [] = []" "successes (Inl e # outs) = successes outs" "successes (Inr q # outs) = q # successes outs"
  by (simp_all add: successes_def map_filter_def)

lemma Next_increases:
  assumes doc: "redis_doc view rd" and c: "seq_counter (view r) ch n" "range_of rs ch \<subseteq> {lo<..n}" "lo \<le> n"
    and run: "SeqAllocator_Next rd now ch rs r = (out, rs', r')"
  shows "\<exists>n' \<ge> n. seq_counter (view r') ch n' \<and>
    (case out of Inl _ \<Rightarrow> rs' = rs | Inr q \<Rightarrow> lo < q \<and> q \<le> n' \<and> range_of rs' ch \<subseteq> {q<..n'})"
proof (cases "next_local ch rs")
  case (Some p)
  then obtain x where x: "rs ch = Some x" "next_seq x \<le> max_seq x"
    "p = (next_seq x, rs(ch \<mapsto> x\<lparr>next_seq := next_seq x + 1\<rparr>))"
    by (auto simp: next_local_def split: option.splits if_splits)
  then have "lo < next_seq x" "max_seq x \<le> n" using c(2) by (auto simp: range_of_def)
  then show ?thesis
    using run c x Some by (auto simp: SeqAllocator_Next_def range_of_def intro!: exI [of _ n])
next
  case None
  have d: "0 \<le> seqBatchSize" "in_int64 seqBatchSize"
    by (simp_all add: seqBatchSize_def in_int64_def int64_max_def int64_min_def)
  obtain out1 r1 where i: "IncrBy rd now ch seqBatchSize r = (out1, r1)" by fastforce
  note ic = IncrBy_counter [OF doc c(1) d i]
  show ?thesis
  proof (cases out1)
    case (Inl e)
    then show ?thesis using run ic None i by (auto simp: SeqAllocator_Next_def)
  next
    case (Inr m)
    then have m: "m = n + 1000" "seq_counter (view r1) ch m" using ic by (auto simp: seqBatchSize_def)
    have o: "out = Inr (n + 1)" "r' = r1" "rs' = rs(ch \<mapsto> \<lparr>next_seq = n + 2, max_seq = m\<rparr>)"
      using run None i Inr m(1) by (auto simp: SeqAllocator_Next_def install_range_def seqBatchSize_def Let_def)
    show ?thesis using m c(3) by (auto simp: o range_of_def intro!: exI [of _ m])
  qed
qed

lemma next_run_increases:
  assumes doc: "redis_doc view rd"
  shows "seq_counter (view r) ch n \<Longrightarrow> range_of rs ch \<subseteq> {lo<..n} \<Longrightarrow> lo \<le> n \<Longrightarrow>
    \<forall>(now, other) \<in> set calls. \<forall>r n. seq_counter (view r) ch n \<longrightarrow> (\<exists>n' \<ge> n. seq_counter (view (other r)) ch n') \<Longrightarrow>
    sorted_wrt (<) (lo # successes (next_run rd ch calls rs r))"
proof (induction calls arbitrary: rs r n lo)
  case (Cons call calls)
  obtain now other where call: "call = (now, other)" by fastforce
  obtain n1 where n1: "n1 \<ge> n" "seq_counter (view (other r)) ch n1" 
    using Cons.prems(1,4) unfolding call by (simp, blast)
  have sub: "range_of rs ch \<subseteq> {lo<..n1}" "lo \<le> n1" using Cons.prems(2,3) n1(1) by auto
  obtain out rs' r' where run: "SeqAllocator_Next rd now ch rs (other r) = (out, rs', r')"
    by (metis prod_cases3)
  obtain n' where n': "n' \<ge> n1" "seq_counter (view r') ch n'"
    "case out of Inl _ \<Rightarrow> rs' = rs | Inr q \<Rightarrow> lo < q \<and> q \<le> n' \<and> range_of rs' ch \<subseteq> {q<..n'}"
    using Next_increases [OF doc n1(2) sub run] by blast
  show ?case
  proof (cases out)
    case (Inl e)
    have "range_of rs' ch \<subseteq> {lo<..n'}" "lo \<le> n'" using Inl n' sub by auto
    from Cons.IH [OF n'(2) this] Cons.prems(4) show ?thesis by (simp add: call run Inl)
  next
    case (Inr q)
    then have q: "lo < q" "q \<le> n'" "range_of rs' ch \<subseteq> {q<..n'}" using n'(3) by auto
    have "sorted_wrt (<) (q # successes (next_run rd ch calls rs' r'))"
      using Cons.IH [OF n'(2) q(3,2)] Cons.prems(4) by simp
    then show ?thesis using q(1) by (fastforce simp: call run Inr)
  qed
qed simp

text \<open>
  C26: without concurrency the numbers increase. A sequence of calls of \<open>Next\<close> for one channel on a
  fresh allocator, one after the other, returns strictly increasing numbers above the counter it
  started from, also when some calls fail and other servers reserve numbers in between.
\<close>

theorem seq_numbers_increase:
  assumes "redis_doc view rd" "seq_counter (view r) ch n"
    and "\<forall>(now, other) \<in> set calls. \<forall>r n. seq_counter (view r) ch n \<longrightarrow>
      (\<exists>n' \<ge> n. seq_counter (view (other r)) ch n')"
  shows "sorted_wrt (<) (n # successes (next_run rd ch calls Map.empty r))"
  using next_run_increases [OF assms(1,2) _ order_refl assms(3), of Map.empty] by (simp add: range_of_def)

theorem seq_numbers_increase_witness:
  "sorted_wrt (<) (0 # successes (next_run ref_redis ''world'' [(0, id), (1, id)] Map.empty Map.empty))"
proof -
  have "seq_counter (id Map.empty) ''world'' 0"
    by (simp add: seq_counter_def in_int64_def int64_max_def int64_min_def)
  from seq_numbers_increase [where view = id, OF ref_redis_doc this, of "[(0, id), (1, id)]"]
  show ?thesis by force
qed

end
