(* ===== verification/Mongo_Store.thy ===== *)
theory Mongo_Store
  imports Errs Pb_Types
begin

text \<open>
  \<open>internal/store/mongo.go\<close> over the driver and the database as a parameter: \<open>mg\<close> is the round trip
  of one driver call with the collection, filter, sort order and options the code passes, as one
  constructor of \<open>mongo_cmd\<close> each. \<open>mongo_doc\<close> is the documented behaviour the code relies on, with
  the unique index on channel and message id that \<open>ensureIndexes\<close> creates. A reply \<open>MErr\<close> is an
  error for which \<open>IsDuplicateKeyError\<close> is false, \<open>MDup\<close> one for which it is true and in which no
  other write failed. Documents that a TTL index removes disappear between calls, as changes by other
  processes do.
\<close>

record message_doc =
  md_MsgID :: int
  md_ChannelID :: string
  md_ChannelType :: int
  md_SenderID :: int
  md_SenderName :: string
  md_Content :: string
  md_MsgType :: int
  md_MsgParam :: "string list"
  md_SendTime :: int
  md_CreatedAt :: int

record offline_doc =
  od_UID :: int
  od_MsgID :: int
  od_ChannelID :: string
  od_Payload :: bytes
  od_CreatedAt :: int

record channel_doc =
  cd_ChannelID :: string
  cd_ChannelType :: int
  cd_CreatedAt :: int
  cd_LastActive :: int

datatype mongo_cmd =
    InsertOneMsg message_doc
  | InsertManyMsgs "message_doc list"
  | FindMsgs string int int
  | InsertOneOffline offline_doc
  | FindOffline int int
  | DeleteManyOffline int
  | UpsertOneChannel channel_doc
  | FindOneChannel string
  | DeleteOneChannel string
  | SetLastActive string int

datatype mongo_reply =
    MOK
  | MDup
  | MErr string
  | MMsgs "message_doc list"
  | MOffline "offline_doc list"
  | MChannel "channel_doc option"

type_synonym 'm mongo = "mongo_cmd \<Rightarrow> 'm \<Rightarrow> mongo_reply \<times> 'm"

subsection \<open>Operations\<close>

fun mongo_err :: "mongo_reply \<Rightarrow> err option" where
  "mongo_err MDup = Some (OtherError ''duplicate key'')"
| "mongo_err (MErr m) = Some (OtherError m)"
| "mongo_err _ = None"

definition bad_mongo_reply :: err where
  "bad_mongo_reply = OtherError ''mongo: unexpected reply''"

definition InsertMessage :: "'m mongo \<Rightarrow> message_doc \<Rightarrow> 'm \<Rightarrow> err option \<times> 'm" where
  "InsertMessage mg doc m =
     (let (rep, m') = mg (InsertOneMsg doc) m in (if rep = MDup then None else mongo_err rep, m'))"

definition InsertMessages :: "'m mongo \<Rightarrow> message_doc list \<Rightarrow> 'm \<Rightarrow> err option \<times> 'm" where
  "InsertMessages mg docs m =
     (if docs = [] then (None, m)
      else let (rep, m') = mg (InsertManyMsgs docs) m in (if rep = MDup then None else mongo_err rep, m'))"

definition QueryMessages :: "'m mongo \<Rightarrow> string \<Rightarrow> int \<Rightarrow> int \<Rightarrow> 'm \<Rightarrow> (err + message_doc list) \<times> 'm" where
  "QueryMessages mg channelID lastMsgID limit m =
     (case mg (FindMsgs channelID lastMsgID limit) m of
        (MMsgs docs, m') \<Rightarrow> (Inr docs, m')
      | (MErr e, m') \<Rightarrow> (Inl (OtherError e), m')
      | (_, m') \<Rightarrow> (Inl bad_mongo_reply, m'))"

definition InsertOfflineMessage :: "'m mongo \<Rightarrow> offline_doc \<Rightarrow> 'm \<Rightarrow> err option \<times> 'm" where
  "InsertOfflineMessage mg doc m = (let (rep, m') = mg (InsertOneOffline doc) m in (mongo_err rep, m'))"

definition GetOfflineMessages :: "'m mongo \<Rightarrow> int \<Rightarrow> int \<Rightarrow> 'm \<Rightarrow> (err + offline_doc list) \<times> 'm" where
  "GetOfflineMessages mg uid limit m =
     (case mg (FindOffline uid limit) m of
        (MOffline docs, m') \<Rightarrow> (Inr docs, m')
      | (MErr e, m') \<Rightarrow> (Inl (OtherError e), m')
      | (_, m') \<Rightarrow> (Inl bad_mongo_reply, m'))"

definition DeleteOfflineMessages :: "'m mongo \<Rightarrow> int \<Rightarrow> 'm \<Rightarrow> err option \<times> 'm" where
  "DeleteOfflineMessages mg uid m = (let (rep, m') = mg (DeleteManyOffline uid) m in (mongo_err rep, m'))"

definition UpsertChannel :: "'m mongo \<Rightarrow> channel_doc \<Rightarrow> 'm \<Rightarrow> err option \<times> 'm" where
  "UpsertChannel mg doc m = (let (rep, m') = mg (UpsertOneChannel doc) m in (mongo_err rep, m'))"

definition GetChannel :: "'m mongo \<Rightarrow> string \<Rightarrow> 'm \<Rightarrow> (err + channel_doc option) \<times> 'm" where
  "GetChannel mg channelID m =
     (case mg (FindOneChannel channelID) m of
        (MChannel d, m') \<Rightarrow> (Inr d, m')
      | (MErr e, m') \<Rightarrow> (Inl (OtherError e), m')
      | (_, m') \<Rightarrow> (Inl bad_mongo_reply, m'))"

definition Mongo_DeleteChannel :: "'m mongo \<Rightarrow> string \<Rightarrow> 'm \<Rightarrow> err option \<times> 'm" where
  "Mongo_DeleteChannel mg channelID m =
     (let (rep, m') = mg (DeleteOneChannel channelID) m in (mongo_err rep, m'))"

definition UpdateChannelLastActive :: "'m mongo \<Rightarrow> int \<Rightarrow> string \<Rightarrow> 'm \<Rightarrow> err option \<times> 'm" where
  "UpdateChannelLastActive mg now channelID m =
     (let (rep, m') = mg (SetLastActive channelID now) m in (mongo_err rep, m'))"

subsection \<open>Documented behaviour\<close>

record mongo_db =
  mdb_messages :: "message_doc list"
  mdb_offline :: "offline_doc list"
  mdb_channels :: "string \<rightharpoonup> channel_doc"

definition same_id :: "message_doc \<Rightarrow> message_doc \<Rightarrow> bool" where
  "same_id a b \<longleftrightarrow> md_ChannelID a = md_ChannelID b \<and> md_MsgID a = md_MsgID b"

definition insert_doc :: "message_doc \<Rightarrow> message_doc list \<Rightarrow> message_doc list" where
  "insert_doc d ds = (if \<exists>x \<in> set ds. same_id x d then ds else ds @ [d])"

definition find_limit :: "int \<Rightarrow> 'a list \<Rightarrow> 'a list" where
  "find_limit limit xs = (if limit = 0 then xs else take (nat \<bar>limit\<bar>) xs)"

fun mongo_cmd_doc :: "mongo_cmd \<Rightarrow> mongo_db \<Rightarrow> mongo_reply \<times> mongo_db" where
  "mongo_cmd_doc (InsertOneMsg d) db =
     (if \<exists>x \<in> set (mdb_messages db). same_id x d then MDup else MOK,
      db\<lparr>mdb_messages := insert_doc d (mdb_messages db)\<rparr>)"
| "mongo_cmd_doc (InsertManyMsgs ds) db =
     (let all = fold insert_doc ds (mdb_messages db)
      in (if length all = length (mdb_messages db) + length ds then MOK else MDup,
          db\<lparr>mdb_messages := all\<rparr>))"
| "mongo_cmd_doc (FindMsgs ch lastId limit) db =
     (MMsgs (find_limit limit
        (sort_key md_MsgID (filter (\<lambda>d. md_ChannelID d = ch \<and> md_MsgID d > lastId) (mdb_messages db)))), db)"
| "mongo_cmd_doc (InsertOneOffline d) db = (MOK, db\<lparr>mdb_offline := mdb_offline db @ [d]\<rparr>)"
| "mongo_cmd_doc (FindOffline uid limit) db =
     (MOffline (find_limit limit (sort_key od_CreatedAt (filter (\<lambda>d. od_UID d = uid) (mdb_offline db)))), db)"
| "mongo_cmd_doc (DeleteManyOffline uid) db =
     (MOK, db\<lparr>mdb_offline := filter (\<lambda>d. od_UID d \<noteq> uid) (mdb_offline db)\<rparr>)"
| "mongo_cmd_doc (UpsertOneChannel d) db =
     (MOK, db\<lparr>mdb_channels := (mdb_channels db)(cd_ChannelID d \<mapsto> d)\<rparr>)"
| "mongo_cmd_doc (FindOneChannel ch) db = (MChannel (mdb_channels db ch), db)"
| "mongo_cmd_doc (DeleteOneChannel ch) db = (MOK, db\<lparr>mdb_channels := (mdb_channels db)(ch := None)\<rparr>)"
| "mongo_cmd_doc (SetLastActive ch t) db =
     (MOK, db\<lparr>mdb_channels := (mdb_channels db)(ch := map_option (\<lambda>d. d\<lparr>cd_LastActive := t\<rparr>) (mdb_channels db ch))\<rparr>)"

text \<open>
  After an error the call may have been carried out, not at all or, for an unordered bulk insert, for
  some of the documents.
\<close>

definition mongo_partial :: "mongo_cmd \<Rightarrow> mongo_db \<Rightarrow> mongo_db \<Rightarrow> bool" where
  "mongo_partial cmd db db' \<longleftrightarrow>
     db' = db \<or> db' = snd (mongo_cmd_doc cmd db) \<or>
     (\<exists>ds ds'. cmd = InsertManyMsgs ds \<and> set ds' \<subseteq> set ds \<and> db' = snd (mongo_cmd_doc (InsertManyMsgs ds') db))"

definition mongo_doc :: "('m \<Rightarrow> mongo_db) \<Rightarrow> 'm mongo \<Rightarrow> bool" where
  "mongo_doc mview mg \<longleftrightarrow>
     (\<forall>cmd m rep m'. mg cmd m = (rep, m') \<longrightarrow>
        (case rep of
           MErr _ \<Rightarrow> mongo_partial cmd (mview m) (mview m')
         | _ \<Rightarrow> (rep, mview m') = mongo_cmd_doc cmd (mview m)))"

definition ref_mongo :: "mongo_db mongo" where
  "ref_mongo cmd db = mongo_cmd_doc cmd db"

lemma ref_mongo_doc: "mongo_doc id ref_mongo"
proof -
  have "case rep of MErr e \<Rightarrow> mongo_partial cmd db db' | _ \<Rightarrow> (rep, db') = mongo_cmd_doc cmd db"
    if "mongo_cmd_doc cmd db = (rep, db')" for cmd db rep db'
    using that by (cases cmd) (auto simp: Let_def split: if_splits)
  then show ?thesis by (simp add: mongo_doc_def ref_mongo_def)
qed

lemma mongo_doc_ok:
  assumes "mongo_doc mview mg" "mg cmd m = (rep, m')" "\<And>e. rep \<noteq> MErr e"
  shows "(rep, mview m') = mongo_cmd_doc cmd (mview m)"
  using assms unfolding mongo_doc_def by (cases rep) fastforce+

subsection \<open>Stored messages\<close>

lemma insert_doc_superset: "set ds \<subseteq> set (insert_doc d ds)"
  by (auto simp: insert_doc_def)

lemma insert_doc_has: "\<exists>x \<in> set (insert_doc d ds). same_id x d"
  by (auto simp: insert_doc_def same_id_def)

lemma fold_insert_superset: "set ds \<subseteq> set (fold insert_doc new ds)"
  by (induction new arbitrary: ds) (use insert_doc_superset in \<open>fastforce+\<close>)

lemma fold_insert_has: "d \<in> set new \<Longrightarrow> \<exists>x \<in> set (fold insert_doc new ds). same_id x d"
proof (induction new arbitrary: ds)
  case (Cons e new)
  then show ?case
    using insert_doc_has [of e ds] fold_insert_superset [of "insert_doc e ds" new] by auto
qed simp

lemma fold_insert_fresh:
  "d \<in> set new \<Longrightarrow> \<forall>x \<in> set ds. \<not> same_id x d \<Longrightarrow> \<forall>x \<in> set new. same_id x d \<longrightarrow> x = d \<Longrightarrow>
     d \<in> set (fold insert_doc new ds)"
proof (induction new arbitrary: ds)
  case (Cons e new)
  show ?case
  proof (cases "e = d")
    case True
    then have "d \<in> set (insert_doc e ds)" using Cons.prems(2) by (auto simp: insert_doc_def)
    then show ?thesis using fold_insert_superset by fastforce
  next
    case False
    then have "\<forall>x \<in> set (insert_doc e ds). \<not> same_id x d" using Cons.prems by (auto simp: insert_doc_def)
    then show ?thesis using Cons False by simp
  qed
qed simp

definition ids_unique :: "message_doc list \<Rightarrow> bool" where
  "ids_unique ds \<longleftrightarrow> distinct (map (\<lambda>d. (md_ChannelID d, md_MsgID d)) ds)"

lemma ids_unique_insert: "ids_unique ds \<Longrightarrow> ids_unique (insert_doc d ds)"
  by (auto simp: ids_unique_def insert_doc_def same_id_def)

lemma ids_unique_fold: "ids_unique ds \<Longrightarrow> ids_unique (fold insert_doc new ds)"
  by (induction new arbitrary: ds) (simp_all add: ids_unique_insert)

end
