(* ===== verification/Services.thy ===== *)
theory Services
  imports Redis_Cache Mongo_Store
begin

text \<open>
  The services over the stores: \<open>internal/service/ban.go\<close>, \<open>presence.go\<close>, \<open>channel.go\<close> and the
  two adapters of \<open>adapter.go\<close>. Logging is left out. The channel service changes both stores; its
  operations take and return the pair of the Redis and the Mongo state.
\<close>

subsection \<open>Bans\<close>

definition BanService_Ban :: "'r redis \<Rightarrow> int \<Rightarrow> int \<Rightarrow> int \<Rightarrow> string \<Rightarrow> 'r \<Rightarrow> err option \<times> 'r" where
  "BanService_Ban rd now uid duration reason r = SetBan rd now uid duration reason r"

definition BanService_Unban :: "'r redis \<Rightarrow> int \<Rightarrow> int \<Rightarrow> 'r \<Rightarrow> err option \<times> 'r" where
  "BanService_Unban rd now uid r = DeleteBan rd now uid r"

definition BanService_IsBanned :: "'r redis \<Rightarrow> int \<Rightarrow> int \<Rightarrow> 'r \<Rightarrow> (err + bool \<times> int) \<times> 'r" where
  "BanService_IsBanned rd now uid r = IsBanned rd now uid r"

subsection \<open>Presence\<close>

record presence =
  ps_UID :: int
  ps_GatewayNodeID :: string
  ps_ConnID :: string
  ps_Status :: string
  ps_LastSeen :: int

definition SetOnline :: "'r redis \<Rightarrow> int \<Rightarrow> int \<Rightarrow> string \<Rightarrow> string \<Rightarrow> 'r \<Rightarrow> err option \<times> 'r" where
  "SetOnline rd now uid nodeID connID r =
     SetPresence rd now uid
       \<lparr>pd_GatewayNodeID = nodeID, pd_ConnID = connID, pd_Status = ''online'', pd_LastSeen = now\<rparr> r"

definition SetOffline :: "'r redis \<Rightarrow> int \<Rightarrow> int \<Rightarrow> 'r \<Rightarrow> err option \<times> 'r" where
  "SetOffline rd now uid r = DeletePresence rd now uid r"

definition presence_of_data :: "int \<Rightarrow> presence_data \<Rightarrow> presence" where
  "presence_of_data uid data =
     \<lparr>ps_UID = uid, ps_GatewayNodeID = pd_GatewayNodeID data, ps_ConnID = pd_ConnID data,
      ps_Status = pd_Status data, ps_LastSeen = pd_LastSeen data\<rparr>"

definition PresenceService_GetPresence ::
  "'r redis \<Rightarrow> int \<Rightarrow> int \<Rightarrow> 'r \<Rightarrow> (err + presence option) \<times> 'r" where
  "PresenceService_GetPresence rd now uid r =
     (case GetPresence rd now uid r of
        (Inl e, r') \<Rightarrow> (Inl e, r')
      | (Inr None, r') \<Rightarrow> (Inr None, r')
      | (Inr (Some data), r') \<Rightarrow> (Inr (Some (presence_of_data uid data)), r'))"

definition PresenceService_BatchGetPresence ::
  "'r redis \<Rightarrow> int \<Rightarrow> int list \<Rightarrow> 'r \<Rightarrow> (err + (int \<rightharpoonup> presence)) \<times> 'r" where
  "PresenceService_BatchGetPresence rd now uids r =
     (case BatchGetPresence rd now uids r of
        (Inl e, r') \<Rightarrow> (Inl e, r')
      | (Inr dataMap, r') \<Rightarrow> (Inr (\<lambda>uid. map_option (presence_of_data uid) (dataMap uid)), r'))"

definition RefreshTTL :: "'r redis \<Rightarrow> int \<Rightarrow> int \<Rightarrow> 'r \<Rightarrow> err option \<times> 'r" where
  "RefreshTTL rd now uid r = RefreshPresenceTTL rd now uid r"

record presence_info =
  pi_UID :: int
  pi_GatewayNodeID :: string
  pi_ConnID :: string
  pi_Status :: string

definition PresenceAdapter_BatchGetPresence ::
  "'r redis \<Rightarrow> int \<Rightarrow> int list \<Rightarrow> 'r \<Rightarrow> (err + (int \<rightharpoonup> presence_info)) \<times> 'r" where
  "PresenceAdapter_BatchGetPresence rd now uids r =
     (case PresenceService_BatchGetPresence rd now uids r of
        (Inl e, r') \<Rightarrow> (Inl e, r')
      | (Inr presences, r') \<Rightarrow>
          (Inr (\<lambda>uid. map_option
             (\<lambda>p. \<lparr>pi_UID = ps_UID p, pi_GatewayNodeID = ps_GatewayNodeID p, pi_ConnID = ps_ConnID p,
                   pi_Status = ps_Status p\<rparr>) (presences uid)), r'))"

subsection \<open>Channels\<close>

record channel =
  ch_ChannelID :: string
  ch_ChannelType :: int
  ch_CreatedAt :: int
  ch_LastActive :: int

definition CreateChannel ::
  "channel_state codec \<Rightarrow> 'r redis \<Rightarrow> 'm mongo \<Rightarrow> int \<Rightarrow> channel \<Rightarrow> 'r \<times> 'm \<Rightarrow> err option \<times> 'r \<times> 'm" where
  "CreateChannel js rd mg now ch = (\<lambda>(r, m).
     case SetChannelState js rd now
            \<lparr>cs_ChannelID = ch_ChannelID ch, cs_ChannelType = ch_ChannelType ch,
             cs_CreatedAt = now, cs_LastActive = now\<rparr> r of
       (Some e, r') \<Rightarrow> (Some e, r', m)
     | (None, r') \<Rightarrow>
         (let (e, m') = UpsertChannel mg
            \<lparr>cd_ChannelID = ch_ChannelID ch, cd_ChannelType = ch_ChannelType ch,
             cd_CreatedAt = now, cd_LastActive = now\<rparr> m
          in (e, r', m')))"

definition ChannelService_DeleteChannel ::
  "'r redis \<Rightarrow> 'm mongo \<Rightarrow> int \<Rightarrow> string \<Rightarrow> 'r \<times> 'm \<Rightarrow> err option \<times> 'r \<times> 'm" where
  "ChannelService_DeleteChannel rd mg now channelID = (\<lambda>(r, m).
     case DeleteChannelState rd now channelID r of
       (Some e, r') \<Rightarrow> (Some e, r', m)
     | (None, r') \<Rightarrow> (let (e, m') = Mongo_DeleteChannel mg channelID m in (e, r', m')))"

definition JoinChannel ::
  "channel_state codec \<Rightarrow> 'r redis \<Rightarrow> int \<Rightarrow> int \<Rightarrow> string \<Rightarrow> 'r \<Rightarrow> err option \<times> 'r" where
  "JoinChannel js rd now uid channelID r =
     (case GetChannelState js rd now channelID r of
        (Inl e, r1) \<Rightarrow> (Some e, r1)
      | (Inr None, r1) \<Rightarrow> (Some ErrChannelNotFound, r1)
      | (Inr (Some state), r1) \<Rightarrow>
          (case AddChannelMember rd now channelID uid r1 of
             (Some e, r2) \<Rightarrow> (Some e, r2)
           | (None, r2) \<Rightarrow> AddUserChannel rd now uid channelID r2))"

definition LeaveChannel :: "'r redis \<Rightarrow> int \<Rightarrow> int \<Rightarrow> string \<Rightarrow> 'r \<Rightarrow> err option \<times> 'r" where
  "LeaveChannel rd now uid channelID r =
     (case RemoveChannelMember rd now channelID uid r of
        (Some e, r1) \<Rightarrow> (Some e, r1)
      | (None, r1) \<Rightarrow> RemoveUserChannel rd now uid channelID r1)"

definition ChannelService_GetMembers ::
  "channel_state codec \<Rightarrow> 'r redis \<Rightarrow> int \<Rightarrow> string \<Rightarrow> 'r \<Rightarrow> (err + int list) \<times> 'r" where
  "ChannelService_GetMembers js rd now channelID r =
     (case GetChannelState js rd now channelID r of
        (Inl e, r1) \<Rightarrow> (Inl e, r1)
      | (Inr state, r1) \<Rightarrow>
          (case state of
             Some st \<Rightarrow> if cs_ChannelType st = CHANNEL_TYPE_WORLD then (Inr [], r1)
                        else GetChannelMembers rd now channelID r1
           | None \<Rightarrow> GetChannelMembers rd now channelID r1))"

definition ChannelService_GetUserChannels ::
  "'r redis \<Rightarrow> int \<Rightarrow> int \<Rightarrow> 'r \<Rightarrow> (err + string list) \<times> 'r" where
  "ChannelService_GetUserChannels rd now uid r = GetUserChannels rd now uid r"

definition IsAvailable :: "'r redis \<Rightarrow> int \<Rightarrow> int \<Rightarrow> 'r \<Rightarrow> (err + bool) \<times> 'r" where
  "IsAvailable rd now channelType r = IsChannelAvailable rd now channelType r"

definition ChannelAdapter_GetMembers ::
  "channel_state codec \<Rightarrow> 'r redis \<Rightarrow> int \<Rightarrow> string \<Rightarrow> 'r \<Rightarrow> (err + int list) \<times> 'r" where
  "ChannelAdapter_GetMembers js rd now channelID r = ChannelService_GetMembers js rd now channelID r"

subsection \<open>Presence through the service\<close>

lemma PresenceAdapter_ok:
  assumes "PresenceAdapter_BatchGetPresence rd now uids r = (Inr pm, r')"
  shows "\<exists>dm. BatchGetPresence rd now uids r = (Inr dm, r') \<and>
    (\<forall>uid. pm uid = map_option
       (\<lambda>d. \<lparr>pi_UID = uid, pi_GatewayNodeID = pd_GatewayNodeID d, pi_ConnID = pd_ConnID d,
             pi_Status = pd_Status d\<rparr>) (dm uid))"
proof -
  obtain x s where b: "BatchGetPresence rd now uids r = (x, s)" by fastforce
  show ?thesis
    using assms
    by (cases x)
      (auto simp: PresenceAdapter_BatchGetPresence_def PresenceService_BatchGetPresence_def b
         presence_of_data_def option.map_comp comp_def)
qed

lemma BatchGetPresence_read:
  "redis_doc view rd \<Longrightarrow> BatchGetPresence rd now uids r = (x, r') \<Longrightarrow> view r' = view r"
  using pipe_read [of view rd now "map (\<lambda>uid. HGETALL (keyPresence uid)) uids" r]
  by (auto simp: BatchGetPresence_def split: if_splits prod.splits option.splits)

subsection \<open>The channel directory\<close>

text \<open>
  The abstract model of the channel service: which channels exist, of which type and until when,
  and who is a member of what. Deleting a channel does not touch its members.
\<close>

datatype chan_op = OpCreate channel | OpDelete string | OpJoin int string | OpLeave int string

record directory =
  dir_chans :: "string \<rightharpoonup> int \<times> int"
  joined :: "(string \<times> int) set"

definition exists_at :: "int \<Rightarrow> directory \<Rightarrow> string \<Rightarrow> bool" where
  "exists_at now d cid \<longleftrightarrow> (\<exists>ty e. dir_chans d cid = Some (ty, e) \<and> now \<le> e)"

fun chan_spec :: "int \<Rightarrow> chan_op \<Rightarrow> directory \<Rightarrow> err option \<times> directory" where
  "chan_spec now (OpCreate ch) d =
     (None, d\<lparr>dir_chans := (dir_chans d)(ch_ChannelID ch \<mapsto> (ch_ChannelType ch, now + channelStateTTL))\<rparr>)"
| "chan_spec now (OpDelete cid) d = (None, d\<lparr>dir_chans := (dir_chans d)(cid := None)\<rparr>)"
| "chan_spec now (OpJoin uid cid) d =
     (if exists_at now d cid then (None, d\<lparr>joined := insert (cid, uid) (joined d)\<rparr>)
      else (Some ErrChannelNotFound, d))"
| "chan_spec now (OpLeave uid cid) d = (None, d\<lparr>joined := joined d - {(cid, uid)}\<rparr>)"

fun chan_exec ::
  "channel_state codec \<Rightarrow> 'r redis \<Rightarrow> 'm mongo \<Rightarrow> int \<Rightarrow> chan_op \<Rightarrow> 'r \<times> 'm \<Rightarrow> err option \<times> 'r \<times> 'm" where
  "chan_exec js rd mg now (OpCreate ch) s = CreateChannel js rd mg now ch s"
| "chan_exec js rd mg now (OpDelete cid) s = ChannelService_DeleteChannel rd mg now cid s"
| "chan_exec js rd mg now (OpJoin uid cid) s =
     (let (e, r') = JoinChannel js rd now uid cid (fst s) in (e, r', snd s))"
| "chan_exec js rd mg now (OpLeave uid cid) s =
     (let (e, r') = LeaveChannel rd now uid cid (fst s) in (e, r', snd s))"

text \<open>A run stops when a store fails; a join of a channel that does not exist is not a failure.\<close>

fun chan_run ::
  "channel_state codec \<Rightarrow> 'r redis \<Rightarrow> 'm mongo \<Rightarrow> (int \<times> chan_op) list \<Rightarrow> 'r \<times> 'm \<Rightarrow>
     (err option list \<times> 'r \<times> 'm) option" where
  "chan_run js rd mg [] s = Some ([], s)"
| "chan_run js rd mg ((now, op) # ops) s =
     (case chan_exec js rd mg now op s of
        (e, s') \<Rightarrow>
          if e = None \<or> e = Some ErrChannelNotFound
          then map_option (\<lambda>(es, s''). (e # es, s'')) (chan_run js rd mg ops s') else None)"

fun chan_spec_run :: "(int \<times> chan_op) list \<Rightarrow> directory \<Rightarrow> err option list \<times> directory" where
  "chan_spec_run [] d = ([], d)"
| "chan_spec_run ((now, op) # ops) d =
     (let (e, d') = chan_spec now op d; (es, d'') = chan_spec_run ops d' in (e # es, d''))"

text \<open>What the code relies on of \<open>encoding/json\<close>: the channel type survives.\<close>

definition js_doc :: "channel_state codec \<Rightarrow> bool" where
  "js_doc js \<longleftrightarrow> (\<forall>st data. fst js st = Some data \<longrightarrow>
     (\<exists>st'. snd js data = Some st' \<and> cs_ChannelType st' = cs_ChannelType st))"

definition state_abs :: "channel_state codec \<Rightarrow> redis_db \<Rightarrow> string \<Rightarrow> (int \<times> int) option \<Rightarrow> bool" where
  "state_abs js db cid t \<longleftrightarrow>
     (case t of
        None \<Rightarrow> db (keyChannelState cid) = None
      | Some (ty, e) \<Rightarrow> \<exists>s st. db (keyChannelState cid) = Some (VStr s, Some e) \<and>
          snd js (bytes_of_string s) = Some st \<and> cs_ChannelType st = ty)"

definition dir_abs :: "channel_state codec \<Rightarrow> redis_db \<Rightarrow> directory \<Rightarrow> bool" where
  "dir_abs js db d \<longleftrightarrow>
     (\<forall>cid. state_abs js db cid (dir_chans d cid)) \<and>
     (\<forall>cid. members_abs db cid {uid. (cid, uid) \<in> joined d})"

lemma state_abs_cong:
  "db' (keyChannelState cid) = db (keyChannelState cid) \<Longrightarrow> state_abs js db' cid t = state_abs js db cid t"
  by (cases t) (auto simp: state_abs_def)

lemma members_abs_cong:
  "db' (channelMembersKey cid) = db (channelMembersKey cid) \<Longrightarrow> members_abs db' cid S = members_abs db cid S"
  by (simp add: members_abs_def)

lemma dir_abs_cong:
  assumes "dir_abs js db d" "\<And>cid. db' (keyChannelState cid) = db (keyChannelState cid)"
    "\<And>cid. db' (channelMembersKey cid) = db (channelMembersKey cid)"
  shows "dir_abs js db' d"
  using assms(1) state_abs_cong [of db' _ db, OF assms(2)] members_abs_cong [of db' _ db, OF assms(3)] by (simp add: dir_abs_def)

lemma dir_keys [key_simps]:
  "keyChannelState a \<noteq> channelMembersKey b" "channelMembersKey b \<noteq> keyChannelState a"
  "keyUserChannels u \<noteq> keyChannelState a" "keyChannelState a \<noteq> keyUserChannels u"
  "keyUserChannels u \<noteq> channelMembersKey a" "channelMembersKey a \<noteq> keyUserChannels u"
  "keyChannelState a = keyChannelState b \<longleftrightarrow> a = b" "channelMembersKey a = channelMembersKey b \<longleftrightarrow> a = b"
  using redis_key_eq [of "KChannelState a" "KMembers b"] redis_key_eq [of "KUserChannels u" "KChannelState a"]
    redis_key_eq [of "KUserChannels u" "KMembers a"] redis_key_eq [of "KChannelState a" "KChannelState b"]
    redis_key_eq [of "KMembers a" "KMembers b"] by auto

lemma GetChannelState_ok:
  assumes doc: "redis_doc view rd" and abs: "dir_abs js (view r) d"
    and run: "GetChannelState js rd now cid r = (Inr st, r')"
  shows "view r' = view r \<and> (st \<noteq> None \<longleftrightarrow> exists_at now d cid) \<and>
    (\<forall>x. st = Some x \<longrightarrow> dir_chans d cid = Some (cs_ChannelType x, snd (the (dir_chans d cid))))"
proof -
  obtain rep s where g: "rd now (GET (keyChannelState cid)) r = (rep, s)" by fastforce
  have s: "s = r'" and ok: "cmd_err rep = None"
    using run by (cases rep; simp add: GetChannelState_def g split: option.splits)+
  have v: "view r' = view r" using redis_doc_read [OF doc g] by (simp add: s)
  have a: "state_abs js (view r) cid (dir_chans d cid)" using abs by (simp add: dir_abs_def)
  note rep = redis_doc_ok(1) [OF doc g ok]
  show ?thesis
  proof (cases "dir_chans d cid")
    case None
    then have "rep = RNil" using rep a by (cases rep) (simp_all add: state_abs_def live_def)
    then show ?thesis using run v None by (simp add: GetChannelState_def g exists_at_def)
  next
    case (Some te)
    obtain ty e where te: "te = (ty, e)" by fastforce
    obtain x stt where x: "view r (keyChannelState cid) = Some (VStr x, Some e)"
      "snd js (bytes_of_string x) = Some stt" "cs_ChannelType stt = ty"
      using a Some te by (auto simp: state_abs_def)
    have "rep = (if now \<le> e then RBulk x else RNil)"
      using rep x(1) by (cases rep) (simp_all add: live_def split: if_splits)
    then have "st = (if now \<le> e then Some stt else None)"
      using run x(2) by (simp add: GetChannelState_def g split: if_splits)
    then show ?thesis using v Some te x(3) by (simp add: exists_at_def)
  qed
qed

lemma SetChannelState_refines:
  assumes doc: "redis_doc view rd" and js: "js_doc js" and abs: "dir_abs js (view r) d"
    and run: "SetChannelState js rd now st r = (None, r')"
  shows "dir_abs js (view r')
    (d\<lparr>dir_chans := (dir_chans d)(cs_ChannelID st \<mapsto> (cs_ChannelType st, now + channelStateTTL))\<rparr>)"
proof -
  obtain data where data: "fst js st = Some data"
    using run by (cases "fst js st") (auto simp: SetChannelState_def)
  obtain st' where st': "snd js data = Some st'" "cs_ChannelType st' = cs_ChannelType st"
    using js data by (auto simp: js_doc_def)
  let ?cmd = "SET (keyChannelState (cs_ChannelID st)) (string_of_bytes data) channelStateTTL"
  obtain rep where c: "rd now ?cmd r = (rep, r')" "cmd_err rep = None"
    using run cmd_ok [of "rd now ?cmd r"] by (auto simp: SetChannelState_def data)
  have v: "view r' = (view r)(keyChannelState (cs_ChannelID st) \<mapsto>
      (VStr (string_of_bytes data), Some (now + channelStateTTL)))"
    using redis_doc_ok(2) [OF doc c] by (simp add: channelStateTTL_def)
  have "state_abs js (view r') cid
      (((dir_chans d)(cs_ChannelID st \<mapsto> (cs_ChannelType st, now + channelStateTTL))) cid)" for cid
  proof (cases "cid = cs_ChannelID st")
    case False
    then have "view r' (keyChannelState cid) = view r (keyChannelState cid)" by (simp add: v key_simps)
    from state_abs_cong [of "view r'" _ "view r", OF this] False abs show ?thesis by (simp add: dir_abs_def)
  qed (simp add: state_abs_def v st')
  moreover have "members_abs (view r') cid S = members_abs (view r) cid S" for cid S
    by (rule members_abs_cong) (simp add: v key_simps)
  ultimately show ?thesis using abs by (simp add: dir_abs_def)
qed

lemma DeleteChannelState_refines:
  assumes doc: "redis_doc view rd" and abs: "dir_abs js (view r) d"
    and run: "DeleteChannelState rd now cid r = (None, r')"
  shows "dir_abs js (view r') (d\<lparr>dir_chans := (dir_chans d)(cid := None)\<rparr>)"
proof -
  obtain rep where c: "rd now (DEL (keyChannelState cid)) r = (rep, r')" "cmd_err rep = None"
    using run cmd_ok [of "rd now (DEL (keyChannelState cid)) r"] by (auto simp: DeleteChannelState_def)
  have v: "view r' = (view r)(keyChannelState cid := None)"
    using redis_doc_ok(2) [OF doc c] by simp
  have "state_abs js (view r') c' (((dir_chans d)(cid := None)) c')" for c'
  proof (cases "c' = cid")
    case False
    then have "view r' (keyChannelState c') = view r (keyChannelState c')" by (simp add: v key_simps)
    from state_abs_cong [of "view r'" _ "view r", OF this] False abs show ?thesis by (simp add: dir_abs_def)
  qed (simp add: state_abs_def v)
  moreover have "members_abs (view r') c' S = members_abs (view r) c' S" for c' S
    by (rule members_abs_cong) (simp add: v key_simps)
  ultimately show ?thesis using abs by (simp add: dir_abs_def)
qed

text \<open>A change of one channel's member set.\<close>

lemma members_change:
  assumes doc: "redis_doc view rd" and abs: "dir_abs js (view r) d"
    and run: "member_exec rd cid (now, op) r = (None, r')" and uid: "in_int64 (op_uid op)"
    and M: "\<And>c. {u. (c, u) \<in> M} =
      (if c = cid then member_spec op {u. (c, u) \<in> joined d} else {u. (c, u) \<in> joined d})"
  shows "dir_abs js (view r') (d\<lparr>joined := M\<rparr>)"
proof -
  have frame: "view r' k = view r k" if "k \<noteq> channelMembersKey cid" for k
  proof -
    have "\<exists>cmd rep. rd now cmd r = (rep, r') \<and> cmd_key cmd = channelMembersKey cid"
      using run by (cases op) (auto simp: AddChannelMember_def RemoveChannelMember_def split: prod.splits)
    then show ?thesis using redis_doc_frame [OF doc] that by metis
  qed
  have "members_abs (view r') c {u. (c, u) \<in> M}" for c
  proof (cases "c = cid")
    case True
    then show ?thesis using member_exec_refines [OF doc _ run uid] abs M by (simp add: dir_abs_def)
  next
    case False
    then have "view r' (channelMembersKey c) = view r (channelMembersKey c)" using frame by (simp add: key_simps)
    from members_abs_cong [of "view r'" _ "view r", OF this] abs M False show ?thesis by (simp add: dir_abs_def)
  qed
  moreover have "state_abs js (view r') c t = state_abs js (view r) c t" for c t
    by (rule state_abs_cong) (simp add: frame key_simps)
  ultimately show ?thesis using abs by (simp add: dir_abs_def)
qed

text \<open>The index of a user's channels is no part of the directory.\<close>

lemma index_frame:
  assumes doc: "redis_doc view rd" and abs: "dir_abs js (view r) d"
  shows "AddUserChannel rd now uid cid r = (e, r') \<Longrightarrow> dir_abs js (view r') d"
    "RemoveUserChannel rd now uid cid r = (e, r') \<Longrightarrow> dir_abs js (view r') d"
proof -
  assume "AddUserChannel rd now uid cid r = (e, r')"
  then obtain reps where "pipe_exec rd now
      [SADD (keyUserChannels uid) cid, EXPIRE (keyUserChannels uid) userChannelsTTL] r = (reps, r')"
    by (auto simp: AddUserChannel_def Let_def split: prod.splits)
  from pipe_frame [OF doc this] show "dir_abs js (view r') d"
    by (intro dir_abs_cong [OF abs]) (simp_all add: key_simps)
next
  assume "RemoveUserChannel rd now uid cid r = (e, r')"
  then obtain rep where "rd now (SREM (keyUserChannels uid) cid) r = (rep, r')"
    by (auto simp: RemoveUserChannel_def Let_def split: prod.splits)
  from redis_doc_frame [OF doc this] show "dir_abs js (view r') d"
    by (intro dir_abs_cong [OF abs]) (simp_all add: key_simps)
qed

text \<open>Store errors are never the error of a missing channel.\<close>

lemma not_found_other [simp]: "ErrChannelNotFound \<noteq> OtherError m" "OtherError m \<noteq> ErrChannelNotFound"
  by (simp_all add: ErrChannelNotFound_def)

lemma store_errors [simp]:
  "cmd_err rep \<noteq> Some ErrChannelNotFound" "mongo_err mrep \<noteq> Some ErrChannelNotFound"
  by (cases rep; simp) (cases mrep; simp)

lemma pipe_error [simp]: "pipe_err reps \<noteq> Some ErrChannelNotFound"
proof (induction reps)
  case (Cons rep reps)
  then show ?case using store_errors(1) [of rep] by (cases "cmd_err rep") auto
qed simp

definition fine :: "err option \<Rightarrow> bool" where
  "fine e \<longleftrightarrow> e = None \<or> e = Some ErrChannelNotFound"

lemma fine_simps [simp]:
  "fine (cmd_err rep) \<longleftrightarrow> cmd_err rep = None" "fine (mongo_err mrep) \<longleftrightarrow> mongo_err mrep = None"
  "fine (pipe_err reps) \<longleftrightarrow> pipe_err reps = None" "fine None" "fine (Some ErrChannelNotFound)"
  "\<not> fine (Some (OtherError m))"
  by (simp_all add: fine_def)

lemma fine_redis:
  "SetChannelState js rd now st r = (e, r') \<Longrightarrow> fine e \<Longrightarrow> e = None"
  "DeleteChannelState rd now cid r = (e, r') \<Longrightarrow> fine e \<Longrightarrow> e = None"
  "AddChannelMember rd now cid uid r = (e, r') \<Longrightarrow> fine e \<Longrightarrow> e = None"
  "RemoveChannelMember rd now cid uid r = (e, r') \<Longrightarrow> fine e \<Longrightarrow> e = None"
  "AddUserChannel rd now uid cid r = (e, r') \<Longrightarrow> fine e \<Longrightarrow> e = None"
  "RemoveUserChannel rd now uid cid r = (e, r') \<Longrightarrow> fine e \<Longrightarrow> e = None"
  by (auto simp: SetChannelState_def DeleteChannelState_def AddChannelMember_def RemoveChannelMember_def
      AddUserChannel_def RemoveUserChannel_def Let_def simp del: pipe_exec.simps pipe_err.simps
      split: option.splits prod.splits)

lemma fine_mongo:
  "UpsertChannel mg doc m = (e, m') \<Longrightarrow> fine e \<Longrightarrow> e = None"
  "Mongo_DeleteChannel mg cid m = (e, m') \<Longrightarrow> fine e \<Longrightarrow> e = None"
  by (auto simp: UpsertChannel_def Mongo_DeleteChannel_def split: prod.splits)

lemma fine_state: "GetChannelState js rd now cid r = (Inl e, r') \<Longrightarrow> \<not> fine (Some e)"
  by (auto simp: GetChannelState_def bad_reply_def split: prod.splits redis_reply.splits option.splits)

fun op_user :: "chan_op \<Rightarrow> int" where
  "op_user (OpJoin uid _) = uid"
| "op_user (OpLeave uid _) = uid"
| "op_user _ = 0"

lemma join_refines:
  assumes doc: "redis_doc view rd" and abs: "dir_abs js (view r) d" and uid: "in_int64 uid"
    and run: "JoinChannel js rd now uid cid r = (e, r')" and e: "fine e"
  shows "\<exists>d'. chan_spec now (OpJoin uid cid) d = (e, d') \<and> dir_abs js (view r') d'"
proof -
  obtain x r1 where g: "GetChannelState js rd now cid r = (x, r1)" by fastforce
  obtain st where x: "x = Inr st" using g e run fine_state by (cases x) (fastforce simp: JoinChannel_def)+
  note st = GetChannelState_ok [OF doc abs g [unfolded x]]
  show ?thesis
  proof (cases st)
    case None
    then show ?thesis using run st abs by (auto simp: JoinChannel_def g x)
  next
    case (Some s)
    obtain e2 r2 where a: "AddChannelMember rd now cid uid r1 = (e2, r2)" by fastforce
    have e2: "e2 = None" using fine_redis(3) [OF a] run e
      by (cases e2) (auto simp: JoinChannel_def g x Some a)
    have idx: "AddUserChannel rd now uid cid r2 = (e, r')" using run by (simp add: JoinChannel_def g x Some a e2)
    have "dir_abs js (view r1) d" using st abs by simp
    then have "dir_abs js (view r2) (d\<lparr>joined := insert (cid, uid) (joined d)\<rparr>)"
      by (rule members_change [OF doc, of _ _ _ cid now "Add uid"]) (use a e2 uid in auto)
    from index_frame(1) [OF doc this idx] show ?thesis
      using st Some fine_redis(5) [OF idx e] by auto
  qed
qed

lemma leave_refines:
  assumes doc: "redis_doc view rd" and abs: "dir_abs js (view r) d" and uid: "in_int64 uid"
    and run: "LeaveChannel rd now uid cid r = (e, r')" and e: "fine e"
  shows "\<exists>d'. chan_spec now (OpLeave uid cid) d = (e, d') \<and> dir_abs js (view r') d'"
proof -
  obtain e1 r1 where a: "RemoveChannelMember rd now cid uid r = (e1, r1)" by fastforce
  have e1: "e1 = None" using fine_redis(4) [OF a] run e by (cases e1) (auto simp: LeaveChannel_def a)
  have idx: "RemoveUserChannel rd now uid cid r1 = (e, r')" using run by (simp add: LeaveChannel_def a e1)
  have "dir_abs js (view r1) (d\<lparr>joined := joined d - {(cid, uid)}\<rparr>)"
    by (rule members_change [OF doc abs, of cid now "Remove uid"]) (use a e1 uid in auto)
  from index_frame(2) [OF doc this idx] show ?thesis using fine_redis(6) [OF idx e] by simp
qed

lemma chan_exec_refines:
  assumes doc: "redis_doc view rd" and js: "js_doc js" and abs: "dir_abs js (view r) d"
    and uid: "in_int64 (op_user op)"
    and run: "chan_exec js rd mg now op (r, m) = (e, r', m')" and e: "fine e"
  shows "\<exists>d'. chan_spec now op d = (e, d') \<and> dir_abs js (view r') d'"
proof (cases op)
  case (OpCreate ch)
  let ?st = "\<lparr>cs_ChannelID = ch_ChannelID ch, cs_ChannelType = ch_ChannelType ch,
    cs_CreatedAt = now, cs_LastActive = now\<rparr>"
  obtain e1 r1 where s: "SetChannelState js rd now ?st r = (e1, r1)" by fastforce
  have e1: "e1 = None" using fine_redis(1) [OF s] run e by (cases e1) (auto simp: OpCreate CreateChannel_def s)
  have "r1 = r'" "e = None"
    using run e fine_mongo(1) by (auto simp: OpCreate CreateChannel_def s e1 split: prod.splits)
  then show ?thesis using SetChannelState_refines [OF doc js abs s [unfolded e1]] by (simp add: OpCreate)
next
  case (OpDelete cid)
  obtain e1 r1 where s: "DeleteChannelState rd now cid r = (e1, r1)" by fastforce
  have e1: "e1 = None"
    using fine_redis(2) [OF s] run e by (cases e1) (auto simp: OpDelete ChannelService_DeleteChannel_def s)
  have "r1 = r'" "e = None"
    using run e fine_mongo(2) by (auto simp: OpDelete ChannelService_DeleteChannel_def s e1 split: prod.splits)
  then show ?thesis using DeleteChannelState_refines [OF doc abs s [unfolded e1]] by (simp add: OpDelete)
next
  case (OpJoin u cid)
  then show ?thesis using join_refines [OF doc abs _ _ e] uid run by (simp del: chan_spec.simps split: prod.splits)
next
  case (OpLeave u cid)
  then show ?thesis using leave_refines [OF doc abs _ _ e] uid run by (simp split: prod.splits)
qed

lemma chan_run_refines:
  assumes "redis_doc view rd" "js_doc js"
  shows "dir_abs js (view r) d \<Longrightarrow> \<forall>op \<in> set ops. in_int64 (op_user (snd op)) \<Longrightarrow>
    chan_run js rd mg ops (r, m) = Some (es, r', m') \<Longrightarrow>
    \<exists>d'. chan_spec_run ops d = (es, d') \<and> dir_abs js (view r') d'"
proof (induction ops arbitrary: r m d es)
  case (Cons op ops)
  obtain now o' where op: "op = (now, o')" by fastforce
  obtain e r1 m1 where x: "chan_exec js rd mg now o' (r, m) = (e, r1, m1)" by (metis prod_cases3)
  have e: "fine e" using Cons.prems(3) by (auto simp: op x fine_def split: if_splits)
  obtain es1 where es: "chan_run js rd mg ops (r1, m1) = Some (es1, r', m')" "es = e # es1"
    using Cons.prems(3) by (auto simp: op x split: if_splits)
  obtain d1 where d1: "chan_spec now o' d = (e, d1)" "dir_abs js (view r1) d1"
    using chan_exec_refines [OF assms Cons.prems(1) _ x e] Cons.prems(2) by (auto simp: op)
  from Cons.IH [OF d1(2) _ es(1)] Cons.prems(2) show ?case by (auto simp: op d1(1) es(2))
qed simp

definition empty_dir :: directory where
  "empty_dir = \<lparr>dir_chans = Map.empty, joined = {}\<rparr>"

definition dir_members :: "int \<Rightarrow> directory \<Rightarrow> string \<Rightarrow> int set" where
  "dir_members t d cid =
     (if exists_at t d cid \<and> fst (the (dir_chans d cid)) = CHANNEL_TYPE_WORLD then {}
      else {uid. (cid, uid) \<in> joined d})"

lemma GetMembers_listed:
  assumes doc: "redis_doc view rd" and abs: "dir_abs js (view r) d"
    and run: "ChannelService_GetMembers js rd t cid r = (Inr uids, r')"
  shows "set uids = dir_members t d cid \<and> distinct uids"
proof -
  obtain x r1 where g: "GetChannelState js rd t cid r = (x, r1)" by fastforce
  obtain st where x: "x = Inr st" using g run by (cases x) (auto simp: ChannelService_GetMembers_def)
  note st = GetChannelState_ok [OF doc abs g [unfolded x]]
  have m: "members_abs (view r1) cid {uid. (cid, uid) \<in> joined d}" using st abs by (simp add: dir_abs_def)
  note listed = members_listed [OF doc m]
  show ?thesis
  proof (cases st)
    case None
    then show ?thesis using run listed st by (auto simp: ChannelService_GetMembers_def g x dir_members_def)
  next
    case (Some s)
    then have "exists_at t d cid" "dir_chans d cid = Some (cs_ChannelType s, snd (the (dir_chans d cid)))"
      using st by auto
    then show ?thesis
      using run listed Some
      by (cases "dir_chans d cid") (auto simp: ChannelService_GetMembers_def g x dir_members_def split: if_splits)
  qed
qed

text \<open>
  C8: the channel service implements the channel directory. Starting with no channels, after any
  history of creating, deleting, joining and leaving during which no store call fails, the errors
  returned are exactly the directory's (a join fails exactly when the channel does not exist or its
  seven days are over), and the member lookup lists, without repetition, exactly the directory's
  members, none for a world channel.
\<close>

theorem channel_directory:
  assumes "redis_doc view rd" "js_doc js"
    and "\<forall>cid. view r (keyChannelState cid) = None \<and> view r (channelMembersKey cid) = None"
    and "\<forall>op \<in> set ops. in_int64 (op_user (snd op))"
    and "chan_run js rd mg ops (r, m) = Some (es, r1, m1)"
  shows "es = fst (chan_spec_run ops empty_dir) \<and>
    (ChannelService_GetMembers js rd t cid r1 = (Inr uids, r2) \<longrightarrow>
       set uids = dir_members t (snd (chan_spec_run ops empty_dir)) cid \<and> distinct uids)"
proof -
  have "dir_abs js (view r) empty_dir"
    using assms(3) by (simp add: dir_abs_def state_abs_def members_abs_def empty_dir_def)
  from chan_run_refines [OF assms(1,2) this assms(4,5)] show ?thesis
    using GetMembers_listed [OF assms(1)] by fastforce
qed

definition demo_js :: "channel_state codec" where
  "demo_js =
     (\<lambda>st. if 0 \<le> cs_ChannelType st \<and> cs_ChannelType st < 256 then Some [of_int (cs_ChannelType st)] else None,
      \<lambda>b. Some \<lparr>cs_ChannelID = [], cs_ChannelType = uint (hd b), cs_CreatedAt = 0, cs_LastActive = 0\<rparr>)"

lemma demo_js_doc: "js_doc demo_js"
  by (auto simp: js_doc_def demo_js_def uint_word_of_int take_bit_eq_mod split: if_splits)

definition demo_mdb :: mongo_db where
  "demo_mdb = \<lparr>mdb_messages = [], mdb_offline = [], mdb_channels = Map.empty\<rparr>"

definition demo_channel :: channel where
  "demo_channel = \<lparr>ch_ChannelID = ''g'', ch_ChannelType = 2, ch_CreatedAt = 0, ch_LastActive = 0\<rparr>"

theorem channel_directory_witness:
  "fst (the (chan_run demo_js ref_redis ref_mongo
       [(0, OpJoin 4 ''g''), (1, OpCreate demo_channel), (2, OpJoin 4 ''g''), (3, OpJoin 5 ''g''), (4, OpLeave 4 ''g'')]
       (Map.empty, demo_mdb))) = [Some ErrChannelNotFound, None, None, None, None]"
proof -
  let ?ops = "[(0, OpJoin 4 ''g''), (1, OpCreate demo_channel), (2, OpJoin 4 ''g''), (3, OpJoin 5 ''g''), (4, OpLeave 4 ''g'')]"
  have neq: "keyUserChannels 5 \<noteq> keyUserChannels 4"
    using redis_key_eq [of "KUserChannels 5" "KUserChannels 4"] by simp
  have "\<exists>es r1 m1. chan_run demo_js ref_redis ref_mongo ?ops (Map.empty, demo_mdb) = Some (es, r1, m1)"
    using neq
    by (simp add: JoinChannel_def CreateChannel_def LeaveChannel_def GetChannelState_def SetChannelState_def
        AddChannelMember_def AddUserChannel_def RemoveChannelMember_def RemoveUserChannel_def UpsertChannel_def
        ref_redis_def ref_mongo_def live_def set_key_def demo_channel_def demo_js_def channelStateTTL_def
        userChannelsTTL_def ttl_secs_def key_simps)
  then obtain es r1 m1 where run: "chan_run demo_js ref_redis ref_mongo ?ops (Map.empty, demo_mdb) = Some (es, r1, m1)"
    by blast
  have "\<forall>op \<in> set ?ops. in_int64 (op_user (snd op))" by (simp add: in_int64_def int64_max_def int64_min_def)
  from channel_directory [OF ref_redis_doc demo_js_doc _ this run]
  have "es = [Some ErrChannelNotFound, None, None, None, None]"
    by (simp add: demo_channel_def empty_dir_def exists_at_def channelStateTTL_def)
  then show ?thesis by (simp only: run option.sel fst_conv)
qed

end
