(* ===== verification/Local_Bus.thy ===== *)
theory Local_Bus
  imports Pb_Types Errs
begin

text \<open>
  \<open>internal/bus\<close>: the topics, the in-process bus and the interface \<open>MessageBus\<close> as a locale.
  Handlers are values of a type \<open>'h\<close>. \<open>Publish\<close> starts one goroutine per subscription and returns
  at once; the model returns the goroutines it starts. The closure that \<open>Subscribe\<close> returns is the
  pair of the topic and the id it captures.
\<close>

definition TopicWorldBroadcast :: string where "TopicWorldBroadcast = ''im.broadcast.world''"
definition TopicSystemBroadcast :: string where "TopicSystemBroadcast = ''im.broadcast.system''"
definition TopicOfflinePush :: string where "TopicOfflinePush = ''im.offline.push''"
definition TopicAudit :: string where "TopicAudit = ''im.audit''"

record 'h bus_entry =
  be_id :: int
  be_handler :: 'h

record 'h local_bus =
  subs :: "string \<Rightarrow> 'h bus_entry list"
  nextID :: int

definition NewLocalBus :: "'h local_bus" where
  "NewLocalBus = \<lparr>subs = (\<lambda>_. []), nextID = 0\<rparr>"

definition Publish :: "string \<Rightarrow> im_message \<Rightarrow> 'h local_bus \<Rightarrow> ('h \<times> string \<times> im_message) list" where
  "Publish topic msg b = map (\<lambda>e. (be_handler e, topic, msg)) (subs b topic)"

definition Subscribe :: "string \<Rightarrow> 'h \<Rightarrow> 'h local_bus \<Rightarrow> (string \<times> int) \<times> 'h local_bus" where
  "Subscribe topic handler b =
     (let i = nextID b + 1
      in ((topic, i),
          b\<lparr>nextID := i, subs := (subs b)(topic := subs b topic @ [\<lparr>be_id = i, be_handler = handler\<rparr>])\<rparr>))"

text \<open>The loop of the closure removes the first entry with the id and stops.\<close>

fun remove_entry :: "int \<Rightarrow> 'h bus_entry list \<Rightarrow> 'h bus_entry list" where
  "remove_entry i [] = []"
| "remove_entry i (e # es) = (if be_id e = i then es else e # remove_entry i es)"

definition unsubscribe :: "string \<times> int \<Rightarrow> 'h local_bus \<Rightarrow> 'h local_bus" where
  "unsubscribe tok b = b\<lparr>subs := (subs b)(fst tok := remove_entry (snd tok) (subs b (fst tok)))\<rparr>"

definition Bus_Start :: "'h local_bus \<Rightarrow> err option \<times> 'h local_bus" where
  "Bus_Start b = (None, b)"

definition Bus_Stop :: "'h local_bus \<Rightarrow> err option \<times> 'h local_bus" where
  "Bus_Stop b = (None, b)"

subsection \<open>The interface\<close>

datatype 'h bus_op = Sub string 'h | Unsub "string \<times> int"

fun bus_run ::
  "(string \<Rightarrow> 'h \<Rightarrow> 's \<Rightarrow> (string \<times> int) \<times> 's) \<Rightarrow> (string \<times> int \<Rightarrow> 's \<Rightarrow> 's) \<Rightarrow> 'h bus_op list \<Rightarrow> 's \<Rightarrow> 's" where
  "bus_run sub unsub [] b = b"
| "bus_run sub unsub (Sub t h # ops) b = bus_run sub unsub ops (snd (sub t h b))"
| "bus_run sub unsub (Unsub tok # ops) b = bus_run sub unsub ops (unsub tok b)"

text \<open>
  The abstract bus: the live subscriptions with their tokens, in the order they were made. The
  n-th subscription gets the token of number n.
\<close>

fun bus_spec :: "'h bus_op list \<Rightarrow> int \<Rightarrow> ((string \<times> int) \<times> 'h) list \<Rightarrow> ((string \<times> int) \<times> 'h) list" where
  "bus_spec [] n live = live"
| "bus_spec (Sub t h # ops) n live = bus_spec ops (n + 1) (live @ [((t, n + 1), h)])"
| "bus_spec (Unsub tok # ops) n live = bus_spec ops n (filter (\<lambda>s. fst s \<noteq> tok) live)"

locale message_bus =
  fixes rel :: "'s \<Rightarrow> int \<Rightarrow> ((string \<times> int) \<times> 'h) list \<Rightarrow> bool"
    and newBus :: 's
    and publish :: "string \<Rightarrow> im_message \<Rightarrow> 's \<Rightarrow> ('h \<times> string \<times> im_message) list"
    and sub :: "string \<Rightarrow> 'h \<Rightarrow> 's \<Rightarrow> (string \<times> int) \<times> 's"
    and unsub :: "string \<times> int \<Rightarrow> 's \<Rightarrow> 's"
  assumes new: "rel newBus 0 []"
    and sub: "rel b n live \<Longrightarrow> sub t h b = (tok, b') \<Longrightarrow> tok = (t, n + 1) \<and> rel b' (n + 1) (live @ [(tok, h)])"
    and unsub: "rel b n live \<Longrightarrow> rel (unsub tok b) n (filter (\<lambda>s. fst s \<noteq> tok) live)"
    and publish: "rel b n live \<Longrightarrow>
      publish t msg b = map (\<lambda>s. (snd s, t, msg)) (filter (\<lambda>s. fst (fst s) = t) live)"
begin

lemma run_rel: "rel b n live \<Longrightarrow> \<exists>n'. rel (bus_run sub unsub ops b) n' (bus_spec ops n live)"
proof (induction ops arbitrary: b n live)
  case (Cons op ops)
  show ?case
  proof (cases op)
    case (Sub t h)
    obtain tok b' where s: "sub t h b = (tok, b')" by fastforce
    then show ?thesis using Cons.IH sub [OF Cons.prems s] by (auto simp: Sub)
  next
    case (Unsub tok)
    then show ?thesis using Cons.IH [OF unsub [OF Cons.prems]] by simp
  qed
qed auto

lemma publish_after:
  "publish t msg (bus_run sub unsub ops newBus) =
     map (\<lambda>s. (snd s, t, msg)) (filter (\<lambda>s. fst (fst s) = t) (bus_spec ops 0 []))"
  using run_rel [OF new] publish by blast

end

subsection \<open>The in-process bus implements it\<close>

definition bus_rel :: "'h local_bus \<Rightarrow> int \<Rightarrow> ((string \<times> int) \<times> 'h) list \<Rightarrow> bool" where
  "bus_rel b n live \<longleftrightarrow>
     nextID b = n \<and> (\<forall>s \<in> set live. snd (fst s) \<le> n) \<and> distinct (map (snd \<circ> fst) live) \<and>
     (\<forall>t. subs b t = map (\<lambda>s. \<lparr>be_id = snd (fst s), be_handler = snd s\<rparr>) (filter (\<lambda>s. fst (fst s) = t) live))"

lemma remove_entry_filter:
  "distinct (map be_id es) \<Longrightarrow> remove_entry i es = filter (\<lambda>e. be_id e \<noteq> i) es"
proof (induction es)
  case (Cons e es)
  then have "filter (\<lambda>x. be_id x \<noteq> be_id e) es = es" by (intro filter_True) (force simp: image_iff)
  with Cons show ?case by auto
qed simp

lemma bus_rel_sub:
  assumes "bus_rel b n live" "Subscribe t h b = (tok, b')"
  shows "tok = (t, n + 1) \<and> bus_rel b' (n + 1) (live @ [(tok, h)])"
proof -
  have "\<forall>s \<in> set live. snd (fst s) < n + 1" using assms(1) by (force simp: bus_rel_def)
  then have "n + 1 \<notin> set (map (snd \<circ> fst) live)" by force
  then show ?thesis using assms by (force simp: bus_rel_def Subscribe_def Let_def)
qed

lemma bus_rel_unsub:
  assumes "bus_rel b n live"
  shows "bus_rel (unsubscribe tok b) n (filter (\<lambda>s. fst s \<noteq> tok) live)"
proof -
  obtain t i where tok: "tok = (t, i)" by fastforce
  let ?e = "\<lambda>s. \<lparr>be_id = snd (fst s), be_handler = snd s\<rparr>"
  have d: "distinct (map be_id (map ?e (filter (\<lambda>s. fst (fst s) = t) live)))"
    using assms by (auto simp: bus_rel_def distinct_map inj_on_def)
  have "remove_entry i (subs b t) = map ?e (filter (\<lambda>s. fst (fst s) = t) (filter (\<lambda>s. fst s \<noteq> (t, i)) live))"
    using assms remove_entry_filter [OF d, of i]
    by (simp add: bus_rel_def filter_map comp_def) (auto intro!: arg_cong [where f = "map ?e"] filter_cong)
  moreover have "filter (\<lambda>s. fst (fst s) = t' \<and> fst s \<noteq> (t, i)) live = filter (\<lambda>s. fst (fst s) = t') live"
    if "t' \<noteq> t" for t'
    using that by (auto intro: filter_cong)
  ultimately show ?thesis
    using assms by (auto simp: bus_rel_def unsubscribe_def tok distinct_map inj_on_def conj_commute)
qed

interpretation lbus: message_bus bus_rel NewLocalBus Publish Subscribe unsubscribe
proof
  show "bus_rel NewLocalBus 0 []" by (simp add: bus_rel_def NewLocalBus_def)
  show "Publish t msg b = map (\<lambda>s. (snd s, t, msg)) (filter (\<lambda>s. fst (fst s) = t) live)"
    if "bus_rel b n live" for b n live t and msg :: im_message
    using that by (simp add: bus_rel_def Publish_def)
qed (rule bus_rel_sub bus_rel_unsub; assumption)+

text \<open>
  C28: the bus. After any sequence of subscriptions and cancellations (repeated and out of order
  ones included) publishing on a topic starts the handlers of exactly the subscriptions to that
  topic that are still live, each once, in the order they were made.
\<close>

theorem bus_publishes_to_live:
  "Publish t msg (bus_run Subscribe unsubscribe ops NewLocalBus) =
     map (\<lambda>s. (snd s, t, msg)) (filter (\<lambda>s. fst (fst s) = t) (bus_spec ops 0 []))"
  by (rule lbus.publish_after)

end
