(* ===== verification/Delivery.thy ===== *)
theory Delivery
  imports Services Local_Bus Conn_Manager
begin

text \<open>
  \<open>internal/delivery\<close>: the routing of a message to its recipients (\<open>engine.go\<close>) and the queue for
  users who are offline (\<open>offline.go\<close>). The engine holds five interfaces; the record \<open>engine\<close> has
  the methods it calls as functions over the state \<open>'s\<close> of whatever implements them. The locale
  \<open>delivery_backend\<close> states what the engine needs of them.
\<close>

definition Engine_CmdPushNewMessage :: u32 where "Engine_CmdPushNewMessage = 4001"

record 's engine =
  eng_nodeID :: string
  eng_PushToUID :: "int \<Rightarrow> bytes \<Rightarrow> 's \<Rightarrow> err option \<times> 's"
  eng_BatchGetPresence :: "int list \<Rightarrow> 's \<Rightarrow> (err + (int \<rightharpoonup> presence_info)) \<times> 's"
  eng_GetMembers :: "string \<Rightarrow> 's \<Rightarrow> (err + int list) \<times> 's"
  eng_Publish :: "string \<Rightarrow> im_message \<Rightarrow> 's \<Rightarrow> err option \<times> 's"
  eng_Enqueue :: "int \<Rightarrow> im_message \<Rightarrow> 's \<Rightarrow> err option \<times> 's"

definition marshalPush :: "proto \<Rightarrow> im_message \<Rightarrow> bytes option" where
  "marshalPush P msg =
     (case proto_Marshal (pPushNewMessage P) \<lparr>pn_Message = Some msg\<rparr> of
        None \<Rightarrow> None
      | Some payload \<Rightarrow>
          proto_Marshal (pFrame P) \<lparr>CmdId = Engine_CmdPushNewMessage, Seq = 0, Payload = payload\<rparr>)"

definition is_sender :: "im_message \<Rightarrow> int \<Rightarrow> bool" where
  "is_sender msg uid = (case Sender msg of None \<Rightarrow> False | Some s \<Rightarrow> uid = SenderId s)"

definition is_online :: "(int \<rightharpoonup> presence_info) \<Rightarrow> int \<Rightarrow> bool" where
  "is_online presenceMap uid = (case presenceMap uid of None \<Rightarrow> False | Some p \<Rightarrow> pi_Status p = ''online'')"

fun deliver_loop ::
  "'s engine \<Rightarrow> im_message \<Rightarrow> bytes \<Rightarrow> (int \<rightharpoonup> presence_info) \<Rightarrow> int list \<Rightarrow> 's \<Rightarrow> 's" where
  "deliver_loop E msg pushData presenceMap [] s = s"
| "deliver_loop E msg pushData presenceMap (uid # uids) s =
     deliver_loop E msg pushData presenceMap uids
       (if is_sender msg uid then s
        else if \<not> is_online presenceMap uid then snd (eng_Enqueue E uid msg s)
        else snd (eng_PushToUID E uid pushData s))"

definition Deliver :: "proto \<Rightarrow> 's engine \<Rightarrow> im_message \<Rightarrow> 's \<Rightarrow> err option \<times> 's" where
  "Deliver P E msg s =
     (if ChannelType msg = CHANNEL_TYPE_WORLD then eng_Publish E TopicWorldBroadcast msg s
      else if ChannelType msg = CHANNEL_TYPE_SYSTEM then eng_Publish E TopicSystemBroadcast msg s
      else case eng_GetMembers E (ChannelId msg) s of
             (Inl e, s1) \<Rightarrow> (Some e, s1)
           | (Inr members, s1) \<Rightarrow>
               if members = [] then (None, s1)
               else case eng_BatchGetPresence E members s1 of
                      (Inl e, s2) \<Rightarrow> (Some e, s2)
                    | (Inr presenceMap, s2) \<Rightarrow>
                        (case marshalPush P msg of
                           None \<Rightarrow> (Some (OtherError ''proto''), s2)
                         | Some pushData \<Rightarrow> (None, deliver_loop E msg pushData presenceMap members s2)))"

subsection \<open>The offline queue\<close>

definition OfflineQueue_Enqueue ::
  "proto \<Rightarrow> 'm mongo \<Rightarrow> int \<Rightarrow> int \<Rightarrow> im_message \<Rightarrow> 'm \<Rightarrow> err option \<times> 'm" where
  "OfflineQueue_Enqueue P mg now uid msg m =
     (if ChannelType msg = CHANNEL_TYPE_WORLD then (None, m)
      else case proto_Marshal (pImMessage P) msg of
             None \<Rightarrow> (Some (OtherError ''proto''), m)
           | Some payload \<Rightarrow>
               InsertOfflineMessage mg
                 \<lparr>od_UID = uid, od_MsgID = MsgId msg, od_ChannelID = ChannelId msg,
                  od_Payload = payload, od_CreatedAt = now\<rparr> m)"

subsection \<open>What the engine needs\<close>

text \<open>
  \<open>inbox\<close> is what waits to be written to the user's connection, \<open>room\<close> whether the connection can
  take more, \<open>stored\<close> the messages kept for the user while offline. Lookups change none of them. A
  push adds to the inbox of one user when there is room; an enqueue that reports no error adds to
  the stored messages of one user, one that reports an error may have.
\<close>

locale delivery_backend =
  fixes E :: "'s engine"
    and Inv :: "'s \<Rightarrow> bool"
    and inbox :: "'s \<Rightarrow> int \<Rightarrow> bytes list"
    and room :: "'s \<Rightarrow> int \<Rightarrow> bool"
    and stored :: "'s \<Rightarrow> int \<Rightarrow> im_message list"
  assumes members_read: "eng_GetMembers E cid s = (x, s') \<Longrightarrow>
      Inv s' = Inv s \<and> inbox s' = inbox s \<and> room s' = room s \<and> stored s' = stored s"
    and presence_read: "eng_BatchGetPresence E uids s = (y, s') \<Longrightarrow>
      Inv s' = Inv s \<and> inbox s' = inbox s \<and> room s' = room s \<and> stored s' = stored s"
    and push: "Inv s \<Longrightarrow> eng_PushToUID E uid data s = (e, s') \<Longrightarrow>
      Inv s' \<and> inbox s' = (inbox s)(uid := inbox s uid @ (if room s uid then [data] else [])) \<and>
      (\<forall>v. v \<noteq> uid \<longrightarrow> room s' v = room s v) \<and> stored s' = stored s"
    and enqueue: "Inv s \<Longrightarrow> ChannelType msg \<noteq> CHANNEL_TYPE_WORLD \<Longrightarrow> eng_Enqueue E uid msg s = (e, s') \<Longrightarrow>
      Inv s' \<and> inbox s' = inbox s \<and> room s' = room s \<and>
      (stored s' = (stored s)(uid := stored s uid @ [msg]) \<or> e \<noteq> None \<and> stored s' = stored s)"
begin

lemma loop_routes:
  assumes "Inv s" "distinct uids" "ChannelType msg \<noteq> CHANNEL_TYPE_WORLD"
  shows "inbox (deliver_loop E msg data pm uids s) u =
      inbox s u @ (if u \<in> set uids \<and> \<not> is_sender msg u \<and> is_online pm u \<and> room s u then [data] else []) \<and>
    (if u \<in> set uids \<and> \<not> is_sender msg u \<and> \<not> is_online pm u
     then stored (deliver_loop E msg data pm uids s) u = stored s u @ [msg] \<or>
       stored (deliver_loop E msg data pm uids s) u = stored s u \<and> (\<exists>s. fst (eng_Enqueue E u msg s) \<noteq> None)
     else stored (deliver_loop E msg data pm uids s) u = stored s u)"
  using assms
proof (induction uids arbitrary: s)
  case (Cons v uids)
  define s1 where "s1 = (if is_sender msg v then s else if \<not> is_online pm v then snd (eng_Enqueue E v msg s)
    else snd (eng_PushToUID E v data s))"
  have step: "deliver_loop E msg data pm (v # uids) s = deliver_loop E msg data pm uids s1"
    by (simp add: s1_def)
  note enq = enqueue [OF Cons.prems(1,3), of v "fst (eng_Enqueue E v msg s)" "snd (eng_Enqueue E v msg s)", simplified]
  note psh = push [OF Cons.prems(1), of v data "fst (eng_PushToUID E v data s)" "snd (eng_PushToUID E v data s)", simplified]
  have inv: "Inv s1" using enq psh Cons.prems(1) by (auto simp: s1_def)
  have ih: "?case" if "u \<noteq> v"
  proof -
    have same: "inbox s1 u = inbox s u" "stored s1 u = stored s u" "room s1 u = room s u"
      using enq psh that by (auto simp: s1_def)
    have mem: "u \<in> set (v # uids) \<longleftrightarrow> u \<in> set uids" and "distinct uids" using that Cons.prems(2) by auto
    from Cons.IH [OF inv this(2) Cons.prems(3)] show ?thesis unfolding step same mem .
  qed
  show ?case
  proof (cases "u = v")
    case True
    then have last: "inbox (deliver_loop E msg data pm uids s1) u = inbox s1 u"
      "stored (deliver_loop E msg data pm uids s1) u = stored s1 u"
      using Cons.IH [OF inv] Cons.prems by simp_all
    have "inbox s1 u = inbox s u @ (if \<not> is_sender msg u \<and> is_online pm u \<and> room s u then [data] else [])"
      using True enq psh by (auto simp: s1_def)
    moreover have "if \<not> is_sender msg u \<and> \<not> is_online pm u
        then stored s1 u = stored s u @ [msg] \<or> stored s1 u = stored s u \<and> fst (eng_Enqueue E u msg s) \<noteq> None
        else stored s1 u = stored s u"
      using True enq psh by (auto simp: s1_def)
    ultimately show ?thesis unfolding step last using True by (auto split: if_splits)
  qed (rule ih)
qed simp

end

end
