(* ===== verification/Local_Cache.thy ===== *)
theory Local_Cache
  imports Errs
begin

text \<open>
  \<open>internal/service/cache.go\<close>: the in-memory cache with a fixed time to live, and the contract of
  its two clients in \<open>internal/service/msg.go\<close>. A client looks in the cache first, asks its source
  on a miss, stores the answer, and on an error gives a fixed answer without storing it. The locale
  \<open>cached_lookup\<close> states that contract; its lemmas bound how stale an answer can be.
\<close>

record 'v cache_entry =
  ce_value :: 'v
  expireAt :: int

record 'v local_cache =
  entries :: "string \<rightharpoonup> 'v cache_entry"
  ttl :: int

definition NewLocalCache :: "int \<Rightarrow> 'v local_cache" where
  "NewLocalCache d = \<lparr>entries = Map.empty, ttl = d\<rparr>"

definition LocalCache_Get :: "int \<Rightarrow> string \<Rightarrow> 'v local_cache \<Rightarrow> 'v option" where
  "LocalCache_Get now key c =
     (case entries c key of
        None \<Rightarrow> None
      | Some e \<Rightarrow> if now > expireAt e then None else Some (ce_value e))"

definition LocalCache_Set :: "int \<Rightarrow> string \<Rightarrow> 'v \<Rightarrow> 'v local_cache \<Rightarrow> 'v local_cache" where
  "LocalCache_Set now key v c =
     c\<lparr>entries := (entries c)(key \<mapsto> \<lparr>ce_value = v, expireAt = now + ttl c\<rparr>)\<rparr>"

definition LocalCache_Delete :: "string \<Rightarrow> 'v local_cache \<Rightarrow> 'v local_cache" where
  "LocalCache_Delete key c = c\<lparr>entries := (entries c)(key := None)\<rparr>"

lemma Get_New [simp]: "LocalCache_Get now key (NewLocalCache d) = None"
  by (simp add: LocalCache_Get_def NewLocalCache_def)

lemma Get_Set:
  "LocalCache_Get t key (LocalCache_Set now key' v c) =
     (if key = key' then (if t > now + ttl c then None else Some v) else LocalCache_Get t key c)"
  by (simp add: LocalCache_Get_def LocalCache_Set_def)

lemma Get_Delete:
  "LocalCache_Get t key (LocalCache_Delete key' c) = (if key = key' then None else LocalCache_Get t key c)"
  by (simp add: LocalCache_Get_def LocalCache_Delete_def)

lemma ttl_kept [simp]:
  "ttl (LocalCache_Set now key v c) = ttl c" "ttl (LocalCache_Delete key c) = ttl c"
  by (simp_all add: LocalCache_Set_def LocalCache_Delete_def)

subsection \<open>Staleness\<close>

text \<open>
  A run of lookups of one key. Each call has its time and what everybody else does to the cache and
  the store before it. A result has the time, the answer, and whether the source was asked and
  failed.
\<close>

fun lookup_run ::
  "(int \<Rightarrow> bool local_cache \<Rightarrow> 'r \<Rightarrow> bool \<times> bool local_cache \<times> 'r) \<Rightarrow>
   (int \<Rightarrow> bool local_cache \<Rightarrow> 'r \<Rightarrow> bool) \<Rightarrow>
   (int \<times> (bool local_cache \<times> 'r \<Rightarrow> bool local_cache \<times> 'r)) list \<Rightarrow>
   bool local_cache \<Rightarrow> 'r \<Rightarrow> (int \<times> bool \<times> bool) list" where
  "lookup_run check failed [] c r = []"
| "lookup_run check failed ((t, other) # calls) c r =
     (let (c1, r1) = other (c, r);
          (b, c2, r2) = check t c1 r1
      in (t, b, failed t c1 r1) # lookup_run check failed calls c2 r2)"

text \<open>Entries that outlive \<open>T\<close> by more than the time to live hold \<open>b\<close>.\<close>

definition settled :: "string \<Rightarrow> int \<Rightarrow> bool \<Rightarrow> bool local_cache \<Rightarrow> bool" where
  "settled key T b c \<longleftrightarrow> (\<forall>e. entries c key = Some e \<longrightarrow> expireAt e \<le> T + ttl c \<or> ce_value e = b)"

lemma settled_Set: "settled key T b (LocalCache_Set t key b c)"
  by (simp add: settled_def LocalCache_Set_def)

lemma settled_Get: "settled key T b c \<Longrightarrow> T + ttl c < t \<Longrightarrow> LocalCache_Get t key c = Some v \<Longrightarrow> v = b"
  by (auto simp: settled_def LocalCache_Get_def split: option.splits if_splits)

lemma settled_cong: "entries c' key = entries c key \<Longrightarrow> ttl c' = ttl c \<Longrightarrow> settled key T b c' = settled key T b c"
  by (simp add: settled_def)

definition lookup_failed ::
  "(int \<Rightarrow> 'k \<Rightarrow> 'r \<Rightarrow> (err + bool) \<times> 'r) \<Rightarrow> string \<Rightarrow> 'k \<Rightarrow> int \<Rightarrow> bool local_cache \<Rightarrow> 'r \<Rightarrow> bool" where
  "lookup_failed source key k t c r \<longleftrightarrow> LocalCache_Get t key c = None \<and> isl (fst (source t k r))"

text \<open>What others may do: anything that keeps the entry of the key and a property of the store.\<close>

definition quiet ::
  "string \<Rightarrow> ('r \<Rightarrow> bool) \<Rightarrow> (bool local_cache \<times> 'r \<Rightarrow> bool local_cache \<times> 'r) \<Rightarrow> bool" where
  "quiet key G other \<longleftrightarrow>
     (\<forall>c r c' r'. other (c, r) = (c', r') \<longrightarrow>
        entries c' key = entries c key \<and> ttl c' = ttl c \<and> (G r \<longrightarrow> G r'))"

lemma quiet_id [simp]: "quiet key G id"
  by (simp add: quiet_def)

locale cached_lookup =
  fixes cacheKey :: "'k \<Rightarrow> string"
    and source :: "int \<Rightarrow> 'k \<Rightarrow> 'r \<Rightarrow> (err + bool) \<times> 'r"
    and check :: "int \<Rightarrow> 'k \<Rightarrow> bool local_cache \<Rightarrow> 'r \<Rightarrow> bool \<times> bool local_cache \<times> 'r"
    and failOpen :: bool
  assumes hit: "LocalCache_Get now (cacheKey k) c = Some b \<Longrightarrow> check now k c r = (b, c, r)"
    and miss: "LocalCache_Get now (cacheKey k) c = None \<Longrightarrow> source now k r = (Inr b, r') \<Longrightarrow>
      check now k c r = (b, LocalCache_Set now (cacheKey k) b c, r')"
    and fail: "LocalCache_Get now (cacheKey k) c = None \<Longrightarrow> source now k r = (Inl e, r') \<Longrightarrow>
      check now k c r = (failOpen, c, r')"
begin

lemma check_other_keys:
  assumes "check now k c r = (b, c', r')" "key \<noteq> cacheKey k"
  shows "entries c' key = entries c key"
proof (cases "LocalCache_Get now (cacheKey k) c")
  case None
  obtain x r1 where "source now k r = (x, r1)" by fastforce
  then show ?thesis using None miss fail assms by (cases x) (auto simp: LocalCache_Set_def)
qed (use hit assms in auto)

lemma check_ttl: "check now k c r = (b, c', r') \<Longrightarrow> ttl c' = ttl c"
proof (cases "LocalCache_Get now (cacheKey k) c")
  case None
  assume a: "check now k c r = (b, c', r')"
  obtain x r1 where "source now k r = (x, r1)" by fastforce
  then show ?thesis using None miss fail a by (cases x) auto
qed (use hit in auto)

lemma check_settles:
  assumes "check t k c r = (b', c', r')" "settled (cacheKey k) T b c" "G r"
    and G: "\<And>x r'. source t k r = (x, r') \<Longrightarrow> G r' \<and> (\<forall>v. x = Inr v \<longrightarrow> v = b)"
  shows "settled (cacheKey k) T b c' \<and> G r' \<and>
    (T + ttl c < t \<longrightarrow> b' = b \<or> lookup_failed source (cacheKey k) k t c r)"
proof (cases "LocalCache_Get t (cacheKey k) c")
  case None
  obtain x r1 where s: "source t k r = (x, r1)" by fastforce
  note g = G [OF s]
  show ?thesis
  proof (cases x)
    case (Inl e)
    then show ?thesis using fail [OF None] s g assms None by (simp add: lookup_failed_def)
  next
    case (Inr v)
    then show ?thesis using miss [OF None] s g assms(1) settled_Set by fastforce
  qed
next
  case (Some v)
  then show ?thesis using hit assms settled_Get by fastforce
qed

lemma run_settles:
  assumes "settled (cacheKey k) T b c" "G r"
    and "\<forall>(t, other) \<in> set calls. quiet (cacheKey k) G other"
    and "\<forall>(t, other) \<in> set calls. \<forall>r x r'. G r \<longrightarrow> source t k r = (x, r') \<longrightarrow>
      G r' \<and> (\<forall>v. x = Inr v \<longrightarrow> v = b)"
    and "(t, b', failed) \<in> set (lookup_run (\<lambda>t. check t k) (lookup_failed source (cacheKey k) k) calls c r)"
    and "T + ttl c < t"
  shows "b' = b \<or> failed"
  using assms
proof (induction calls arbitrary: c r)
  case (Cons call calls)
  obtain t1 other where call: "call = (t1, other)" by fastforce
  obtain c1 r1 where o: "other (c, r) = (c1, r1)" by fastforce
  obtain b2 c2 r2 where k: "check t1 k c1 r1 = (b2, c2, r2)" using prod_cases3 by blast
  have q: "entries c1 (cacheKey k) = entries c (cacheKey k)" "ttl c1 = ttl c" "G r1"
    using Cons.prems(2,3) o by (auto simp: call quiet_def)
  have s1: "settled (cacheKey k) T b c1" using Cons.prems(1) q settled_cong by blast
  have ok: "\<And>x r'. source t1 k r1 = (x, r') \<Longrightarrow> G r' \<and> (\<forall>v. x = Inr v \<longrightarrow> v = b)"
    using Cons.prems(4) q(3) by (auto simp: call)
  note st = check_settles [where G = G, OF k s1 q(3) ok]
  have ttl2: "ttl c2 = ttl c" using check_ttl [OF k] q by simp
  consider "(t, b', failed) = (t1, b2, lookup_failed source (cacheKey k) k t1 c1 r1)"
    | "(t, b', failed) \<in> set (lookup_run (\<lambda>t. check t k) (lookup_failed source (cacheKey k) k) calls c2 r2)"
    using Cons.prems(5) by (auto simp: call o k)
  then show ?case
  proof cases
    case 1
    then show ?thesis using st Cons.prems(6) q(2) by simp
  next
    case 2
    then show ?thesis using Cons.IH [of c2 r2] Cons.prems(3,4,6) st ttl2 by simp
  qed
qed simp

end

end
