(* ===== verification/IM_State.thy ===== *)
theory IM_State
  imports Delivery Local_Cache Seq_Alloc Content_Filter
begin

text \<open>
  The state of one server process as \<open>internal/app/app.go\<close> wires it, and the delivery engine over
  that wiring. \<open>deps\<close> holds the third-party code the process runs on. Goroutines that have been
  started and have not run yet are \<open>im_tasks\<close>.
\<close>

record ('r, 'm) deps =
  dProto :: proto
  dJson :: "channel_state codec"
  dRedis :: "'r redis"
  dMongo :: "'m mongo"
  dLua :: lua
  dLower :: "nat \<Rightarrow> nat"

datatype bus_handler = BroadcastNotify

datatype task =
    RunHandler bus_handler string im_message
  | CacheWrite string im_message

record ('r, 'm) im =
  im_redis :: 'r
  im_mongo :: 'm
  im_gw :: gateway
  im_bus :: "bus_handler local_bus"
  im_ring :: ring
  im_tasks :: "task list"
  im_ranges :: seq_ranges
  im_banCache :: "bool local_cache"
  im_availCache :: "bool local_cache"
  im_writeCh :: "message_doc list"
  im_batch :: "message_doc list"

definition on_redis :: "('r \<Rightarrow> 'a \<times> 'r) \<Rightarrow> ('r, 'm) im \<Rightarrow> 'a \<times> ('r, 'm) im" where
  "on_redis f s = (let (x, r') = f (im_redis s) in (x, s\<lparr>im_redis := r'\<rparr>))"

definition on_mongo :: "('m \<Rightarrow> 'a \<times> 'm) \<Rightarrow> ('r, 'm) im \<Rightarrow> 'a \<times> ('r, 'm) im" where
  "on_mongo f s = (let (x, m') = f (im_mongo s) in (x, s\<lparr>im_mongo := m'\<rparr>))"

text \<open>\<open>delivery.NewEngine\<close> with the arguments of \<open>app.New\<close>; the calls happen at time \<open>now\<close>.\<close>

definition app_engine :: "('r, 'm) deps \<Rightarrow> int \<Rightarrow> string \<Rightarrow> ('r, 'm) im engine" where
  "app_engine D now node =
     \<lparr>eng_nodeID = node,
      eng_PushToUID = (\<lambda>uid data s. (None, s\<lparr>im_gw := ConnManager_PushToUID uid data (im_gw s)\<rparr>)),
      eng_BatchGetPresence = (\<lambda>uids. on_redis (PresenceAdapter_BatchGetPresence (dRedis D) now uids)),
      eng_GetMembers = (\<lambda>cid. on_redis (ChannelAdapter_GetMembers (dJson D) (dRedis D) now cid)),
      eng_Publish = (\<lambda>topic msg s. (None, s\<lparr>im_tasks := im_tasks s @
         map (\<lambda>(h, t, m). RunHandler h t m) (Publish topic msg (im_bus s))\<rparr>)),
      eng_Enqueue = (\<lambda>uid msg. on_mongo (OfflineQueue_Enqueue (dProto D) (dMongo D) now uid msg))\<rparr>"

subsection \<open>What users see\<close>

definition user_conn :: "gateway \<Rightarrow> int \<Rightarrow> conn option" where
  "user_conn g uid = Option.bind (userConns g uid) (heap g)"

definition im_inbox :: "('r, 'm) im \<Rightarrow> int \<Rightarrow> bytes list" where
  "im_inbox s uid = (case user_conn (im_gw s) uid of None \<Rightarrow> [] | Some c \<Rightarrow> pushCh c)"

definition im_room :: "('r, 'm) im \<Rightarrow> int \<Rightarrow> bool" where
  "im_room s uid = (case user_conn (im_gw s) uid of None \<Rightarrow> False | Some c \<Rightarrow> length (pushCh c) < pushCap c)"

definition offline_msgs :: "proto \<Rightarrow> int \<Rightarrow> offline_doc list \<Rightarrow> im_message list" where
  "offline_msgs P uid docs =
     List.map_filter (\<lambda>d. if od_UID d = uid then proto_Unmarshal (pImMessage P) (od_Payload d) else None) docs"

definition im_stored :: "('m \<Rightarrow> mongo_db) \<Rightarrow> ('r, 'm) deps \<Rightarrow> ('r, 'm) im \<Rightarrow> int \<Rightarrow> im_message list" where
  "im_stored mview D s uid = offline_msgs (dProto D) uid (mdb_offline (mview (im_mongo s)))"

definition im_deliverable :: "('m \<Rightarrow> mongo_db) \<Rightarrow> ('r, 'm) deps \<Rightarrow> ('r, 'm) im \<Rightarrow> bool" where
  "im_deliverable mview D s \<longleftrightarrow>
     mongo_doc mview (dMongo D) \<and> codec_ok (pImMessage (dProto D)) \<and> user_exact (im_gw s)"

lemma conn_of_upd:
  assumes "\<And>c. conn_uid (f c) = conn_uid c" "\<And>c. closed (f c) = closed c"
  shows "conn_of (upd_conn cid f g) c u = conn_of g c u"
  by (cases "heap g cid") (auto simp: conn_of_def upd_conn_def assms)

lemma PushToUID_exact: "user_exact g \<Longrightarrow> user_exact (ConnManager_PushToUID uid data g)"
proof -
  assume "user_exact g"
  moreover have "conn_of (upd_conn cid (\<lambda>c. snd (Conn_Send data c)) g) c u = conn_of g c u" for cid c u
    by (rule conn_of_upd) (auto simp: Conn_Send_def)
  moreover have "userConns (upd_conn cid f g) = userConns g" for cid f by (simp add: upd_conn_def)
  ultimately show ?thesis
    by (simp add: ConnManager_PushToUID_def user_exact_def split: option.splits)
qed

lemma PushToUID_user_conn:
  assumes "user_exact g"
  shows "user_conn (ConnManager_PushToUID uid data g) v =
    (if v = uid then map_option (\<lambda>c. snd (Conn_Send data c)) (user_conn g v) else user_conn g v)"
proof (cases "userConns g uid")
  case (Some cid)
  have "userConns g v \<noteq> Some cid" if "v \<noteq> uid" using user_exact_inj [OF assms] Some that by (auto simp: inj_on_def dom_def)
  then show ?thesis
    by (cases "userConns g v")
      (auto simp: ConnManager_PushToUID_def ConnManager_GetByUID_def Some upd_conn_def user_conn_def)
qed (simp add: ConnManager_PushToUID_def ConnManager_GetByUID_def user_conn_def)

lemma push_inbox:
  assumes "user_exact (im_gw s)"
  shows "im_inbox (s\<lparr>im_gw := ConnManager_PushToUID uid data (im_gw s)\<rparr>) =
      (im_inbox s)(uid := im_inbox s uid @ (if im_room s uid then [data] else []))"
    "v \<noteq> uid \<Longrightarrow> im_room (s\<lparr>im_gw := ConnManager_PushToUID uid data (im_gw s)\<rparr>) v = im_room s v"
proof -
  show "im_inbox (s\<lparr>im_gw := ConnManager_PushToUID uid data (im_gw s)\<rparr>) =
      (im_inbox s)(uid := im_inbox s uid @ (if im_room s uid then [data] else []))"
    by (rule ext)
      (auto simp: im_inbox_def im_room_def PushToUID_user_conn [OF assms] Conn_Send_def split: option.splits)
qed (simp add: im_room_def PushToUID_user_conn [OF assms])

lemma InsertOffline_doc:
  assumes doc: "mongo_doc mview mg" and run: "InsertOfflineMessage mg d m = (e, m')"
  shows "mdb_offline (mview m') = mdb_offline (mview m) @ [d] \<or>
    e \<noteq> None \<and> mdb_offline (mview m') = mdb_offline (mview m)"
proof -
  obtain rep where g: "mg (InsertOneOffline d) m = (rep, m')" "e = mongo_err rep"
    using run by (auto simp: InsertOfflineMessage_def split: prod.splits)
  show ?thesis
  proof (cases "\<exists>x. rep = MErr x")
    case True
    then show ?thesis using doc g unfolding mongo_doc_def by (fastforce simp: mongo_partial_def)
  next
    case False
    then show ?thesis using mongo_doc_ok [OF doc g(1)] by simp
  qed
qed

lemma enqueue_stored:
  assumes "mongo_doc mview mg" "codec_ok (pImMessage P)" "ChannelType msg \<noteq> CHANNEL_TYPE_WORLD"
    and run: "OfflineQueue_Enqueue P mg now uid msg m = (e, m')"
  shows "(\<lambda>v. offline_msgs P v (mdb_offline (mview m'))) =
      (\<lambda>v. offline_msgs P v (mdb_offline (mview m)))(uid := offline_msgs P uid (mdb_offline (mview m)) @ [msg]) \<or>
    e \<noteq> None \<and> mdb_offline (mview m') = mdb_offline (mview m)"
proof (cases "proto_Marshal (pImMessage P) msg")
  case None
  then show ?thesis using run assms(3) by (auto simp: OfflineQueue_Enqueue_def)
next
  case (Some payload)
  let ?d = "\<lparr>od_UID = uid, od_MsgID = MsgId msg, od_ChannelID = ChannelId msg,
    od_Payload = payload, od_CreatedAt = now\<rparr>"
  have ins: "InsertOfflineMessage mg ?d m = (e, m')"
    using run assms(3) Some by (simp add: OfflineQueue_Enqueue_def)
  have "proto_Unmarshal (pImMessage P) payload = Some msg" using codec_okD [OF assms(2) Some] .
  then have "offline_msgs P v (ds @ [?d]) = offline_msgs P v ds @ (if v = uid then [msg] else [])" for v ds
    by (simp add: offline_msgs_def map_filter_def)
  then show ?thesis using InsertOffline_doc [OF assms(1) ins] by auto
qed

lemma im_frame [simp]:
  "im_inbox (s\<lparr>im_redis := r\<rparr>) = im_inbox s" "im_room (s\<lparr>im_redis := r\<rparr>) = im_room s"
  "im_stored mview D (s\<lparr>im_redis := r\<rparr>) = im_stored mview D s"
  "im_deliverable mview D (s\<lparr>im_redis := r\<rparr>) = im_deliverable mview D s"
  "im_inbox (s\<lparr>im_mongo := m\<rparr>) = im_inbox s" "im_room (s\<lparr>im_mongo := m\<rparr>) = im_room s"
  "im_deliverable mview D (s\<lparr>im_mongo := m\<rparr>) = im_deliverable mview D s"
  "im_stored mview D (s\<lparr>im_gw := g\<rparr>) = im_stored mview D s"
  by (simp_all add: im_inbox_def im_room_def im_stored_def im_deliverable_def fun_eq_iff)

interpretation wired: delivery_backend "app_engine D now node" "im_deliverable mview D" im_inbox im_room
    "im_stored mview D"
proof
  fix s s' :: "('a, 'b) im" and e uid msg
  assume inv: "im_deliverable mview D s" and ty: "ChannelType msg \<noteq> CHANNEL_TYPE_WORLD"
    and run: "eng_Enqueue (app_engine D now node) uid msg s = (e, s')"
  obtain m' where m': "OfflineQueue_Enqueue (dProto D) (dMongo D) now uid msg (im_mongo s) = (e, m')"
    "s' = s\<lparr>im_mongo := m'\<rparr>"
    using run by (auto simp: app_engine_def on_mongo_def split: prod.splits)
  show "im_deliverable mview D s' \<and> im_inbox s' = im_inbox s \<and> im_room s' = im_room s \<and>
      (im_stored mview D s' = (im_stored mview D s)(uid := im_stored mview D s uid @ [msg]) \<or>
       e \<noteq> None \<and> im_stored mview D s' = im_stored mview D s)"
    using enqueue_stored [OF _ _ ty m'(1), of mview] inv m'(2)
    by (auto simp: im_deliverable_def im_stored_def fun_eq_iff)
qed (auto simp: app_engine_def on_redis_def im_deliverable_def PushToUID_exact push_inbox split: prod.splits)

end
