(* ===== verification/Msg_Service.thy ===== *)
theory Msg_Service
  imports IM_State Redis_Dedup
begin

text \<open>
  \<open>internal/service/msg.go\<close>: sending, pulling and acknowledging messages, the two cached checks and
  the background writer. \<open>clk i\<close> is the clock at the i-th step of a call. \<open>SendMsg\<close> is \<open>None\<close> when
  the content filter does not return and \<open>Panic\<close> when it panics.
\<close>

definition maxMsgLength :: nat where "maxMsgLength = 1024"
definition maxPullLimit :: int where "maxPullLimit = 50"
definition ratePerSecond :: int where "ratePerSecond = 100"
definition writeChCap :: nat where "writeChCap = 4096"
definition writerBatch :: nat where "writerBatch = 64"

record svc_send_req =
  sr_ChannelID :: string
  sr_ChannelType :: int
  sr_Content :: string
  sr_MsgType :: int
  sr_MsgParam :: "string list"
  sr_ClientMsgID :: string

record svc_send_resp =
  rs_MsgID :: int
  rs_SendTime :: int

subsection \<open>Cached checks\<close>

definition banKey :: "int \<Rightarrow> string" where "banKey uid = ''ban:'' @ Sprintf_d uid"
definition availKey :: "int \<Rightarrow> string" where "availKey channelType = ''avail:'' @ Sprintf_d channelType"

definition checkBanCached ::
  "'r redis \<Rightarrow> int \<Rightarrow> int \<Rightarrow> bool local_cache \<Rightarrow> 'r \<Rightarrow> bool \<times> bool local_cache \<times> 'r" where
  "checkBanCached rd now uid c r =
     (let cacheKey = banKey uid
      in case LocalCache_Get now cacheKey c of
           Some val \<Rightarrow> (val, c, r)
         | None \<Rightarrow>
             (case BanService_IsBanned rd now uid r of
                (Inl e, r') \<Rightarrow> (False, c, r')
              | (Inr (banned, _), r') \<Rightarrow> (banned, LocalCache_Set now cacheKey banned c, r')))"

definition checkAvailCached ::
  "'r redis \<Rightarrow> int \<Rightarrow> int \<Rightarrow> bool local_cache \<Rightarrow> 'r \<Rightarrow> bool \<times> bool local_cache \<times> 'r" where
  "checkAvailCached rd now channelType c r =
     (let cacheKey = availKey channelType
      in case LocalCache_Get now cacheKey c of
           Some val \<Rightarrow> (val, c, r)
         | None \<Rightarrow>
             (case IsAvailable rd now channelType r of
                (Inl e, r') \<Rightarrow> (True, c, r')
              | (Inr avail, r') \<Rightarrow> (avail, LocalCache_Set now cacheKey avail c, r')))"

subsection \<open>Sending\<close>

definition build_msg ::
  "int \<Rightarrow> int \<Rightarrow> sender_info option \<Rightarrow> string \<Rightarrow> svc_send_req \<Rightarrow> im_message" where
  "build_msg msgID sendTime sender content req =
     \<lparr>MsgId = msgID, ChannelId = sr_ChannelID req, ChannelType = sr_ChannelType req, Sender = sender,
      Content = content, MsgType = sr_MsgType req, MsgParam = sr_MsgParam req, SendTime = sendTime,
      ClientMsgId = sr_ClientMsgID req\<rparr>"

definition build_doc ::
  "int \<Rightarrow> int \<Rightarrow> int \<Rightarrow> sender_info option \<Rightarrow> string \<Rightarrow> svc_send_req \<Rightarrow> message_doc" where
  "build_doc msgID sendTime createdAt sender content req =
     \<lparr>md_MsgID = msgID, md_ChannelID = sr_ChannelID req, md_ChannelType = sr_ChannelType req,
      md_SenderID = (case sender of None \<Rightarrow> 0 | Some s \<Rightarrow> SenderId s),
      md_SenderName = (case sender of None \<Rightarrow> [] | Some s \<Rightarrow> SenderName s),
      md_Content = content, md_MsgType = sr_MsgType req, md_MsgParam = sr_MsgParam req,
      md_SendTime = sendTime, md_CreatedAt = createdAt\<rparr>"

definition send_post ::
  "('r, 'm) deps \<Rightarrow> string \<Rightarrow> (nat \<Rightarrow> int) \<Rightarrow> sender_info option \<Rightarrow> string \<Rightarrow> svc_send_req \<Rightarrow> int \<Rightarrow>
     ('r, 'm) im \<Rightarrow> svc_send_resp \<times> ('r, 'm) im" where
  "send_post D node clk sender content req msgID s =
     (let sendTime = clk 4;
          msg = build_msg msgID sendTime sender content req;
          doc = build_doc msgID sendTime (clk 5) sender content req;
          s1 = s\<lparr>im_tasks := im_tasks s @ [CacheWrite (sr_ChannelID req) msg]\<rparr>;
          s2 = (if length (im_writeCh s1) < writeChCap then s1\<lparr>im_writeCh := im_writeCh s1 @ [doc]\<rparr> else s1)
      in (\<lparr>rs_MsgID = msgID, rs_SendTime = sendTime\<rparr>,
          snd (Deliver (dProto D) (app_engine D (clk 6) node) msg s2)))"

definition send_admit ::
  "('r, 'm) deps \<Rightarrow> string \<Rightarrow> (nat \<Rightarrow> int) \<Rightarrow> int \<Rightarrow> sender_info option \<Rightarrow> string \<Rightarrow> svc_send_req \<Rightarrow>
     ('r, 'm) im \<Rightarrow> (err + svc_send_resp) go \<times> ('r, 'm) im" where
  "send_admit D node clk uid sender content req s =
     (let (banned, bc, r1) = checkBanCached (dRedis D) (clk 0) uid (im_banCache s) (im_redis s);
          s1 = s\<lparr>im_banCache := bc, im_redis := r1\<rparr>
      in if banned then (Ret (Inl ErrUserBanned), s1)
         else let (avail, ac, r2) = checkAvailCached (dRedis D) (clk 1) (sr_ChannelType req) (im_availCache s1) r1;
                  s2 = s1\<lparr>im_availCache := ac, im_redis := r2\<rparr>
              in if \<not> avail then (Ret (Inl ErrChannelUnavail), s2)
                 else let (out, ranges, r3) = SeqAllocator_Next (dRedis D) (clk 2) (sr_ChannelID req) (im_ranges s2) r2;
                          s3 = s2\<lparr>im_ranges := ranges, im_redis := r3\<rparr>
                      in case out of
                           Inl e \<Rightarrow> (Ret (Inl ErrServerError), s3)
                         | Inr msgID \<Rightarrow>
                             (let (check, r4) = DedupAndRateCheck (dRedis D) (dLua D) (clk 3) (sr_ClientMsgID req)
                                                  uid ratePerSecond msgID r3;
                                  s4 = s3\<lparr>im_redis := r4\<rparr>
                              in case check of
                                   Panic \<Rightarrow> (Panic, s4)
                                 | Ret (Inl e) \<Rightarrow> (Ret (Inl ErrServerError), s4)
                                 | Ret (Inr res) \<Rightarrow>
                                     if DedupExists res
                                     then (Ret (Inr \<lparr>rs_MsgID = DedupMsgID res, rs_SendTime = clk 4\<rparr>), s4)
                                     else if \<not> RateOK res then (Ret (Inl ErrRateLimited), s4)
                                     else let (resp, s5) = send_post D node clk sender content req msgID s4
                                          in (Ret (Inr resp), s5)))"

definition SendMsg ::
  "('r, 'm) deps \<Rightarrow> (int \<Rightarrow> string \<Rightarrow> filter_result go option) list \<Rightarrow> string \<Rightarrow> (nat \<Rightarrow> int) \<Rightarrow> int \<Rightarrow>
     sender_info option \<Rightarrow> svc_send_req \<Rightarrow> ('r, 'm) im \<Rightarrow> ((err + svc_send_resp) go \<times> ('r, 'm) im) option" where
  "SendMsg D filters node clk uid sender req s =
     (if length (sr_Content req) > maxMsgLength then Some (Ret (Inl ErrMsgTooLong), s)
      else case FilterChain_Check filters uid (sr_Content req) of
             None \<Rightarrow> None
           | Some Panic \<Rightarrow> Some (Panic, s)
           | Some (Ret filterResult) \<Rightarrow>
               if \<not> Pass filterResult then Some (Ret (Inl ErrContentIllegal), s)
               else let content = (if Replace filterResult \<noteq> [] then Replace filterResult else sr_Content req)
                    in Some (send_admit D node clk uid sender content req s))"

subsection \<open>Pulling and acknowledging\<close>

definition msg_of_doc :: "message_doc \<Rightarrow> im_message" where
  "msg_of_doc doc =
     \<lparr>MsgId = md_MsgID doc, ChannelId = md_ChannelID doc, ChannelType = md_ChannelType doc,
      Sender = Some \<lparr>SenderId = md_SenderID doc, SenderName = md_SenderName doc, SenderHeadImage = [],
                     SenderRank = 0, AllianceName = []\<rparr>,
      Content = md_Content doc, MsgType = md_MsgType doc, MsgParam = md_MsgParam doc,
      SendTime = md_SendTime doc, ClientMsgId = []\<rparr>"

definition pull_limit :: "int \<Rightarrow> int" where
  "pull_limit limit = (if limit \<le> 0 \<or> limit > maxPullLimit then maxPullLimit else limit)"

definition PullMsg ::
  "('r, 'm) deps \<Rightarrow> int \<Rightarrow> string \<Rightarrow> int \<Rightarrow> int \<Rightarrow> ('r, 'm) im \<Rightarrow> (err + im_message list) \<times> ('r, 'm) im" where
  "PullMsg D now channelID lastMsgID limit s =
     (let lim = pull_limit limit;
          (out, r1) = GetMsgCache (dProto D) (dRedis D) now channelID lastMsgID lim (im_redis s);
          s1 = s\<lparr>im_redis := r1\<rparr>;
          msgs = (case out of Inl e \<Rightarrow> [] | Inr ms \<Rightarrow> ms)
      in if msgs \<noteq> [] then (Inr msgs, s1)
         else case QueryMessages (dMongo D) channelID lastMsgID lim (im_mongo s1) of
                (Inl e, m1) \<Rightarrow> (Inl e, s1\<lparr>im_mongo := m1\<rparr>)
              | (Inr docs, m1) \<Rightarrow> (Inr (map msg_of_doc docs), s1\<lparr>im_mongo := m1\<rparr>))"

definition AckMsg :: "int \<Rightarrow> string \<Rightarrow> int \<Rightarrow> ('r, 'm) im \<Rightarrow> err option \<times> ('r, 'm) im" where
  "AckMsg uid channelID msgID s = (None, s)"

subsection \<open>The background writer\<close>

text \<open>
  One round of the loop per event: a document received from the channel, a tick, or the end of the
  channel. An empty channel gives no event of the first kind.
\<close>

datatype writer_event = WRecv | WTick | WClosed

definition writer_flush :: "('r, 'm) deps \<Rightarrow> ('r, 'm) im \<Rightarrow> ('r, 'm) im" where
  "writer_flush D s =
     (if im_batch s = [] then s
      else s\<lparr>im_mongo := snd (InsertMessages (dMongo D) (im_batch s) (im_mongo s)), im_batch := []\<rparr>)"

fun asyncWriter :: "('r, 'm) deps \<Rightarrow> writer_event \<Rightarrow> ('r, 'm) im \<Rightarrow> ('r, 'm) im" where
  "asyncWriter D WRecv s =
     (case im_writeCh s of
        [] \<Rightarrow> s
      | doc # docs \<Rightarrow>
          (let s1 = s\<lparr>im_writeCh := docs, im_batch := im_batch s @ [doc]\<rparr>
           in if length (im_batch s1) \<ge> writerBatch then writer_flush D s1 else s1))"
| "asyncWriter D WTick s = writer_flush D s"
| "asyncWriter D WClosed s = writer_flush D s"

subsection \<open>The cached checks follow the contract\<close>

definition ban_source :: "'r redis \<Rightarrow> int \<Rightarrow> int \<Rightarrow> 'r \<Rightarrow> (err + bool) \<times> 'r" where
  "ban_source rd now uid r =
     (case BanService_IsBanned rd now uid r of
        (Inl e, r') \<Rightarrow> (Inl e, r') | (Inr (banned, _), r') \<Rightarrow> (Inr banned, r'))"

interpretation ban_check: cached_lookup banKey "ban_source rd" "checkBanCached rd" False
  by unfold_locales
    (auto simp: checkBanCached_def ban_source_def Let_def split: prod.splits sum.splits)

interpretation avail_check: cached_lookup availKey "IsAvailable rd" "checkAvailCached rd" True
  by unfold_locales (auto simp: checkAvailCached_def Let_def)

end
