(* ===== verification/Msg_Checks.thy ===== *)
theory Msg_Checks
  imports Msg_Service Redis_Laws
begin

text \<open>
  How soon a change of a ban or of a channel switch takes effect through the five-second caches of
  the message service.
\<close>

text \<open>
  A lookup run of \<open>Local_Cache\<close> for the two checks; others may do anything between the calls that
  keeps the cached entry and the record in Redis.
\<close>

definition ban_run ::
  "'r redis \<Rightarrow> int \<Rightarrow> (int \<times> (bool local_cache \<times> 'r \<Rightarrow> bool local_cache \<times> 'r)) list \<Rightarrow>
     bool local_cache \<Rightarrow> 'r \<Rightarrow> (int \<times> bool \<times> bool) list" where
  "ban_run rd uid = lookup_run (\<lambda>t. checkBanCached rd t uid) (lookup_failed (ban_source rd) (banKey uid) uid)"

definition avail_run ::
  "'r redis \<Rightarrow> int \<Rightarrow> (int \<times> (bool local_cache \<times> 'r \<Rightarrow> bool local_cache \<times> 'r)) list \<Rightarrow>
     bool local_cache \<Rightarrow> 'r \<Rightarrow> (int \<times> bool \<times> bool) list" where
  "avail_run rd ty = lookup_run (\<lambda>t. checkAvailCached rd t ty) (lookup_failed (IsAvailable rd) (availKey ty) ty)"

lemma IsBanned_read: "redis_doc view rd \<Longrightarrow> IsBanned rd t uid r = (x, r') \<Longrightarrow> view r' = view r"
  using redis_doc_read [of view rd t "HGETALL (keyBan uid)" r]
  by (auto simp: IsBanned_def split: prod.splits redis_reply.splits)

text \<open>
  C24: bans take effect. After a successful ban, with the cached entry of the user no older than its
  five seconds, every check of the user that is made more than five seconds after the ban and while
  the ban lasts reports the user as banned, unless the cache misses and Redis fails at that check.
\<close>

theorem ban_takes_effect:
  assumes "redis_doc view rd" "BanService_Ban rd T uid duration reason r = (None, r1)"
    and "in_int64 (T + duration)" "0 < duration"
    and "ttl c = 5000" "\<forall>e. entries c (banKey uid) = Some e \<longrightarrow> expireAt e \<le> T + 5000"
    and "\<forall>(t, other) \<in> set calls. t \<le> T + ban_ttl duration \<and>
      quiet (banKey uid) (\<lambda>r. view r (keyBan uid) = view r1 (keyBan uid)) other"
    and "(t, banned, failed) \<in> set (ban_run rd uid calls c r1)" "T + 5000 < t"
  shows "banned \<or> failed"
proof -
  let ?G = "\<lambda>r. view r (keyBan uid) = view r1 (keyBan uid)"
  have set: "SetBan rd T uid duration reason r = (None, r1)" using assms(2) by (simp add: BanService_Ban_def)
  have src: "?G r' \<and> (\<forall>v. x = Inr v \<longrightarrow> v = True)"
    if t: "t \<le> T + ban_ttl duration" and g: "?G r" and run: "ban_source rd t uid r = (x, r')" for t r x r'
  proof -
    obtain y where y: "IsBanned rd t uid r = (y, r')" "x = map_sum id fst y"
      using run by (auto simp: ban_source_def BanService_IsBanned_def split: prod.splits sum.splits)
    have "fst p" if "y = Inr p" for p
      using IsBanned_after_SetBan [OF assms(1) set assms(3) g y(1) [unfolded that]] t assms(4) by simp
    then show ?thesis using IsBanned_read [OF assms(1) y(1)] g y(2) by (cases y) auto
  qed
  have "settled (banKey uid) T True c" using assms(5,6) by (simp add: settled_def)
  moreover have "\<forall>(t, other) \<in> set calls. quiet (banKey uid) ?G other" using assms(7) by fast
  moreover have "\<forall>(t, other) \<in> set calls. \<forall>r x r'. ?G r \<longrightarrow> ban_source rd t uid r = (x, r') \<longrightarrow>
      ?G r' \<and> (\<forall>v. x = Inr v \<longrightarrow> v = True)"
  proof (intro ballI, clarify)
    fix t other r x r'
    assume "(t, other) \<in> set calls" and g: "?G r" and run: "ban_source rd t uid r = (x, r')"
    then have "t \<le> T + ban_ttl duration" using assms(7) by fast
    then show "?G r' \<and> (\<forall>v. x = Inr v \<longrightarrow> v = True)" using src g run by blast
  qed
  ultimately have "banned = True \<or> failed"
    by (rule ban_check.run_settles [where G = ?G, OF _ refl])
      (use assms(5,8,9) in \<open>simp_all add: ban_run_def\<close>)
  then show ?thesis by simp
qed

theorem ban_takes_effect_witness:
  "\<exists>r1. BanService_Ban ref_redis 0 7 60000 ''spam'' Map.empty = (None, r1) \<and>
     (6000, True, False) \<in> set (ban_run ref_redis 7 [(6000, id)] (NewLocalCache 5000) r1)"
proof -
  let ?r1 = "snd (SetBan ref_redis 0 7 60000 ''spam'' Map.empty)"
  have set: "BanService_Ban ref_redis 0 7 60000 ''spam'' Map.empty = (None, ?r1)"
    by (simp add: BanService_Ban_def SetBan_def ref_redis_def live_def Let_def split: prod.splits)
  obtain b c2 r2 where "checkBanCached ref_redis 6000 7 (NewLocalCache 5000) ?r1 = (b, c2, r2)"
    by (rule prod_cases3)
  then obtain f where bf: "ban_run ref_redis 7 [(6000, id)] (NewLocalCache 5000) ?r1 = [(6000, b, f)]"
    by (simp add: ban_run_def)
  have "\<not> f"
    using bf
    by (auto simp: ban_run_def lookup_failed_def ban_source_def BanService_IsBanned_def IsBanned_def SetBan_def
        ref_redis_def live_def Let_def ttl_secs_def split: prod.splits)
  moreover have "b \<or> f"
    by (rule ban_takes_effect [OF ref_redis_doc set, where c = "NewLocalCache 5000" and calls = "[(6000, id)]" and t = 6000])
      (simp_all add: in_int64_def int64_max_def int64_min_def NewLocalCache_def ban_ttl_def bf [unfolded NewLocalCache_def])
  ultimately show ?thesis using set bf by auto
qed

lemma SetChannelAvailable_stores:
  assumes "redis_doc view rd" "SetChannelAvailable rd now ty b r = (None, r1)"
  shows "view r1 (keyChannelAvail ty) = Some (VStr (if b then ''1'' else ''0''), None)"
proof -
  obtain rep where c: "rd now (SET (keyChannelAvail ty) (if b then ''1'' else ''0'') 0) r = (rep, r1)"
    "cmd_err rep = None"
    using assms(2) cmd_ok [of "rd now (SET (keyChannelAvail ty) (if b then ''1'' else ''0'') 0) r"]
    by (auto simp: SetChannelAvailable_def Let_def)
  show ?thesis using redis_doc_ok(2) [OF assms(1) c] by simp
qed

lemma IsAvailable_stored:
  assumes doc: "redis_doc view rd" and st: "view r (keyChannelAvail ty) = Some (VStr v, None)"
    and run: "IsAvailable rd t ty r = (x, r')"
  shows "view r' = view r \<and> (\<forall>b. x = Inr b \<longrightarrow> b = (v = ''1''))"
proof -
  obtain rep s where g: "rd t (GET (keyChannelAvail ty)) r = (rep, s)" by fastforce
  have s: "s = r'" using run by (cases rep) (auto simp: IsAvailable_def IsChannelAvailable_def g)
  have "rep = RBulk v" if "cmd_err rep = None"
    using redis_doc_ok(1) [OF doc g that] st by (cases rep) (simp_all add: live_def)
  then show ?thesis
    using run redis_doc_read [OF doc g] s
    by (cases rep) (auto simp: IsAvailable_def IsChannelAvailable_def g bad_reply_def)
qed

text \<open>
  Channel switches take effect. After a channel type has been switched on or off, every check
  made more than five seconds later follows the switch, unless the cache misses and Redis fails at
  that check; the switch has no end.
\<close>

theorem switch_takes_effect:
  assumes "redis_doc view rd" "SetChannelAvailable rd T ty on r = (None, r1)"
    and "ttl c = 5000" "\<forall>e. entries c (availKey ty) = Some e \<longrightarrow> expireAt e \<le> T + 5000"
    and "\<forall>(t, other) \<in> set calls.
      quiet (availKey ty) (\<lambda>r. view r (keyChannelAvail ty) = view r1 (keyChannelAvail ty)) other"
    and "(t, avail, failed) \<in> set (avail_run rd ty calls c r1)" "T + 5000 < t"
  shows "avail = on \<or> failed"
proof -
  let ?G = "\<lambda>r. view r (keyChannelAvail ty) = view r1 (keyChannelAvail ty)"
  have src: "?G r' \<and> (\<forall>v. x = Inr v \<longrightarrow> v = on)"
    if g: "?G r" and run: "IsAvailable rd t ty r = (x, r')" for t r x r'
  proof -
    have "view r (keyChannelAvail ty) = Some (VStr (if on then ''1'' else ''0''), None)"
      using SetChannelAvailable_stores [OF assms(1,2)] g by simp
    from IsAvailable_stored [OF assms(1) this run] show ?thesis using g by (cases on) (simp_all, blast+)
  qed
  have "settled (availKey ty) T on c" using assms(3,4) by (simp add: settled_def)
  moreover have "\<forall>(t, other) \<in> set calls. \<forall>r x r'. ?G r \<longrightarrow> IsAvailable rd t ty r = (x, r') \<longrightarrow>
      ?G r' \<and> (\<forall>v. x = Inr v \<longrightarrow> v = on)"
    by (intro ballI, clarify) (use src in blast)
  ultimately show ?thesis
    using avail_check.run_settles [where G = ?G, OF _ refl assms(5)] assms(3,6,7) by (simp add: avail_run_def)
qed

theorem switch_takes_effect_witness:
  "\<exists>r1. SetChannelAvailable ref_redis 0 2 False Map.empty = (None, r1) \<and>
     (6000, False, False) \<in> set (avail_run ref_redis 2 [(6000, id)] (NewLocalCache 5000) r1)"
proof -
  let ?r1 = "[keyChannelAvail 2 \<mapsto> (VStr ''0'', None)]"
  have set: "SetChannelAvailable ref_redis 0 2 False Map.empty = (None, ?r1)"
    by (simp add: SetChannelAvailable_def ref_redis_def Let_def)
  obtain b c2 r2 where "checkAvailCached ref_redis 6000 2 (NewLocalCache 5000) ?r1 = (b, c2, r2)"
    by (rule prod_cases3)
  then obtain f where bf: "avail_run ref_redis 2 [(6000, id)] (NewLocalCache 5000) ?r1 = [(6000, b, f)]"
    by (simp add: avail_run_def)
  have "\<not> f"
    using bf by (auto simp: avail_run_def lookup_failed_def IsAvailable_def IsChannelAvailable_def
        ref_redis_def live_def split: prod.splits)
  moreover have "b = False \<or> f"
    by (rule switch_takes_effect [OF ref_redis_doc set, where c = "NewLocalCache 5000" and calls = "[(6000, id)]" and t = 6000])
      (simp_all add: NewLocalCache_def bf [unfolded NewLocalCache_def])
  ultimately show ?thesis using set bf by auto
qed

end
