(* ===== verification/Delivery_Props.thy ===== *)
theory Delivery_Props
  imports IM_State Redis_Dedup
begin

text \<open>
  Properties of the delivery engine over the wiring of the process: who gets a message of a channel
  with members, and what bytes are queued.
\<close>

lemma gw_reach_exact: "gw_reach True m g \<Longrightarrow> user_exact g"
  using gw_inv_reach by (fastforce simp: gw_inv_def)

lemma BatchGetPresence_empty: "PresenceAdapter_BatchGetPresence rd now [] r = (Inr Map.empty, r)"
  by (simp add: PresenceAdapter_BatchGetPresence_def PresenceService_BatchGetPresence_def BatchGetPresence_def)

lemma fst_on_mongo: "fst (on_mongo f s) = fst (f (im_mongo s))"
  by (simp add: on_mongo_def split: prod.splits)

lemma Deliver_members:
  assumes "ChannelType msg \<notin> {CHANNEL_TYPE_WORLD, CHANNEL_TYPE_SYSTEM}"
    and "ChannelAdapter_GetMembers (dJson D) (dRedis D) now (ChannelId msg) (im_redis s) = (Inr ms, r1)"
    and "PresenceAdapter_BatchGetPresence (dRedis D) now ms r1 = (Inr pm, r2)"
    and "marshalPush (dProto D) msg = Some data"
  shows "Deliver (dProto D) (app_engine D now node) msg s =
    (None, deliver_loop (app_engine D now node) msg data pm ms (s\<lparr>im_redis := r2\<rparr>))"
proof (cases "ms = []")
  case True
  with assms(3) have "r2 = r1" by (simp add: BatchGetPresence_empty)
  then show ?thesis using assms True by (simp add: Deliver_def app_engine_def on_redis_def)
qed (use assms in \<open>simp add: Deliver_def app_engine_def on_redis_def\<close>)


subsection \<open>A group with one member online\<close>

definition group_msg :: im_message where
  "group_msg = \<lparr>MsgId = 3, ChannelId = ''g'', ChannelType = CHANNEL_TYPE_ALLIANCE,
     Sender = Some \<lparr>SenderId = 9, SenderName = [], SenderHeadImage = [], SenderRank = 0, AllianceName = []\<rparr>,
     Content = ''hi'', MsgType = 1, MsgParam = [], SendTime = 5, ClientMsgId = ''m''\<rparr>"

definition group_deps :: "(redis_db, mongo_db) deps" where
  "group_deps = \<lparr>dProto = wire_proto\<lparr>pImMessage := one_codec group_msg,
       pPushNewMessage := one_codec \<lparr>pn_Message = Some group_msg\<rparr>\<rparr>,
     dJson = demo_js, dRedis = ref_redis, dMongo = ref_mongo, dLua = exact_lua, dLower = id\<rparr>"

definition group_db :: redis_db where
  "group_db = [channelMembersKey ''g'' \<mapsto> (VSet [Sprintf_d 7, Sprintf_d 8, Sprintf_d 9], None),
     keyPresence 7 \<mapsto> (VHash [(''status'', ''online'')], Some 30000)]"

definition group_im :: "(redis_db, mongo_db) im" where
  "group_im = \<lparr>im_redis = group_db, im_mongo = demo_mdb, im_gw = demo_gw, im_bus = NewLocalBus,
     im_ring = demo_ring, im_tasks = [], im_ranges = Map.empty, im_banCache = NewLocalCache 5000,
     im_availCache = NewLocalCache 5000, im_writeCh = [], im_batch = []\<rparr>"

definition group_dir :: directory where
  "group_dir = \<lparr>dir_chans = Map.empty, joined = {(''g'', 7), (''g'', 8), (''g'', 9)}\<rparr>"

definition group_push :: bytes where
  "group_push = wire_frame \<lparr>CmdId = 4001, Seq = 0, Payload = [1]\<rparr>"

lemma group_lookups:
  "ChannelAdapter_GetMembers (dJson group_deps) (dRedis group_deps) 10 ''g'' group_db = (Inr [7, 8, 9], group_db)"
  "PresenceAdapter_BatchGetPresence (dRedis group_deps) 10 [7, 8, 9] group_db =
     (Inr [7 \<mapsto> \<lparr>pi_UID = 7, pi_GatewayNodeID = [], pi_ConnID = [], pi_Status = ''online''\<rparr>], group_db)"
  "marshalPush (dProto group_deps) group_msg = Some group_push"
proof -
  have k: "keyPresence 7 \<noteq> channelMembersKey ''g''" "keyPresence 8 \<noteq> keyPresence 7" "keyPresence 9 \<noteq> keyPresence 7"
    "keyPresence 8 \<noteq> channelMembersKey ''g''" "keyPresence 9 \<noteq> channelMembersKey ''g''"
    "keyChannelState ''g'' \<noteq> channelMembersKey ''g''" "keyChannelState ''g'' \<noteq> keyPresence 7"
    using redis_key_eq [of "KPresence 7" "KMembers ''g''"] redis_key_eq [of "KPresence 8" "KPresence 7"]
      redis_key_eq [of "KPresence 9" "KPresence 7"] redis_key_eq [of "KPresence 8" "KMembers ''g''"]
      redis_key_eq [of "KPresence 9" "KMembers ''g''"] redis_key_eq [of "KChannelState ''g''" "KMembers ''g''"]
      redis_key_eq [of "KChannelState ''g''" "KPresence 7"] by auto
  have i: "in_int64 7" "in_int64 8" "in_int64 9" by (simp_all add: in_int64_def int64_max_def int64_min_def)
  show "ChannelAdapter_GetMembers (dJson group_deps) (dRedis group_deps) 10 ''g'' group_db = (Inr [7, 8, 9], group_db)"
    by (simp add: ChannelAdapter_GetMembers_def ChannelService_GetMembers_def GetChannelState_def
        GetChannelMembers_def group_deps_def group_db_def ref_redis_def live_def k k [symmetric] i)
  show "PresenceAdapter_BatchGetPresence (dRedis group_deps) 10 [7, 8, 9] group_db =
     (Inr [7 \<mapsto> \<lparr>pi_UID = 7, pi_GatewayNodeID = [], pi_ConnID = [], pi_Status = ''online''\<rparr>], group_db)"
    by (auto simp: PresenceAdapter_BatchGetPresence_def PresenceService_BatchGetPresence_def BatchGetPresence_def
        group_deps_def group_db_def ref_redis_def live_def k k [symmetric] presence_of_data_def presence_of_hash_def
        field_def fun_eq_iff)
  show "marshalPush (dProto group_deps) group_msg = Some group_push"
    by (simp add: marshalPush_def group_deps_def group_push_def Engine_CmdPushNewMessage_def wire_codec_def
        one_codec_def)
qed


subsection \<open>The bytes of a push\<close>

text \<open>
  \<open>marshalPush\<close> leaves out the length prefix that \<open>Encode\<close> and \<open>EncodeRaw\<close> write and \<open>Decode\<close>
  expects. With the proto3 wire format of the frame, a client that decodes the stream takes the
  first bytes of the frame itself for a length and gives up.
\<close>

lemma varint_4001: "varint 4001 = [161, 31]"
  by (subst varint.simps, simp, subst varint.simps, simp)

lemma push_unreadable:
  assumes "pFrame P = wire_codec" "proto_Marshal (pPushNewMessage P) \<lparr>pn_Message = Some msg\<rparr> = Some payload"
    and "payload \<noteq> []" "marshalPush P msg = Some data"
  shows "Decode P (data @ rest) = (Inl FrameTooLarge, drop 4 (data @ rest))"
proof -
  obtain tl where "data = [8, 161, 31, 26] @ tl"
    using assms by (auto simp: marshalPush_def wire_codec_def wire_frame_def varint_field_def
        Engine_CmdPushNewMessage_def varint_4001)
  moreover have "unat (Uint32 [8, 161, 31, 26]) > maxFrameSize"
    by (simp add: maxFrameSize_def)
  ultimately show ?thesis by (simp add: Decode_def ReadFull_def headerSize_def)
qed

end
