(* ===== verification/Msg_Props.thy ===== *)
theory Msg_Props
  imports Msg_Checks Delivery_Props
begin

text \<open>
  Properties of sending in the message service: what every part of a send touches, how a send can
  end, and what a rejected and a repeated send do.
\<close>

subsection \<open>What each check touches in Redis\<close>

lemma checkBanCached_read:
  "redis_doc view rd \<Longrightarrow> checkBanCached rd now uid c r = (b, c', r') \<Longrightarrow> view r' = view r"
  by (auto simp: checkBanCached_def BanService_IsBanned_def Let_def
      dest!: IsBanned_read split: option.splits prod.splits sum.splits)

lemma IsAvailable_read: "redis_doc view rd \<Longrightarrow> IsAvailable rd t ty r = (x, r') \<Longrightarrow> view r' = view r"
  using redis_doc_read [of view rd t "GET (keyChannelAvail ty)" r]
  by (auto simp: IsAvailable_def IsChannelAvailable_def split: prod.splits redis_reply.splits)

lemma checkAvailCached_read:
  "redis_doc view rd \<Longrightarrow> checkAvailCached rd now ty c r = (b, c', r') \<Longrightarrow> view r' = view r"
  by (auto simp: checkAvailCached_def Let_def dest!: IsAvailable_read split: option.splits prod.splits sum.splits)

lemma SeqAllocator_Next_frame:
  assumes "redis_doc view rd" "SeqAllocator_Next rd now ch rs r = (out, rs', r')" "k \<noteq> keySeq ch"
  shows "view r' k = view r k"
proof -
  have "r' = r \<or> (\<exists>x. IncrBy rd now ch seqBatchSize r = (x, r'))"
    using assms(2) by (auto simp: SeqAllocator_Next_def split: option.splits prod.splits sum.splits)
  then have "r' = r \<or> (\<exists>rep. rd now (INCRBY (keySeq ch) seqBatchSize) r = (rep, r'))"
    by (auto simp: IncrBy_def split: prod.splits)
  then show ?thesis using redis_doc_frame [OF assms(1)] assms(3) by fastforce
qed

lemma count_and_mark_frame:
  assumes doc: "redis_doc view rd" and k: "k \<noteq> dk" "k \<noteq> rk"
    and run: "count_and_mark rd L now dk rk rt dt hint r = (out, r')"
  shows "view r' k = view r k"
proof -
  obtain rep r2 where i: "rd now (INCR rk) r = (rep, r2)" by fastforce
  have v2: "view r2 k = view r k" using redis_doc_frame [OF doc i] k(2) by simp
  have E: "view r3 k = view r k" if "rd now (EXPIRE rk x) r2 = (rep, r3)" for x rep r3
    using redis_doc_frame [OF doc that] k(2) v2 by simp
  have M: "view r4 k = view r k" if "mark_dedup rd L now dk dt hint n r3 = (out, r4)" "view r3 k = view r k" for n r3 out r4
    using mark_dedup_frame [OF doc that(1) k(1)] that(2) by simp
  show ?thesis
    using run v2 unfolding count_and_mark_def i
    by (auto simp: E split: redis_reply.splits if_splits option.splits prod.splits dest: M)
qed

lemma DedupAndRateCheck_frame:
  assumes doc: "redis_doc view rd" and k: "k \<noteq> keyDedup cid" "k \<noteq> keyRateLimit uid"
    and run: "DedupAndRateCheck rd L now cid uid limit hint r = (out, r')"
  shows "view r' k = view r k"
proof -
  obtain x where x: "dedupRateScript rd L now (keyDedup cid) (keyRateLimit uid) (Sprintf_d (rateLimitTTL div 1000))
      (Sprintf_d (if cid \<noteq> [] then dedupTTL div 1000 else 0)) (Sprintf_d hint) r = (x, r')"
    using run unfolding DedupAndRateCheck_def Let_def by (auto split: prod.splits sum.splits list.splits)
  obtain rep r1 where g: "rd now (GET (keyDedup cid)) r = (rep, r1)" by fastforce
  have v: "view r1 = view r" using redis_doc_read [OF doc g] by simp
  have "r' = r1 \<or> (\<exists>rt dt h out. count_and_mark rd L now (keyDedup cid) (keyRateLimit uid) rt dt h r1 = (out, r'))"
    using x unfolding dedupRateScript_def Let_def g by (auto split: redis_reply.splits)
  then show ?thesis using v count_and_mark_frame [OF doc k] by fastforce
qed

subsection \<open>Outcomes of a send\<close>

definition silent :: "('r, 'm) im \<Rightarrow> ('r, 'm) im \<Rightarrow> bool" where
  "silent s s' \<longleftrightarrow>
     im_tasks s' = im_tasks s \<and> im_writeCh s' = im_writeCh s \<and> im_batch s' = im_batch s \<and>
     im_gw s' = im_gw s \<and> im_mongo s' = im_mongo s \<and> im_bus s' = im_bus s \<and> im_ring s' = im_ring s"

definition send_errors :: "err set" where
  "send_errors = {ErrMsgTooLong, ErrContentIllegal, ErrUserBanned, ErrChannelUnavail, ErrServerError, ErrRateLimited}"

lemma silent_refl [simp]: "silent s s"
  by (simp add: silent_def)

text \<open>
  A send is rejected, or finds a duplicate, or is posted, and in each case with the state reached
  just after the checks.
\<close>

definition send_outcome ::
  "('r \<Rightarrow> redis_db) \<Rightarrow> ('r, 'm) deps \<Rightarrow> string \<Rightarrow> (nat \<Rightarrow> int) \<Rightarrow> int \<Rightarrow> sender_info option \<Rightarrow> string \<Rightarrow>
     svc_send_req \<Rightarrow> ('r, 'm) im \<Rightarrow> (err + svc_send_resp) go \<Rightarrow> ('r, 'm) im \<Rightarrow> bool" where
  "send_outcome view D node clk uid sender content req s out s' \<longleftrightarrow>
     (\<exists>s4. silent s s4 \<and>
       (\<forall>k. k \<notin> {keySeq (sr_ChannelID req), keyDedup (sr_ClientMsgID req), keyRateLimit uid} \<longrightarrow>
          view (im_redis s4) k = view (im_redis s) k) \<and>
       ((\<exists>e \<in> send_errors. out = Ret (Inl e) \<and> s' = s4) \<or> out = Panic \<and> s' = s4 \<or>
        (\<exists>msgID res r3.
           DedupAndRateCheck (dRedis D) (dLua D) (clk 3) (sr_ClientMsgID req) uid ratePerSecond msgID r3 =
             (Ret (Inr res), im_redis s4) \<and>
           (\<forall>k. k \<noteq> keySeq (sr_ChannelID req) \<longrightarrow> view r3 k = view (im_redis s) k) \<and>
           (DedupExists res \<and> out = Ret (Inr \<lparr>rs_MsgID = DedupMsgID res, rs_SendTime = clk 4\<rparr>) \<and> s' = s4 \<or>
            \<not> DedupExists res \<and> RateOK res \<and>
            (\<exists>resp. send_post D node clk sender content req msgID s4 = (resp, s') \<and> out = Ret (Inr resp))))))"

text \<open>The part of a send after a number has been allocated.\<close>

lemma numbered_outcome:
  assumes doc: "redis_doc view (dRedis D)" and quiet: "silent s (s3\<lparr>im_redis := r4\<rparr>)"
    and v3: "\<And>k. k \<noteq> keySeq (sr_ChannelID req) \<Longrightarrow> view r3 k = view (im_redis s) k"
    and d: "DedupAndRateCheck (dRedis D) (dLua D) (clk 3) (sr_ClientMsgID req) uid ratePerSecond msgID r3 = (y, r4)"
    and run: "(case y of
         Panic \<Rightarrow> (Panic, s3\<lparr>im_redis := r4\<rparr>)
       | Ret (Inl e) \<Rightarrow> (Ret (Inl ErrServerError), s3\<lparr>im_redis := r4\<rparr>)
       | Ret (Inr res) \<Rightarrow>
           if DedupExists res then (Ret (Inr \<lparr>rs_MsgID = DedupMsgID res, rs_SendTime = clk 4\<rparr>), s3\<lparr>im_redis := r4\<rparr>)
           else if \<not> RateOK res then (Ret (Inl ErrRateLimited), s3\<lparr>im_redis := r4\<rparr>)
           else let (resp, s5) = send_post D node clk sender content req msgID (s3\<lparr>im_redis := r4\<rparr>) in (Ret (Inr resp), s5)) =
       (out, s')"
  shows "send_outcome view D node clk uid sender content req s out s'"
proof -
  let ?s4 = "s3\<lparr>im_redis := r4\<rparr>"
  have v4: "view r4 k = view (im_redis s) k"
    if "k \<notin> {keySeq (sr_ChannelID req), keyDedup (sr_ClientMsgID req), keyRateLimit uid}" for k
    using DedupAndRateCheck_frame [OF doc _ _ d, of k] v3 that by simp
  consider e where "e \<in> send_errors" "out = Ret (Inl e)" "s' = ?s4" | "out = Panic" "s' = ?s4"
    | res where "y = Ret (Inr res)"
        "DedupExists res \<and> out = Ret (Inr \<lparr>rs_MsgID = DedupMsgID res, rs_SendTime = clk 4\<rparr>) \<and> s' = ?s4 \<or>
         \<not> DedupExists res \<and> RateOK res \<and>
         (\<exists>resp. send_post D node clk sender content req msgID ?s4 = (resp, s') \<and> out = Ret (Inr resp))"
    using run by (auto simp: send_errors_def split: go.splits sum.splits if_splits prod.splits)
  then show ?thesis
  proof cases
    case (3 res)
    have "DedupAndRateCheck (dRedis D) (dLua D) (clk 3) (sr_ClientMsgID req) uid ratePerSecond msgID r3 =
        (Ret (Inr res), im_redis ?s4)" using d 3(1) by simp
    then show ?thesis using quiet v3 v4 3(2) unfolding send_outcome_def
      by (intro exI [of _ ?s4] conjI disjI2) (auto intro!: exI [of _ msgID] exI [of _ res] exI [of _ r3])
  qed (use quiet v4 in \<open>unfold send_outcome_def, intro exI [of _ ?s4], auto\<close>)
qed

lemma send_admit_outcome:
  assumes doc: "redis_doc view (dRedis D)"
    and run: "send_admit D node clk uid sender content req s = (out, s')"
  shows "send_outcome view D node clk uid sender content req s out s'"
proof -
  let ?rd = "dRedis D" and ?ch = "sr_ChannelID req"
  obtain banned bc r1 where b: "checkBanCached ?rd (clk 0) uid (im_banCache s) (im_redis s) = (banned, bc, r1)"
    by (rule prod_cases3)
  obtain avail ac r2 where a: "checkAvailCached ?rd (clk 1) (sr_ChannelType req) (im_availCache s) r1 = (avail, ac, r2)"
    by (rule prod_cases3)
  obtain x rs r3 where n: "SeqAllocator_Next ?rd (clk 2) ?ch (im_ranges s) r2 = (x, rs, r3)"
    by (rule prod_cases3)
  have v1: "view r1 = view (im_redis s)" using checkBanCached_read [OF doc b] .
  have v2: "view r2 = view (im_redis s)" using checkAvailCached_read [OF doc a] v1 by simp
  have v3: "k \<noteq> keySeq ?ch \<Longrightarrow> view r3 k = view (im_redis s) k" for k
    using SeqAllocator_Next_frame [OF doc n] v2 by simp
  note defs = send_admit_def Let_def b a n silent_def send_errors_def
  consider "banned" | "\<not> banned" "\<not> avail" | e where "\<not> banned" "avail" "x = Inl e"
    | msgID where "\<not> banned" "avail" "x = Inr msgID" by (cases x) auto
  then show ?thesis
  proof cases
    case 4
    let ?s3 = "s\<lparr>im_banCache := bc, im_availCache := ac, im_ranges := rs\<rparr>"
    obtain y r4 where d: "DedupAndRateCheck ?rd (dLua D) (clk 3) (sr_ClientMsgID req) uid ratePerSecond msgID r3 = (y, r4)"
      by fastforce
    have "silent s (?s3\<lparr>im_redis := r4\<rparr>)" by (simp add: silent_def)
    then show ?thesis
    proof (rule numbered_outcome [where clk = clk and D = D and req = req, OF doc _ _ d])
      show "k \<noteq> keySeq ?ch \<Longrightarrow> view r3 k = view (im_redis s) k" for k by (rule v3)
    qed (use run 4 in \<open>simp add: send_admit_def Let_def b a n d del: One_nat_def\<close>)
  qed (use run v1 v2 v3 in \<open>unfold send_outcome_def, intro exI [of _ s'], auto simp: defs simp del: One_nat_def\<close>)
qed

definition admitted_content ::
  "(int \<Rightarrow> string \<Rightarrow> filter_result go option) list \<Rightarrow> int \<Rightarrow> string \<Rightarrow> string \<Rightarrow> bool" where
  "admitted_content filters uid raw content \<longleftrightarrow>
     length raw \<le> maxMsgLength \<and>
     (\<exists>fr. FilterChain_Check filters uid raw = Some (Ret fr) \<and> Pass fr \<and>
        content = (if Replace fr \<noteq> [] then Replace fr else raw))"

lemma SendMsg_outcome:
  assumes doc: "redis_doc view (dRedis D)"
    and run: "SendMsg D filters node clk uid sender req s = Some (out, s')"
  shows "\<exists>content. send_outcome view D node clk uid sender content req s out s' \<and>
    ((\<exists>resp. out = Ret (Inr resp)) \<longrightarrow> admitted_content filters uid (sr_Content req) content)"
proof -
  consider "s' = s" "out = Panic \<or> (\<exists>e \<in> send_errors. out = Ret (Inl e))"
    | content where "send_admit D node clk uid sender content req s = (out, s')"
        "admitted_content filters uid (sr_Content req) content"
    using run by (auto simp: SendMsg_def send_errors_def admitted_content_def Let_def split: if_splits option.splits go.splits)
  then show ?thesis
  proof cases
    case 1
    then have "send_outcome view D node clk uid sender [] req s out s'"
      unfolding send_outcome_def by (intro exI [of _ s]) auto
    then show ?thesis using 1 by auto
  qed (use send_admit_outcome [OF doc] in blast)
qed

subsection \<open>What delivery leaves alone\<close>

inductive pushed :: "gateway \<Rightarrow> gateway \<Rightarrow> bool" where
  unpushed [simp]: "pushed g g"
| push_one: "pushed g g' \<Longrightarrow> pushed g (ConnManager_PushToUID uid data g')"

lemma pushed_trans: "pushed g2 g3 \<Longrightarrow> pushed g1 g2 \<Longrightarrow> pushed g1 g3"
  by (induction rule: pushed.induct) (simp_all add: pushed.push_one)

text \<open>The messages that started goroutines are going to cache: one for every message posted.\<close>

fun cached_ids :: "task list \<Rightarrow> (string \<times> int) list" where
  "cached_ids [] = []"
| "cached_ids (CacheWrite ch msg # ts) = (ch, MsgId msg) # cached_ids ts"
| "cached_ids (RunHandler h t msg # ts) = cached_ids ts"

lemma cached_ids_append [simp]: "cached_ids (ts @ us) = cached_ids ts @ cached_ids us"
  by (induction ts rule: cached_ids.induct) simp_all

lemma cached_ids_handlers [simp]: "cached_ids (map (\<lambda>(h, t, m). RunHandler h t m) ps) = []"
  by (induction ps) auto

definition delivery_frame :: "('r, 'm) im \<Rightarrow> ('r, 'm) im \<Rightarrow> bool" where
  "delivery_frame s s' \<longleftrightarrow> pushed (im_gw s) (im_gw s') \<and> im_writeCh s' = im_writeCh s \<and> im_batch s' = im_batch s \<and> im_bus s' = im_bus s \<and>
     im_ring s' = im_ring s \<and> im_ranges s' = im_ranges s \<and> im_banCache s' = im_banCache s \<and>
     im_availCache s' = im_availCache s \<and> (\<exists>ts. im_tasks s' = im_tasks s @ ts \<and> cached_ids ts = [])"

lemma deliver_loop_frame:
  "delivery_frame s (deliver_loop (app_engine D now node) msg data pm uids s) \<and>
   im_redis (deliver_loop (app_engine D now node) msg data pm uids s) = im_redis s"
proof (induction uids arbitrary: s)
  case (Cons u uids)
  define s1 where "s1 = (if is_sender msg u then s
    else if \<not> is_online pm u then snd (eng_Enqueue (app_engine D now node) u msg s)
    else snd (eng_PushToUID (app_engine D now node) u data s))"
  have "delivery_frame s s1" "im_redis s1 = im_redis s"
    by (auto simp: s1_def app_engine_def on_mongo_def delivery_frame_def pushed.push_one split: prod.splits)
  moreover have "deliver_loop (app_engine D now node) msg data pm (u # uids) s =
      deliver_loop (app_engine D now node) msg data pm uids s1"
    by (simp add: s1_def)
  ultimately show ?case using Cons.IH [of s1] by (simp only:) (auto simp: delivery_frame_def intro: pushed_trans)
qed (simp add: delivery_frame_def)

lemma GetMembers_read:
  assumes "redis_doc view rd" "ChannelAdapter_GetMembers js rd now cid r = (x, r')"
  shows "view r' = view r"
proof -
  have g: "GetChannelState js rd now cid r = (y, r1) \<Longrightarrow> view r1 = view r" for y r1
    using redis_doc_read [OF assms(1), of now "GET (keyChannelState cid)" r]
    by (auto simp: GetChannelState_def split: prod.splits redis_reply.splits option.splits)
  have m: "GetChannelMembers rd now cid r1 = (y, r2) \<Longrightarrow> view r2 = view r1" for r1 y r2
    using redis_doc_read [OF assms(1), of now "SMEMBERS (channelMembersKey cid)" r1]
    by (auto simp: GetChannelMembers_def split: prod.splits redis_reply.splits)
  obtain y r1 where y: "GetChannelState js rd now cid r = (y, r1)" by fastforce
  show ?thesis
    using assms(2) g [OF y] m
    by (auto simp: ChannelAdapter_GetMembers_def ChannelService_GetMembers_def y split: sum.splits option.splits if_splits)
qed

lemma PresenceAdapter_read:
  assumes "redis_doc view rd" "PresenceAdapter_BatchGetPresence rd now uids r = (x, r')"
  shows "view r' = view r"
  using assms(2) BatchGetPresence_read [OF assms(1)]
  by (auto simp: PresenceAdapter_BatchGetPresence_def PresenceService_BatchGetPresence_def
      split: prod.splits sum.splits)

lemma Deliver_frame:
  assumes doc: "redis_doc view (dRedis D)"
    and run: "Deliver P (app_engine D now node) msg s = (e, s')"
  shows "delivery_frame s s' \<and> view (im_redis s') = view (im_redis s)"
proof (cases "ChannelType msg = CHANNEL_TYPE_WORLD \<or> ChannelType msg = CHANNEL_TYPE_SYSTEM")
  case True
  then show ?thesis using run by (auto simp: Deliver_def app_engine_def delivery_frame_def split: if_splits)
next
  case False
  obtain x r1 where g: "ChannelAdapter_GetMembers (dJson D) (dRedis D) now (ChannelId msg) (im_redis s) = (x, r1)"
    by fastforce
  have v1: "view r1 = view (im_redis s)" using GetMembers_read [OF doc g] .
  have eg: "eng_GetMembers (app_engine D now node) (ChannelId msg) s = (x, s\<lparr>im_redis := r1\<rparr>)"
    by (simp add: app_engine_def on_redis_def g)
  have rd: "delivery_frame s (s\<lparr>im_redis := r\<rparr>)" for r by (simp add: delivery_frame_def)
  show ?thesis
  proof (cases "\<exists>ms. x = Inr ms \<and> ms \<noteq> []")
    case True
    then obtain ms where ms: "x = Inr ms" "ms \<noteq> []" by blast
    obtain y r2 where p: "PresenceAdapter_BatchGetPresence (dRedis D) now ms r1 = (y, r2)" by fastforce
    have v2: "view r2 = view (im_redis s)" using PresenceAdapter_read [OF doc p] v1 by simp
    have ep: "eng_BatchGetPresence (app_engine D now node) ms (s\<lparr>im_redis := r1\<rparr>) = (y, s\<lparr>im_redis := r2\<rparr>)"
      by (simp add: app_engine_def on_redis_def p)
    have "s' = s\<lparr>im_redis := r2\<rparr> \<or> (\<exists>data pm. s' = deliver_loop (app_engine D now node) msg data pm ms (s\<lparr>im_redis := r2\<rparr>))"
      using run False ms by (auto simp: Deliver_def eg ep split: sum.splits option.splits)
    then show ?thesis
      using deliver_loop_frame [of "s\<lparr>im_redis := r2\<rparr>" D now node msg _ _ ms] rd v2
      by (auto simp: delivery_frame_def)
  next
    case noone: False
    then show ?thesis using run False v1 rd by (cases x) (auto simp: Deliver_def eg)
  qed
qed

lemma send_post_frame:
  assumes doc: "redis_doc view (dRedis D)"
    and run: "send_post D node clk sender content req msgID s = (resp, s')"
  shows "resp = \<lparr>rs_MsgID = msgID, rs_SendTime = clk 4\<rparr> \<and> view (im_redis s') = view (im_redis s) \<and>
    (\<exists>ts. im_tasks s' = im_tasks s @ CacheWrite (sr_ChannelID req) (build_msg msgID (clk 4) sender content req) # ts \<and>
       cached_ids ts = []) \<and>
    im_ranges s' = im_ranges s \<and> im_writeCh s' = im_writeCh s @
      (if length (im_writeCh s) < writeChCap then [build_doc msgID (clk 4) (clk 5) sender content req] else []) \<and>
    im_batch s' = im_batch s \<and> im_bus s' = im_bus s \<and> im_ring s' = im_ring s \<and> pushed (im_gw s) (im_gw s')"
proof -
  let ?msg = "build_msg msgID (clk 4) sender content req"
  define s2 where "s2 = s\<lparr>im_tasks := im_tasks s @ [CacheWrite (sr_ChannelID req) ?msg],
    im_writeCh := im_writeCh s @ (if length (im_writeCh s) < writeChCap
      then [build_doc msgID (clk 4) (clk 5) sender content req] else [])\<rparr>"
  obtain e where d: "Deliver (dProto D) (app_engine D (clk 6) node) ?msg s2 = (e, s')"
    and r: "resp = \<lparr>rs_MsgID = msgID, rs_SendTime = clk 4\<rparr>"
    using run by (cases "length (im_writeCh s) < writeChCap"; cases "Deliver (dProto D) (app_engine D (clk 6) node) ?msg s2")
      (auto simp: send_post_def Let_def s2_def)
  from Deliver_frame [OF doc d] r show ?thesis by (auto simp: delivery_frame_def s2_def)
qed

lemma SendMsg_frame:
  assumes doc: "redis_doc view (dRedis D)"
    and run: "SendMsg D filters node clk uid sender req s = Some (out, s')"
  shows "im_bus s' = im_bus s" "im_ring s' = im_ring s" "pushed (im_gw s) (im_gw s')" "im_batch s' = im_batch s"
    "length (im_writeCh s) \<le> writeChCap \<Longrightarrow> length (im_writeCh s') \<le> writeChCap"
proof -
  obtain content where "send_outcome view D node clk uid sender content req s out s'"
    using SendMsg_outcome [OF doc run] by blast
  then obtain s4 where q: "silent s s4" and
    or: "s' = s4 \<or> (\<exists>msgID resp. send_post D node clk sender content req msgID s4 = (resp, s'))"
    unfolding send_outcome_def by blast
  from or show "im_bus s' = im_bus s" "im_ring s' = im_ring s" "pushed (im_gw s) (im_gw s')" "im_batch s' = im_batch s"
    "length (im_writeCh s) \<le> writeChCap \<Longrightarrow> length (im_writeCh s') \<le> writeChCap"
    using q by (auto simp: silent_def dest!: send_post_frame [OF doc])
qed

subsection \<open>Properties of sending\<close>

lemma msg_keys [key_simps]:
  "keyMsgCache a \<noteq> keySeq b" "keyMsgCache a \<noteq> keyDedup c" "keyMsgCache a \<noteq> keyRateLimit u"
  "keyDedup c \<noteq> keySeq b"
  using redis_key_eq [of "KMsgCache a" "KSeq b"] redis_key_eq [of "KMsgCache a" "KDedup c"]
    redis_key_eq [of "KMsgCache a" "KRateLimit u"] redis_key_eq [of "KDedup c" "KSeq b"] by auto


definition demo_req :: "string \<Rightarrow> svc_send_req" where
  "demo_req content = \<lparr>sr_ChannelID = ''world'', sr_ChannelType = CHANNEL_TYPE_WORLD, sr_Content = content,
     sr_MsgType = 1, sr_MsgParam = [], sr_ClientMsgID = ''m1''\<rparr>"


text \<open>
  C9: sending is idempotent. When a message with a client id has been posted, then for 24 hours
  any further send with that client id, by anybody and with whatever content, posts nothing: no
  queue, connection, topic or document changes. If it reports success, it reports the number of the
  first message.
\<close>

theorem send_retry:
  assumes "redis_doc view (dRedis D)" "lua_doc (dLua D)" "dedup_ok (dLua D) (view (im_redis s))"
    and "SendMsg D filters node clk uid sender req s = Some (Ret (Inr resp), s1)" "im_tasks s1 \<noteq> im_tasks s"
    and "sr_ClientMsgID req \<noteq> []" "0 < rs_MsgID resp" "rs_MsgID resp \<le> 9007199254740992"
    and "view (im_redis s2) (keyDedup (sr_ClientMsgID req)) = view (im_redis s1) (keyDedup (sr_ClientMsgID req))"
    and "sr_ClientMsgID req' = sr_ClientMsgID req" "clk' 3 \<le> clk 3 + 24 * 3600 * 1000"
    and "SendMsg D filters' node' clk' uid' sender' req' s2 = Some (out, s3)"
  shows "silent s2 s3 \<and> (\<forall>resp'. out = Ret (Inr resp') \<longrightarrow> rs_MsgID resp' = rs_MsgID resp)"
proof -
  let ?cid = "sr_ClientMsgID req"
  obtain content where "send_outcome view D node clk uid sender content req s (Ret (Inr resp)) s1"
    using SendMsg_outcome [OF assms(1,4)] by blast
  then obtain s4 msgID res r3 where first: "silent s s4"
    "DedupAndRateCheck (dRedis D) (dLua D) (clk 3) ?cid uid ratePerSecond msgID r3 = (Ret (Inr res), im_redis s4)"
    "\<forall>k. k \<noteq> keySeq (sr_ChannelID req) \<longrightarrow> view r3 k = view (im_redis s) k"
    "\<not> DedupExists res" "send_post D node clk sender content req msgID s4 = (resp, s1)"
    using assms(5) by (auto simp: send_outcome_def silent_def)
  note post = send_post_frame [OF assms(1) first(5)]
  have id: "msgID = rs_MsgID resp" using post by simp
  have "dedup_ok (dLua D) (view r3)"
    using assms(3) first(3) by (simp add: dedup_ok_def key_simps)
  from check_marks [OF assms(1,2) first(2,4) assms(6) _ _ this]
  have "view (im_redis s4) (keyDedup ?cid) =
      Some (VStr (Sprintf_d (rs_MsgID resp)), Some (clk 3 + dedup_secs ?cid * 1000))"
    using assms(7,8) id by simp
  then have stored: "view (im_redis s2) (keyDedup ?cid) =
      Some (VStr (Sprintf_d (rs_MsgID resp)), Some (clk 3 + dedup_secs ?cid * 1000))"
    using post assms(9) by simp
  obtain content' where second: "send_outcome view D node' clk' uid' sender' content' req' s2 out s3"
    using SendMsg_outcome [OF assms(1,12)] by blast
  have hit: "DedupExists res' \<and> DedupMsgID res' = rs_MsgID resp"
    if "DedupAndRateCheck (dRedis D) (dLua D) (clk' 3) ?cid uid' ratePerSecond n r' = (Ret (Inr res'), r'')"
      "\<forall>k. k \<noteq> keySeq (sr_ChannelID req') \<longrightarrow> view r' k = view (im_redis s2) k" for n r' res' r''
  proof -
    have "dedup_live (clk' 3) (view r') ?cid (rs_MsgID resp)"
      using that(2) stored assms(6,11) by (simp add: dedup_live_def live_def dedup_secs_def key_simps)
    from dedup_hit [OF assms(1,2) this _ assms(8) that(1)] assms(7) show ?thesis by auto
  qed
  show ?thesis
    using second hit unfolding send_outcome_def assms(10) by (auto; metis)
qed

paragraph \<open>A send that is posted\<close>

definition fresh_im :: "(redis_db, mongo_db) im" where
  "fresh_im = group_im\<lparr>im_redis := Map.empty\<rparr>"

lemma demo_keys:
  "keyRateLimit 7 \<noteq> keySeq ''world''" "keySeq ''world'' \<noteq> keyRateLimit 7" "keyDedup ''m1'' \<noteq> keySeq ''world''"
  "keySeq ''world'' \<noteq> keyDedup ''m1''" "keyBan 7 \<noteq> keySeq ''world''"
  using redis_key_eq [of "KRateLimit 7" "KSeq ''world''"] redis_key_eq [of "KDedup ''m1''" "KSeq ''world''"]
    redis_key_eq [of "KBan 7" "KSeq ''world''"] by auto

lemma demo_next:
  "\<exists>rs r. SeqAllocator_Next ref_redis 2 ''world'' Map.empty Map.empty = (Inr 1, rs, r) \<and>
     (\<forall>k. k \<noteq> keySeq ''world'' \<longrightarrow> r k = None)"
  by (simp add: SeqAllocator_Next_def next_local_def IncrBy_def ref_redis_def incr_doc_def live_def
      install_range_def seqBatchSize_def in_int64_def int64_max_def int64_min_def)

lemma demo_check:
  assumes "\<forall>k. k \<noteq> keySeq ''world'' \<longrightarrow> r k = None"
  shows "\<exists>r'. DedupAndRateCheck ref_redis exact_lua 3 ''m1'' 7 100 1 r =
    (Ret (Inr \<lparr>DedupExists = False, DedupMsgID = 0, RateOK = True\<rparr>), r')"
  using assms demo_keys
  by (simp add: check_defs live_def key_simps Let_def rateLimitTTL_def dedupTTL_def ttl_secs_def
      in_int64_def int64_max_def int64_min_def)

lemma demo_send:
  "\<exists>s1. SendMsg group_deps [] ''n1'' int 7 None (demo_req ''hi'') fresh_im =
     Some (Ret (Inr \<lparr>rs_MsgID = 1, rs_SendTime = 4\<rparr>), s1) \<and> im_tasks s1 \<noteq> im_tasks fresh_im"
proof -
  obtain rs r where n: "SeqAllocator_Next ref_redis 2 ''world'' Map.empty Map.empty = (Inr 1, rs, r)"
    "\<forall>k. k \<noteq> keySeq ''world'' \<longrightarrow> r k = None" using demo_next by blast
  obtain r' where c: "DedupAndRateCheck ref_redis exact_lua 3 ''m1'' 7 100 1 r =
    (Ret (Inr \<lparr>DedupExists = False, DedupMsgID = 0, RateOK = True\<rparr>), r')" using demo_check [OF n(2)] by blast
  show ?thesis
    by (simp add: SendMsg_def send_admit_def checkBanCached_def checkAvailCached_def BanService_IsBanned_def
        IsBanned_def IsAvailable_def IsChannelAvailable_def ref_redis_def live_def fresh_im_def group_im_def
        group_deps_def demo_req_def maxMsgLength_def n c ratePerSecond_def
        send_post_def build_msg_def Deliver_def app_engine_def Let_def writeChCap_def Publish_def NewLocalBus_def)
qed

theorem send_retry_witness:
  "\<exists>s1 out s3. SendMsg group_deps [] ''n1'' int 7 None (demo_req ''hi'') fresh_im =
       Some (Ret (Inr \<lparr>rs_MsgID = 1, rs_SendTime = 4\<rparr>), s1) \<and>
     SendMsg group_deps [] ''n1'' (\<lambda>i. 60000 + int i) 7 None (demo_req ''other'') s1 = Some (out, s3) \<and> silent s1 s3"
proof -
  obtain s1 where s1: "SendMsg group_deps [] ''n1'' int 7 None (demo_req ''hi'') fresh_im =
     Some (Ret (Inr \<lparr>rs_MsgID = 1, rs_SendTime = 4\<rparr>), s1)" "im_tasks s1 \<noteq> im_tasks fresh_im"
    using demo_send by blast
  have "\<exists>out s3. SendMsg group_deps [] ''n1'' (\<lambda>i. 60000 + int i) 7 None (demo_req ''other'') s1 = Some (out, s3)"
    by (simp add: SendMsg_def demo_req_def maxMsgLength_def)
  then obtain out s3 where s3: "SendMsg group_deps [] ''n1'' (\<lambda>i. 60000 + int i) 7 None (demo_req ''other'') s1 = Some (out, s3)"
    by blast
  have doc: "redis_doc id (dRedis group_deps)" "lua_doc (dLua group_deps)"
    "dedup_ok (dLua group_deps) (id (im_redis fresh_im))"
    by (simp_all add: group_deps_def ref_redis_doc exact_lua_doc dedup_ok_def fresh_im_def)
  from send_retry [OF doc s1 _ _ _ refl _ _ s3] s1(1) s3 show ?thesis by (auto simp: demo_req_def)
qed

end
