(* ===== verification/Msg_Store.thy ===== *)
theory Msg_Store
  imports Msg_Props
begin

text \<open>
  Storing messages: the background writer of the message service loses, repeats and reorders
  nothing while it runs.
\<close>

subsection \<open>The writer\<close>

fun writer_run :: "('r, 'm) deps \<Rightarrow> writer_event list \<Rightarrow> ('r, 'm) im \<Rightarrow> ('r, 'm) im" where
  "writer_run D [] s = s"
| "writer_run D (ev # evs) s = writer_run D evs (asyncWriter D ev s)"

definition stored_docs :: "('m \<Rightarrow> mongo_db) \<Rightarrow> ('r, 'm) im \<Rightarrow> message_doc list" where
  "stored_docs mview s = mdb_messages (mview (im_mongo s))"

definition pipeline :: "('m \<Rightarrow> mongo_db) \<Rightarrow> ('r, 'm) im \<Rightarrow> message_doc list" where
  "pipeline mview s = stored_docs mview s @ im_batch s @ im_writeCh s"

definition inserts_succeed :: "'m mongo \<Rightarrow> bool" where
  "inserts_succeed mg \<longleftrightarrow> (\<forall>docs m. fst (InsertMessages mg docs m) = None)"

lemma fold_insert_unique: "ids_unique (ds @ new) \<Longrightarrow> fold insert_doc new ds = ds @ new"
proof (induction new arbitrary: ds)
  case (Cons d new)
  then have "(md_ChannelID d, md_MsgID d) \<notin> (\<lambda>d. (md_ChannelID d, md_MsgID d)) ` set ds"
    by (auto simp: ids_unique_def)
  then have "insert_doc d ds = ds @ [d]" unfolding insert_doc_def same_id_def image_iff by force
  then show ?case using Cons.IH [of "ds @ [d]"] Cons.prems by simp
qed simp

lemma InsertMessages_stores:
  assumes doc: "mongo_doc mview mg" and ok: "inserts_succeed mg" and u: "ids_unique (mdb_messages (mview m) @ docs)"
  shows "mdb_messages (mview (snd (InsertMessages mg docs m))) = mdb_messages (mview m) @ docs"
proof (cases "docs = []")
  case False
  obtain rep m' where g: "mg (InsertManyMsgs docs) m = (rep, m')" by fastforce
  have "fst (InsertMessages mg docs m) = None" using ok by (simp add: inserts_succeed_def)
  then have "rep \<noteq> MErr e" for e using False by (auto simp: InsertMessages_def g)
  from mongo_doc_ok [OF doc g this] show ?thesis
    using False fold_insert_unique [OF u] by (simp add: InsertMessages_def g Let_def)
qed (simp add: InsertMessages_def)

lemma flush_pipeline:
  assumes "mongo_doc mview (dMongo D)" "inserts_succeed (dMongo D)" "ids_unique (pipeline mview s)"
  shows "pipeline mview (writer_flush D s) = pipeline mview s \<and> im_batch (writer_flush D s) = [] \<and>
    im_writeCh (writer_flush D s) = im_writeCh s"
proof -
  have "ids_unique (mdb_messages (mview (im_mongo s)) @ im_batch s)"
    using assms(3) by (auto simp: pipeline_def stored_docs_def ids_unique_def)
  from InsertMessages_stores [OF assms(1,2) this] show ?thesis
    by (simp add: pipeline_def stored_docs_def writer_flush_def)
qed

lemma asyncWriter_pipeline:
  assumes "mongo_doc mview (dMongo D)" "inserts_succeed (dMongo D)" "ids_unique (pipeline mview s)"
  shows "pipeline mview (asyncWriter D ev s) = pipeline mview s \<and>
    im_writeCh (asyncWriter D ev s) = (if ev = WRecv then tl (im_writeCh s) else im_writeCh s)"
proof (cases ev)
  case WRecv
  show ?thesis
  proof (cases "im_writeCh s")
    case (Cons d ds)
    let ?s = "s\<lparr>im_writeCh := ds, im_batch := im_batch s @ [d]\<rparr>"
    have p: "pipeline mview ?s = pipeline mview s" by (simp add: pipeline_def stored_docs_def Cons)
    have "ids_unique (pipeline mview ?s)" using assms(3) p by simp
    from flush_pipeline [OF assms(1,2) this] show ?thesis using p by (simp add: WRecv Cons Let_def)
  qed (simp add: WRecv)
qed (use flush_pipeline [OF assms] in simp_all)

lemma writer_run_pipeline:
  assumes "mongo_doc mview (dMongo D)" "inserts_succeed (dMongo D)"
  shows "ids_unique (pipeline mview s) \<Longrightarrow>
    pipeline mview (writer_run D evs s) = pipeline mview s \<and>
    im_writeCh (writer_run D evs s) = drop (length (filter (\<lambda>ev. ev = WRecv) evs)) (im_writeCh s)"
proof (induction evs arbitrary: s)
  case (Cons ev evs)
  show ?case
    using asyncWriter_pipeline [OF assms Cons.prems, of ev] Cons.IH [of "asyncWriter D ev s"] Cons.prems
    by (simp add: drop_Suc)
qed simp

lemma writer_run_append: "writer_run D (evs @ evs') s = writer_run D evs' (writer_run D evs s)"
  by (induction evs arbitrary: s) simp_all


definition demo_doc :: "int \<Rightarrow> message_doc" where
  "demo_doc i = \<lparr>md_MsgID = i, md_ChannelID = ''world'', md_ChannelType = 1, md_SenderID = 7, md_SenderName = [],
     md_Content = ''hi'', md_MsgType = 1, md_MsgParam = [], md_SendTime = i, md_CreatedAt = i\<rparr>"

lemma ref_inserts: "inserts_succeed ref_mongo"
proof -
  have "fst (InsertMessages ref_mongo docs m) = None" for docs m
    by (cases "mongo_cmd_doc (InsertManyMsgs docs) m")
      (auto simp: InsertMessages_def ref_mongo_def Let_def)
  then show ?thesis by (simp add: inserts_succeed_def)
qed


end
