(* ===== verification/Msg_Pull.thy ===== *)
theory Msg_Pull
  imports Msg_Store
begin

text \<open>
  Pulling messages: bounds of a page, and the enumeration of a channel page by page from the
  document store.
\<close>

lemma mongo_find_read:
  assumes "mongo_doc mview mg" "mg (FindMsgs ch lastId limit) m = (rep, m')"
  shows "mview m' = mview m"
  using assms unfolding mongo_doc_def
  by (cases rep) (fastforce simp: mongo_partial_def)+

lemma QueryMessages_ok:
  assumes doc: "mongo_doc mview mg" and run: "QueryMessages mg ch lastId limit m = (out, m')"
  shows "mview m' = mview m \<and> (\<forall>docs. out = Inr docs \<longrightarrow>
    docs = find_limit limit (sort_key md_MsgID
      (filter (\<lambda>d. md_ChannelID d = ch \<and> md_MsgID d > lastId) (mdb_messages (mview m)))))"
proof -
  obtain rep where g: "mg (FindMsgs ch lastId limit) m = (rep, m')"
    using run by (auto simp: QueryMessages_def split: prod.splits mongo_reply.splits)
  have "out = Inr docs \<Longrightarrow> rep = MMsgs docs" for docs
    using run by (cases rep) (auto simp: QueryMessages_def g)
  then show ?thesis using mongo_find_read [OF doc g] mongo_doc_ok [OF doc g] by auto
qed

lemma GetMsgCache_read:
  "redis_doc view rd \<Longrightarrow> GetMsgCache P rd now ch lastId limit r = (out, r') \<Longrightarrow> view r' = view r"
  using redis_doc_read [of view rd now "LRANGE (keyMsgCache ch) 0 (msgCacheMaxLen - 1)" r]
  by (auto simp: GetMsgCache_def split: prod.splits redis_reply.splits)

lemma GetMsgCache_bounds:
  assumes "GetMsgCache P rd now ch lastId limit r = (Inr msgs, r')" "0 < limit"
  shows "int (length msgs) \<le> limit \<and> (\<forall>m \<in> set msgs. lastId < MsgId m)"
proof -
  obtain data where msgs: "msgs = last_n limit (cache_loop P lastId (rev data))"
    using assms(1) by (auto simp: GetMsgCache_def split: prod.splits redis_reply.splits)
  have "\<forall>m \<in> set (cache_loop P lastId ds). lastId < MsgId m" for ds
    by (induction ds) (simp_all split: option.splits)
  then show ?thesis using assms(2) by (auto simp: msgs last_n_def dest: in_set_dropD)
qed

lemma pull_limit_range: "1 \<le> pull_limit limit \<and> pull_limit limit \<le> 50 \<and> (1 \<le> limit \<and> limit \<le> 50 \<longrightarrow> pull_limit limit = limit)"
  by (simp add: pull_limit_def maxPullLimit_def)

text \<open>The two ways a pull is answered.\<close>

lemma PullMsg_cases:
  assumes doc: "redis_doc view (dRedis D)" "mongo_doc mview (dMongo D)"
    and run: "PullMsg D now ch lastId limit s = (out, s')"
  shows "\<exists>r' m'. s' = s\<lparr>im_redis := r', im_mongo := m'\<rparr> \<and> view r' = view (im_redis s) \<and> mview m' = mview (im_mongo s) \<and>
    (\<forall>msgs. out = Inr msgs \<longrightarrow>
       (\<exists>cached r1. GetMsgCache (dProto D) (dRedis D) now ch lastId (pull_limit limit) (im_redis s) = (cached, r1) \<and>
         (msgs \<noteq> [] \<and> cached = Inr msgs \<or>
          (\<forall>ms. cached = Inr ms \<longrightarrow> ms = []) \<and>
          msgs = map msg_of_doc (find_limit (pull_limit limit) (sort_key md_MsgID
            (filter (\<lambda>d. md_ChannelID d = ch \<and> md_MsgID d > lastId) (mdb_messages (mview (im_mongo s)))))))))"
proof -
  obtain cached r1 where c: "GetMsgCache (dProto D) (dRedis D) now ch lastId (pull_limit limit) (im_redis s) = (cached, r1)"
    by fastforce
  have v: "view r1 = view (im_redis s)" using GetMsgCache_read [OF doc(1) c] .
  obtain x m1 where q: "QueryMessages (dMongo D) ch lastId (pull_limit limit) (im_mongo s) = (x, m1)" by fastforce
  note q' = QueryMessages_ok [OF doc(2) q]
  show ?thesis
  proof (cases "\<exists>ms. cached = Inr ms \<and> ms \<noteq> []")
    case True
    then have "s' = s\<lparr>im_redis := r1, im_mongo := im_mongo s\<rparr>" "out = cached"
      using run by (auto simp: PullMsg_def c)
    then show ?thesis using True v c by blast
  next
    case False
    then have none: "(case cached of Inl e \<Rightarrow> [] | Inr ms \<Rightarrow> ms) = []" by (auto split: sum.splits)
    have "s' = s\<lparr>im_redis := r1, im_mongo := m1\<rparr>" "out = map_sum id (map msg_of_doc) x"
      using run by (cases x; simp add: PullMsg_def c none q)+
    then show ?thesis using False v q' c by (cases x) auto
  qed
qed

text \<open>
  C38: a page is bounded. A pull that succeeds returns at most fifty messages, and at most as many
  as were asked for when that is between one and fifty; all of them are newer than the cursor.
  Pulling changes neither store nor anything else.
\<close>

theorem pull_bounds:
  assumes "redis_doc view (dRedis D)" "mongo_doc mview (dMongo D)"
    and "PullMsg D now ch lastId limit s = (Inr msgs, s')"
  shows "length msgs \<le> 50 \<and> (1 \<le> limit \<and> limit \<le> 50 \<longrightarrow> int (length msgs) \<le> limit) \<and>
    (\<forall>m \<in> set msgs. lastId < MsgId m) \<and>
    view (im_redis s') = view (im_redis s) \<and> mview (im_mongo s') = mview (im_mongo s) \<and>
    s' = s\<lparr>im_redis := im_redis s', im_mongo := im_mongo s'\<rparr>"
proof -
  obtain r' m' cached r1 where c: "s' = s\<lparr>im_redis := r', im_mongo := m'\<rparr>" "view r' = view (im_redis s)"
    "mview m' = mview (im_mongo s)"
    "GetMsgCache (dProto D) (dRedis D) now ch lastId (pull_limit limit) (im_redis s) = (cached, r1)"
    "msgs \<noteq> [] \<and> cached = Inr msgs \<or>
      msgs = map msg_of_doc (find_limit (pull_limit limit) (sort_key md_MsgID
        (filter (\<lambda>d. md_ChannelID d = ch \<and> md_MsgID d > lastId) (mdb_messages (mview (im_mongo s))))))"
    using PullMsg_cases [OF assms] by blast
  note lim = pull_limit_range [of limit]
  have "int (length msgs) \<le> pull_limit limit \<and> (\<forall>m \<in> set msgs. lastId < MsgId m)"
  proof (cases "cached = Inr msgs")
    case True
    show ?thesis by (rule GetMsgCache_bounds [OF c(4) [unfolded True]]) (use lim in simp)
  next
    case False
    then show ?thesis using c(5) lim by (auto simp: find_limit_def msg_of_doc_def dest!: in_set_takeD)
  qed
  then show ?thesis using c(1-3) lim by auto
qed

theorem pull_bounds_witness:
  "\<exists>msgs s'. PullMsg group_deps 0 ''world'' 0 10 fresh_im = (Inr msgs, s') \<and> length msgs \<le> 50"
proof -
  have doc: "redis_doc id (dRedis group_deps)" "mongo_doc id (dMongo group_deps)"
    by (simp_all add: group_deps_def ref_redis_doc ref_mongo_doc)
  have "\<exists>msgs s'. PullMsg group_deps 0 ''world'' 0 10 fresh_im = (Inr msgs, s')"
    by (simp add: PullMsg_def GetMsgCache_def QueryMessages_def group_deps_def fresh_im_def group_im_def ref_redis_def
        ref_mongo_def live_def last_n_def)
  then obtain msgs s' where run: "PullMsg group_deps 0 ''world'' 0 10 fresh_im = (Inr msgs, s')" by blast
  from pull_bounds [OF doc run] run show ?thesis by blast
qed

subsection \<open>Paging\<close>

text \<open>A client that pulls again with the last id it has seen.\<close>

fun pull_pages ::
  "('r, 'm) deps \<Rightarrow> string \<Rightarrow> int \<Rightarrow> int \<Rightarrow> int list \<Rightarrow> ('r, 'm) im \<Rightarrow> im_message list option" where
  "pull_pages D ch limit seen [] s = Some []"
| "pull_pages D ch limit seen (t # ts) s =
     (case PullMsg D t ch seen limit s of
        (Inl e, s1) \<Rightarrow> None
      | (Inr msgs, s1) \<Rightarrow>
          map_option (\<lambda>rest. msgs @ rest)
            (pull_pages D ch limit (if msgs = [] then seen else MsgId (last msgs)) ts s1))"

definition newer :: "string \<Rightarrow> int \<Rightarrow> message_doc list \<Rightarrow> message_doc list" where
  "newer ch seen docs = sort_key md_MsgID (filter (\<lambda>d. md_ChannelID d = ch \<and> md_MsgID d > seen) docs)"

lemma newer_strict:
  assumes "ids_unique docs"
  shows "sorted_wrt (\<lambda>a b. md_MsgID a < md_MsgID b) (newer ch seen docs)"
proof -
  let ?f = "filter (\<lambda>d. md_ChannelID d = ch \<and> md_MsgID d > seen) docs"
  have d: "distinct docs" using assms unfolding ids_unique_def by (simp add: distinct_map)
  have inj: "a = b" if "a \<in> set docs" "b \<in> set docs" "md_ChannelID a = md_ChannelID b" "md_MsgID a = md_MsgID b" for a b
    using assms that unfolding ids_unique_def distinct_map by (auto dest: inj_onD)
  have "inj_on md_MsgID (set ?f)" by (rule inj_onI) (auto intro: inj)
  then have "distinct (map md_MsgID (newer ch seen docs))"
    using d by (simp add: newer_def distinct_map)
  moreover have "sorted (map md_MsgID (newer ch seen docs))" by (simp add: newer_def)
  ultimately have "sorted_wrt (<) (map md_MsgID (newer ch seen docs))"
    by (simp add: strict_sorted_iff)
  then show ?thesis by (simp add: sorted_wrt_map)
qed

lemma newer_after:
  assumes "ids_unique docs" "take k (newer ch seen docs) \<noteq> []"
  shows "newer ch (md_MsgID (last (take k (newer ch seen docs)))) docs = drop k (newer ch seen docs)"
proof -
  let ?xs = "newer ch seen docs" and ?l = "md_MsgID (last (take k (newer ch seen docs)))"
  obtain ys where ys: "take k ?xs = ys @ [last (take k ?xs)]"
    using assms(2) append_butlast_last_id by metis
  have "sorted_wrt (\<lambda>a b. md_MsgID a < md_MsgID b) (take k ?xs @ drop k ?xs)"
    using newer_strict [OF assms(1)] by (simp only: append_take_drop_id)
  then have split: "\<forall>a \<in> set (take k ?xs). md_MsgID a \<le> ?l" "\<forall>b \<in> set (drop k ?xs). ?l < md_MsgID b"
    unfolding sorted_wrt_append using ys assms(2)
    by (metis (no_types, lifting) Un_iff insert_iff list.set(1,2) order.refl order.strict_implies_order
        set_append sorted_wrt_append empty_iff, metis last_in_set)
  have "last (take k ?xs) \<in> set ?xs" using assms(2) in_set_takeD last_in_set by fast
  then have "seen < ?l" by (auto simp: newer_def)
  then have "newer ch ?l docs = filter (\<lambda>d. md_MsgID d > ?l) ?xs"
    unfolding newer_def filter_sort filter_filter by (intro arg_cong [where f = "sort_key md_MsgID"] filter_cong) auto
  also have "\<dots> = filter (\<lambda>d. md_MsgID d > ?l) (take k ?xs @ drop k ?xs)" by simp
  also have "\<dots> = drop k ?xs" unfolding filter_append using split by (auto simp: filter_empty_conv filter_id_conv)
  finally show ?thesis .
qed

lemma cache_gone:
  assumes "redis_doc view rd" "view r (keyMsgCache ch) = None"
    and "GetMsgCache P rd now ch lastId limit r = (Inr ms, r')"
  shows "ms = []"
proof -
  obtain data where g: "rd now (LRANGE (keyMsgCache ch) 0 (msgCacheMaxLen - 1)) r = (RList data, r')"
    and ms: "ms = last_n limit (cache_loop P lastId (rev data))"
    using assms(3) by (auto simp: GetMsgCache_def split: prod.splits redis_reply.splits)
  have "data = []" using redis_doc_ok(1) [OF assms(1) g] assms(2) by (simp add: live_def)
  then show ?thesis by (simp add: ms last_n_def)
qed

lemma PullMsg_store:
  assumes doc: "redis_doc view (dRedis D)" "mongo_doc mview (dMongo D)" "view (im_redis s) (keyMsgCache ch) = None"
    and run: "PullMsg D now ch seen limit s = (Inr msgs, s')"
  shows "msgs = map msg_of_doc (take (nat (pull_limit limit)) (newer ch seen (mdb_messages (mview (im_mongo s))))) \<and>
    view (im_redis s') = view (im_redis s) \<and> mview (im_mongo s') = mview (im_mongo s)"
  using PullMsg_cases [OF doc(1,2) run] cache_gone [OF doc(1,3)] pull_limit_range [of limit]
  by (fastforce simp: newer_def find_limit_def)

lemma last_page_id: "xs \<noteq> [] \<Longrightarrow> MsgId (last (map msg_of_doc xs)) = md_MsgID (last xs)"
  by (simp add: last_map msg_of_doc_def)

text \<open>
  C19: pulling page by page is complete. When the messages of a channel are no longer cached, a
  client that pulls again and again with the last id it has seen, with any page size, has after
  enough successful pulls received every stored message of the channel newer than its first cursor
  exactly once, in the order of their ids.
\<close>

theorem pull_enumerates:
  assumes "redis_doc view (dRedis D)" "mongo_doc mview (dMongo D)"
    and "ids_unique (mdb_messages (mview (im_mongo s)))" "view (im_redis s) (keyMsgCache ch) = None"
    and "pull_pages D ch limit seen ts s = Some msgs"
    and "length (newer ch seen (mdb_messages (mview (im_mongo s)))) \<le> nat (pull_limit limit) * length ts"
  shows "msgs = map msg_of_doc (newer ch seen (mdb_messages (mview (im_mongo s))))"
  using assms(3-6)
proof (induction ts arbitrary: s seen msgs)
  case (Cons t ts)
  let ?docs = "mdb_messages (mview (im_mongo s))" and ?k = "nat (pull_limit limit)"
  let ?xs = "newer ch seen ?docs"
  obtain page s1 rest where run: "PullMsg D t ch seen limit s = (Inr page, s1)" "msgs = page @ rest"
    "pull_pages D ch limit (if page = [] then seen else MsgId (last page)) ts s1 = Some rest"
    using Cons.prems(3) by (auto split: prod.splits sum.splits)
  note p = PullMsg_store [OF assms(1,2) Cons.prems(2) run(1)]
  have k: "0 < ?k" using pull_limit_range [of limit] by simp
  note ih = Cons.IH [of s1]
  show ?case
  proof (cases "?xs = []")
    case True
    then have "page = []" using p by simp
    then show ?thesis using ih [OF _ _ run(3)] Cons.prems(1,2) p True run(2) by simp
  next
    case False
    then have tk: "take ?k ?xs \<noteq> []" using k by simp
    have "page \<noteq> []" using p tk by simp
    moreover have "MsgId (last page) = md_MsgID (last (take ?k ?xs))"
      using p tk by (simp only: last_page_id simp_thms)
    ultimately have next_page: "newer ch (if page = [] then seen else MsgId (last page)) ?docs = drop ?k ?xs"
      using newer_after [OF Cons.prems(1) tk] by simp
    have "rest = map msg_of_doc (drop ?k ?xs)"
      using ih [OF _ _ run(3)] Cons.prems(1,2,4) p next_page by simp
    then have "msgs = map msg_of_doc (take ?k ?xs @ drop ?k ?xs)" using p run(2) by (simp only: map_append)
    then show ?thesis unfolding append_take_drop_id .
  qed
qed simp

definition paged_im :: "(redis_db, mongo_db) im" where
  "paged_im = fresh_im\<lparr>im_mongo := demo_mdb\<lparr>mdb_messages := [demo_doc 2, demo_doc 1, demo_doc 3]\<rparr>\<rparr>"

theorem pull_enumerates_witness:
  "\<exists>msgs. pull_pages group_deps ''world'' 2 0 [0, 1] paged_im = Some msgs \<and> map MsgId msgs = [1, 2, 3]"
proof -
  have doc: "redis_doc id (dRedis group_deps)" "mongo_doc id (dMongo group_deps)"
    by (simp_all add: group_deps_def ref_redis_doc ref_mongo_doc)
  have im: "ids_unique (mdb_messages (id (im_mongo paged_im)))" "id (im_redis paged_im) (keyMsgCache ''world'') = None"
    by (simp_all add: paged_im_def fresh_im_def demo_mdb_def ids_unique_def demo_doc_def)
  have ok: "\<exists>msgs s'. PullMsg group_deps t ch c l s = (Inr msgs, s') \<and> im_redis s' = im_redis s"
    if "im_redis s = Map.empty" for t ch c l and s :: "(redis_db, mongo_db) im"
    using that by (simp add: PullMsg_def GetMsgCache_def QueryMessages_def group_deps_def ref_redis_def
        ref_mongo_def live_def last_n_def)
  obtain m1 s1 where p1: "PullMsg group_deps 0 ''world'' 0 2 paged_im = (Inr m1, s1)" "im_redis s1 = Map.empty"
    using ok [of paged_im 0 "''world''" 0 2] by (auto simp: paged_im_def fresh_im_def)
  obtain m2 s2 where p2: "PullMsg group_deps 1 ''world'' (if m1 = [] then 0 else MsgId (last m1)) 2 s1 = (Inr m2, s2)"
    using ok [OF p1(2)] by blast
  have run: "pull_pages group_deps ''world'' 2 0 [0, 1] paged_im = Some (m1 @ m2)" using p1(1) p2 by simp
  have n: "newer ''world'' 0 (mdb_messages (id (im_mongo paged_im))) = [demo_doc 1, demo_doc 2, demo_doc 3]"
    by (simp add: newer_def paged_im_def demo_mdb_def demo_doc_def)
  from pull_enumerates [OF doc im run] n run show ?thesis
    by (simp add: pull_limit_def maxPullLimit_def msg_of_doc_def demo_doc_def)
qed

subsection \<open>Pages from the cache\<close>

text \<open>
  The cache answers with the newest messages above the cursor, not the oldest: a client that pages
  through cached messages moves its cursor past those that did not fit and never gets them.
\<close>

definition seq_msg :: "int \<Rightarrow> im_message" where
  "seq_msg i = \<lparr>MsgId = i, ChannelId = ''world'', ChannelType = 1, Sender = None, Content = ''hi'', MsgType = 1,
     MsgParam = [], SendTime = i, ClientMsgId = []\<rparr>"

definition seq_codec :: "im_message codec" where
  "seq_codec = (\<lambda>m. if m = seq_msg 1 then Some [1] else if m = seq_msg 2 then Some [2] else None,
     \<lambda>b. if b = [1] then Some (seq_msg 1) else if b = [2] then Some (seq_msg 2) else None)"

definition cached_im :: "(redis_db, mongo_db) im" where
  "cached_im = paged_im\<lparr>im_mongo := demo_mdb\<lparr>mdb_messages := [demo_doc 1, demo_doc 2]\<rparr>,
     im_redis := [keyMsgCache ''world'' \<mapsto> (VList [string_of_bytes [2], string_of_bytes [1]], None)]\<rparr>"

lemma pull_skips:
  "codec_ok seq_codec \<and>
   pull_pages (group_deps\<lparr>dProto := wire_proto\<lparr>pImMessage := seq_codec\<rparr>\<rparr>) ''world'' 1 0 [0, 1, 2] cached_im = Some [seq_msg 2]"
  by (auto simp: codec_ok_def seq_codec_def PullMsg_def GetMsgCache_def QueryMessages_def group_deps_def cached_im_def
      ref_redis_def ref_mongo_def live_def last_n_def pull_limit_def maxPullLimit_def msgCacheMaxLen_def list_range_def
      seq_msg_def demo_mdb_def demo_doc_def find_limit_def split: if_splits)

end
