(* ===== verification/Ring_Wait.thy ===== *)
theory Ring_Wait
  imports Ring_Buf
begin

text \<open>
  Waiting for the ring (\<open>Wait\<close> and the wake-up in \<open>Put\<close> of \<open>internal/gateway/ringbuf.go\<close>) with its
  \<open>sync.Cond\<close>: a mutex and a list of sleepers. \<open>cond.Wait\<close> joins the list, releases the mutex, sleeps
  until a broadcast and takes the mutex again. \<open>Put\<close> advances the position and broadcasts later,
  without the mutex; any number of goroutines may be between the two.
\<close>

subsection \<open>States and steps\<close>

text \<open>
  Where a consumer is: not in \<open>Wait\<close>; at the lock; before the test of the loop; after a test that
  found nothing new; asleep; woken and at the lock again; done.
\<close>

datatype wait_phase = Outside | Wanting | Checking | Adding | Asleep | Woken | Done

text \<open>\<open>rw_overtaken\<close> records, for the statements only, that a broadcast came between test and sleep.\<close>

record ring_wait =
  rw_pos :: int
  rw_pending :: nat
  rw_lock :: "string option"
  rw_phase :: "string \<Rightarrow> wait_phase"
  rw_cursor :: "string \<Rightarrow> int"
  rw_overtaken :: "string \<Rightarrow> bool"

definition rw_at :: "string \<Rightarrow> wait_phase \<Rightarrow> ring_wait \<Rightarrow> ring_wait" where
  "rw_at w ph st = st\<lparr>rw_phase := (rw_phase st)(w := ph)\<rparr>"

definition rw_broadcast :: "ring_wait \<Rightarrow> ring_wait" where
  "rw_broadcast st =
     st\<lparr>rw_pending := rw_pending st - 1,
        rw_phase := (\<lambda>w. if rw_phase st w = Asleep then Woken else rw_phase st w),
        rw_overtaken := (\<lambda>w. rw_overtaken st w \<or> rw_phase st w = Adding)\<rparr>"

inductive wait_step :: "ring_wait \<Rightarrow> ring_wait \<Rightarrow> bool" where
  wait_call: "rw_phase st w \<in> {Outside, Done} \<Longrightarrow> cursor \<le> rw_pos st \<Longrightarrow>
    wait_step st (rw_at w Wanting st\<lparr>rw_cursor := (rw_cursor st)(w := cursor)\<rparr>)"
| wait_lock: "rw_phase st w \<in> {Wanting, Woken} \<Longrightarrow> rw_lock st = None \<Longrightarrow>
    wait_step st (rw_at w Checking st\<lparr>rw_lock := Some w\<rparr>)"
| wait_pass: "rw_phase st w = Checking \<Longrightarrow> rw_cursor st w < rw_pos st \<Longrightarrow>
    wait_step st (rw_at w Done st\<lparr>rw_lock := None\<rparr>)"
| wait_fail: "rw_phase st w = Checking \<Longrightarrow> rw_pos st \<le> rw_cursor st w \<Longrightarrow>
    wait_step st (rw_at w Adding st\<lparr>rw_overtaken := (rw_overtaken st)(w := False)\<rparr>)"
| wait_sleep: "rw_phase st w = Adding \<Longrightarrow> wait_step st (rw_at w Asleep st\<lparr>rw_lock := None\<rparr>)"
| put_claim: "wait_step st (st\<lparr>rw_pos := rw_pos st + 1, rw_pending := Suc (rw_pending st)\<rparr>)"
| put_wake: "0 < rw_pending st \<Longrightarrow> wait_step st (rw_broadcast st)"

definition rw_start :: "ring_wait" where
  "rw_start = \<lparr>rw_pos = 0, rw_pending = 0, rw_lock = None, rw_phase = (\<lambda>_. Outside), rw_cursor = (\<lambda>_. 0),
     rw_overtaken = (\<lambda>_. False)\<rparr>"

abbreviation wait_reach :: "ring_wait \<Rightarrow> bool" where
  "wait_reach \<equiv> wait_step\<^sup>*\<^sup>* rw_start"

lemma wait_more: "wait_reach st \<Longrightarrow> wait_step st st' \<Longrightarrow> wait_reach st'"
  by (rule rtranclp.rtrancl_into_rtrancl)

subsection \<open>Invariant\<close>

text \<open>
  The mutex belongs to the consumer between lock and sleep; nobody waits for a position that is
  further than the next one; and whoever tested, found nothing and has not been overtaken by a
  broadcast has one on its way as soon as there is something new.
\<close>

definition wait_ok :: "ring_wait \<Rightarrow> string \<Rightarrow> bool" where
  "wait_ok st w \<longleftrightarrow>
     (rw_phase st w \<in> {Checking, Adding} \<longleftrightarrow> rw_lock st = Some w) \<and> rw_cursor st w \<le> rw_pos st \<and>
     (rw_phase st w = Done \<longrightarrow> rw_cursor st w < rw_pos st) \<and>
     (rw_phase st w \<in> {Adding, Asleep} \<longrightarrow> rw_cursor st w < rw_pos st \<longrightarrow> \<not> rw_overtaken st w \<longrightarrow> 0 < rw_pending st)"

lemma wait_step_ok:
  assumes "wait_step st st'" "\<And>w. wait_ok st w"
  shows "wait_ok st' w"
  using assms(1)
proof cases
  case (wait_call v cursor)
  then show ?thesis using assms(2) [of w] by (cases "w = v") (auto simp: wait_ok_def rw_at_def)
next
  case (wait_lock v)
  then show ?thesis using assms(2) [of w] by (cases "w = v") (auto simp: wait_ok_def rw_at_def)
next
  case (wait_pass v)
  then show ?thesis using assms(2) [of w] assms(2) [of v] by (cases "w = v") (auto simp: wait_ok_def rw_at_def)
next
  case (wait_fail v)
  then show ?thesis using assms(2) [of w] by (cases "w = v") (auto simp: wait_ok_def rw_at_def)
next
  case (wait_sleep v)
  then show ?thesis using assms(2) [of w] assms(2) [of v] by (cases "w = v") (auto simp: wait_ok_def rw_at_def)
next
  case put_claim
  then show ?thesis using assms(2) [of w] by (auto simp: wait_ok_def)
next
  case put_wake
  then show ?thesis using assms(2) [of w] by (cases "rw_phase st w") (auto simp: wait_ok_def rw_broadcast_def)
qed

lemma wait_reach_ok: "wait_reach st \<Longrightarrow> wait_ok st w"
proof (induction arbitrary: w rule: rtranclp_induct)
  case base
  show ?case by (simp add: wait_ok_def rw_start_def)
next
  case (step st st')
  then show ?case by (blast intro: wait_step_ok)
qed

subsection \<open>Waking up\<close>

lemma wait_holder: "wait_ok st v \<Longrightarrow> rw_lock st = Some v \<Longrightarrow> rw_phase st v = Checking \<or> rw_phase st v = Adding"
  by (auto simp: wait_ok_def)

text \<open>Whoever has the mutex gives it up after at most two steps, and no woken consumer falls asleep over it.\<close>

lemma lock_freed:
  assumes "\<And>w. wait_ok st w"
  shows "\<exists>st'. wait_step\<^sup>*\<^sup>* st st' \<and> rw_lock st' = None \<and> rw_pos st' = rw_pos st \<and> rw_cursor st' = rw_cursor st \<and>
    (\<forall>w. rw_phase st w = Woken \<longrightarrow> rw_phase st' w = Woken)"
proof -
  have sleep: ?thesis if "wait_step\<^sup>*\<^sup>* st st1" "rw_phase st1 v = Adding" "rw_pos st1 = rw_pos st" "rw_cursor st1 = rw_cursor st"
    "\<forall>w. rw_phase st w = Woken \<longrightarrow> rw_phase st1 w = Woken" for st1 v
    using rtranclp.rtrancl_into_rtrancl [OF that(1) wait_step.wait_sleep [OF that(2)]] that
    by (intro exI [of _ "rw_at v Asleep st1\<lparr>rw_lock := None\<rparr>"]) (auto simp: rw_at_def)
  show ?thesis
  proof (cases "rw_lock st")
    case (Some v)
    then consider "rw_phase st v = Adding" | "rw_phase st v = Checking" "rw_cursor st v < rw_pos st"
      | "rw_phase st v = Checking" "rw_pos st \<le> rw_cursor st v" using wait_holder [OF assms] by force
    then show ?thesis
    proof cases
      case 1
      then show ?thesis by (intro sleep [of st v]) simp_all
    next
      case 2
      then show ?thesis
        using wait_step.wait_pass [OF 2]
        by (intro exI [of _ "rw_at v Done st\<lparr>rw_lock := None\<rparr>"]) (auto simp: rw_at_def)
    next
      case 3
      have "wait_step\<^sup>*\<^sup>* st (rw_at v Adding st\<lparr>rw_overtaken := (rw_overtaken st)(v := False)\<rparr>)"
        using wait_step.wait_fail [OF 3] by (rule r_into_rtranclp)
      then show ?thesis by (rule sleep [of _ v]) (use 3 in \<open>auto simp: rw_at_def\<close>)
    qed
  qed blast
qed

lemma next_put_wakes:
  assumes "\<And>w. wait_ok st w" "rw_phase st w = Asleep"
  shows "\<exists>st'. wait_step\<^sup>*\<^sup>* (rw_broadcast (st\<lparr>rw_pos := rw_pos st + 1, rw_pending := Suc (rw_pending st)\<rparr>)) st' \<and>
    rw_phase st' w = Done"
proof -
  let ?st1 = "st\<lparr>rw_pos := rw_pos st + 1, rw_pending := Suc (rw_pending st)\<rparr>"
  let ?st2 = "rw_broadcast ?st1"
  have "\<And>v. wait_ok ?st1 v" using wait_step_ok [OF wait_step.put_claim assms(1)] .
  moreover have "wait_step ?st1 ?st2" by (rule wait_step.put_wake) simp
  ultimately have ok: "\<And>v. wait_ok ?st2 v" using wait_step_ok by blast
  obtain st3 where s3: "wait_step\<^sup>*\<^sup>* ?st2 st3" "rw_lock st3 = None" "rw_pos st3 = rw_pos ?st2" "rw_cursor st3 = rw_cursor ?st2"
    "rw_phase ?st2 w = Woken \<longrightarrow> rw_phase st3 w = Woken" using lock_freed [OF ok] by blast
  have w: "rw_phase st3 w \<in> {Wanting, Woken}" using s3(5) assms(2) by (simp add: rw_broadcast_def)
  let ?st4 = "rw_at w Checking st3\<lparr>rw_lock := Some w\<rparr>"
  have "rw_cursor ?st4 w < rw_pos ?st4"
    using s3(3,4) assms(1) [of w] by (simp add: rw_at_def rw_broadcast_def wait_ok_def)
  then have "wait_step ?st4 (rw_at w Done ?st4\<lparr>rw_lock := None\<rparr>)"
    by (intro wait_step.wait_pass) (simp_all add: rw_at_def)
  then have "wait_step\<^sup>*\<^sup>* ?st2 (rw_at w Done ?st4\<lparr>rw_lock := None\<rparr>)"
    using s3(1) wait_step.wait_lock [OF w s3(2)] by (meson rtranclp.rtrancl_into_rtrancl)
  then show ?thesis by (rule exI [of _ "rw_at w Done ?st4\<lparr>rw_lock := None\<rparr>", OF conjI]) (simp add: rw_at_def)
qed

text \<open>
  C14: waiting for the ring. In every interleaving of consumers and producers: \<open>Wait\<close> returns only
  when there is something behind the cursor; at most one consumer has the mutex; a consumer that sleeps
  although there is something new, with no broadcast on its way, was overtaken by one between its
  test and its sleep; and the next \<open>Put\<close> makes it possible for every sleeper to return.
\<close>

theorem ring_wait_sound:
  assumes "wait_reach st"
  shows "(rw_phase st w = Done \<longrightarrow> rw_cursor st w < rw_pos st) \<and>
    (rw_phase st w \<in> {Checking, Adding} \<longrightarrow> rw_phase st v \<in> {Checking, Adding} \<longrightarrow> v = w) \<and>
    (rw_phase st w = Asleep \<longrightarrow> rw_cursor st w < rw_pos st \<longrightarrow> rw_pending st = 0 \<longrightarrow> rw_overtaken st w) \<and>
    (rw_phase st w = Asleep \<longrightarrow>
      (\<exists>st'. wait_step\<^sup>*\<^sup>* (rw_broadcast (st\<lparr>rw_pos := rw_pos st + 1, rw_pending := Suc (rw_pending st)\<rparr>)) st' \<and>
         rw_phase st' w = Done))"
proof -
  have w: "wait_ok st w" and v: "wait_ok st v" using wait_reach_ok [OF assms] by blast+
  have "rw_phase st w \<in> {Checking, Adding} \<Longrightarrow> rw_lock st = Some w" "rw_phase st v \<in> {Checking, Adding} \<Longrightarrow> rw_lock st = Some v"
    using w v unfolding wait_ok_def by blast+
  then have "rw_phase st w \<in> {Checking, Adding} \<longrightarrow> rw_phase st v \<in> {Checking, Adding} \<longrightarrow> v = w" by fastforce
  moreover have "rw_phase st w = Done \<longrightarrow> rw_cursor st w < rw_pos st"
    "rw_phase st w = Asleep \<longrightarrow> rw_cursor st w < rw_pos st \<longrightarrow> rw_pending st = 0 \<longrightarrow> rw_overtaken st w"
    using w unfolding wait_ok_def by (simp, metis insertI1 insertI2 less_irrefl)
  ultimately show ?thesis using next_put_wakes [OF wait_reach_ok [OF assms], of w] by blast
qed

paragraph \<open>A lost wake-up\<close>

text \<open>
  The consumer tests, a \<open>Put\<close> runs completely, the consumer falls asleep: there is something new and
  no broadcast on its way.
\<close>

definition rw_lost :: ring_wait where
  "rw_lost = \<lparr>rw_pos = 1, rw_pending = 0, rw_lock = None, rw_phase = (\<lambda>_. Outside)(''a'' := Asleep),
     rw_cursor = (\<lambda>_. 0), rw_overtaken = (\<lambda>_. False)(''a'' := True)\<rparr>"

lemma lost_wakeup: "wait_reach rw_lost"
proof -
  let ?s1 = "rw_at ''a'' Wanting rw_start\<lparr>rw_cursor := (rw_cursor rw_start)(''a'' := 0)\<rparr>"
  let ?s2 = "rw_at ''a'' Checking ?s1\<lparr>rw_lock := Some ''a''\<rparr>"
  let ?s3 = "rw_at ''a'' Adding ?s2\<lparr>rw_overtaken := (rw_overtaken ?s2)(''a'' := False)\<rparr>"
  let ?s4 = "?s3\<lparr>rw_pos := rw_pos ?s3 + 1, rw_pending := Suc (rw_pending ?s3)\<rparr>"
  let ?s5 = "rw_broadcast ?s4"
  let ?s6 = "rw_at ''a'' Asleep ?s5\<lparr>rw_lock := None\<rparr>"
  have "wait_reach ?s1"
    by (rule wait_more [OF _ wait_step.wait_call]) (simp_all add: rw_start_def)
  then have "wait_reach ?s2"
    by (rule wait_more [OF _ wait_step.wait_lock]) (simp_all add: rw_at_def rw_start_def)
  then have "wait_reach ?s3"
    by (rule wait_more [OF _ wait_step.wait_fail]) (simp_all add: rw_at_def rw_start_def)
  then have "wait_reach ?s4" by (rule wait_more [OF _ wait_step.put_claim])
  then have "wait_reach ?s5" by (rule wait_more [OF _ wait_step.put_wake]) simp
  then have "wait_reach ?s6"
    by (rule wait_more [OF _ wait_step.wait_sleep]) (simp add: rw_at_def rw_broadcast_def)
  moreover have "?s6 = rw_lost" by (auto simp: rw_lost_def rw_at_def rw_broadcast_def rw_start_def fun_eq_iff)
  ultimately show ?thesis by simp
qed

theorem ring_wait_sound_witness:
  "wait_reach rw_lost \<and> rw_cursor rw_lost ''a'' < rw_pos rw_lost \<and> rw_pending rw_lost = 0 \<and> rw_overtaken rw_lost ''a'' \<and>
   (\<exists>st'. wait_step\<^sup>*\<^sup>* (rw_broadcast (rw_lost\<lparr>rw_pos := 2, rw_pending := 1\<rparr>)) st' \<and> rw_phase st' ''a'' = Done)"
  using ring_wait_sound [OF lost_wakeup, of "''a''"] lost_wakeup by (simp add: rw_lost_def)

end
