(* ===== verification/Handlers.thy ===== *)
theory Handlers
  imports Msg_Service
begin

text \<open>
  The request side of the gateway: the command numbers (\<open>internal/gateway/cmd.go\<close>), the dispatcher
  (\<open>dispatcher.go\<close>), authentication (\<open>auth_handler.go\<close>), the message and heartbeat handlers
  (\<open>handlers.go\<close>) and the body of the read loop (\<open>conn.go\<close>). A handler gets the id of its
  connection, the frame, and the clock of its steps. \<open>None\<close> is a handler that does not return,
  \<open>Panic\<close> one that panics; both can only come from the content filter.
\<close>

definition CmdAuthReq :: u32 where "CmdAuthReq = 1001"
definition CmdAuthResp :: u32 where "CmdAuthResp = 1002"
definition CmdSendMsgReq :: u32 where "CmdSendMsgReq = 2001"
definition CmdSendMsgResp :: u32 where "CmdSendMsgResp = 2002"
definition CmdPullMsgReq :: u32 where "CmdPullMsgReq = 2003"
definition CmdPullMsgResp :: u32 where "CmdPullMsgResp = 2004"
definition CmdAckMsgReq :: u32 where "CmdAckMsgReq = 2005"
definition CmdHeartbeatReq :: u32 where "CmdHeartbeatReq = 3001"
definition CmdHeartbeatResp :: u32 where "CmdHeartbeatResp = 3002"
definition CmdPushNewMessage :: u32 where "CmdPushNewMessage = 4001"
definition CmdWorldNotify :: u32 where "CmdWorldNotify = 4002"

lemmas cmd_defs = CmdAuthReq_def CmdAuthResp_def CmdSendMsgReq_def CmdSendMsgResp_def CmdPullMsgReq_def
  CmdPullMsgResp_def CmdAckMsgReq_def CmdHeartbeatReq_def CmdHeartbeatResp_def CmdPushNewMessage_def
  CmdWorldNotify_def

type_synonym ('r, 'm) handler =
  "(nat \<Rightarrow> int) \<Rightarrow> string \<Rightarrow> frame \<Rightarrow> ('r, 'm) im \<Rightarrow> (err option go \<times> ('r, 'm) im) option"

subsection \<open>Dispatcher\<close>

record 'h dispatcher =
  disp_handlers :: "u32 \<rightharpoonup> 'h"

definition NewDispatcher :: "'h dispatcher" where
  "NewDispatcher = \<lparr>disp_handlers = Map.empty\<rparr>"

definition Dispatcher_Register :: "u32 \<Rightarrow> 'h \<Rightarrow> 'h dispatcher \<Rightarrow> 'h dispatcher" where
  "Dispatcher_Register cmdID h d = d\<lparr>disp_handlers := (disp_handlers d)(cmdID \<mapsto> h)\<rparr>"

definition unknown_command :: "u32 \<Rightarrow> err" where
  "unknown_command c = OtherError (''unknown command: '' @ Sprintf_d (uint c))"

definition Dispatch :: "('r, 'm) handler dispatcher \<Rightarrow> ('r, 'm) handler" where
  "Dispatch d clk cid frame s =
     (case disp_handlers d (CmdId frame) of
        None \<Rightarrow> Some (Ret (Some (unknown_command (CmdId frame))), s)
      | Some h \<Rightarrow> h clk cid frame s)"

subsection \<open>The connection of a request\<close>

definition caller_uid :: "string \<Rightarrow> ('r, 'm) im \<Rightarrow> int" where
  "caller_uid cid s = (case heap (im_gw s) cid of None \<Rightarrow> 0 | Some c \<Rightarrow> Conn_UID c)"

definition encode_error :: err where
  "encode_error = OtherError ''codec''"

definition im_reply ::
  "('r, 'm) deps \<Rightarrow> string \<Rightarrow> frame \<Rightarrow> u32 \<Rightarrow> bytes \<Rightarrow> ('r, 'm) im \<Rightarrow> err option \<times> ('r, 'm) im" where
  "im_reply D cid frame respCmdID payload s =
     (case heap (im_gw s) cid of
        None \<Rightarrow> (None, s)
      | Some c \<Rightarrow>
          (let (e, c') = Conn_Reply (dProto D) frame respCmdID payload c
           in (map_option (\<lambda>_. encode_error) e, s\<lparr>im_gw := upd_conn cid (\<lambda>_. c') (im_gw s)\<rparr>)))"

definition reply_with ::
  "('r, 'm) deps \<Rightarrow> string \<Rightarrow> frame \<Rightarrow> u32 \<Rightarrow> bytes \<Rightarrow> ('r, 'm) im \<Rightarrow> (err option go \<times> ('r, 'm) im) option" where
  "reply_with D cid frame respCmdID payload s =
     (let (e, s') = im_reply D cid frame respCmdID payload s in Some (Ret e, s'))"

subsection \<open>Authentication\<close>

definition parseSimpleToken :: "string \<Rightarrow> err + int" where
  "parseSimpleToken token =
     (if take 4 token \<noteq> ''uid:'' then Inl (OtherError ''input does not match format'')
      else case Sscanf_d (drop 4 token) of
             None \<Rightarrow> Inl (OtherError ''expected integer'')
           | Some uid \<Rightarrow>
               if uid \<le> 0 then Inl (OtherError (''invalid uid: '' @ Sprintf_d uid)) else Inr uid)"

definition sendAuthResp ::
  "('r, 'm) deps \<Rightarrow> int \<Rightarrow> string \<Rightarrow> frame \<Rightarrow> int \<Rightarrow> string \<Rightarrow> int \<Rightarrow> ('r, 'm) im \<Rightarrow> (err option go \<times> ('r, 'm) im) option" where
  "sendAuthResp D now cid frame code msg uid s =
     (case proto_Marshal (pAuthResp (dProto D))
             \<lparr>ar_Code = code, ar_Msg = msg, ar_Uid = uid, ar_ServerTime = now\<rparr> of
        None \<Rightarrow> Some (Ret (Some (OtherError ''proto'')), s)
      | Some payload \<Rightarrow> reply_with D cid frame CmdAuthResp payload s)"

definition AuthHandler_Handle :: "('r, 'm) deps \<Rightarrow> ('r, 'm) handler" where
  "AuthHandler_Handle D clk cid frame s =
     (case proto_Unmarshal (pAuthReq (dProto D)) (Payload frame) of
        None \<Rightarrow> sendAuthResp D (clk 0) cid frame AuthFailed ''invalid auth request'' 0 s
      | Some req \<Rightarrow>
          (case parseSimpleToken (Token req) of
             Inl e \<Rightarrow> sendAuthResp D (clk 0) cid frame AuthFailed ''invalid token'' 0 s
           | Inr uid \<Rightarrow>
               (let s1 = s\<lparr>im_gw := ConnManager_BindUser uid cid (im_gw s)\<rparr>;
                    (e, r') = SetOnline (dRedis D) (clk 0) uid (ConnManager_NodeID (im_gw s1)) cid (im_redis s1);
                    s2 = s1\<lparr>im_redis := r'\<rparr>
                in sendAuthResp D (clk 1) cid frame Success ''ok'' uid s2)))"

subsection \<open>Messages and heartbeats\<close>

definition send_resp :: "int \<Rightarrow> string \<Rightarrow> int \<Rightarrow> int \<Rightarrow> send_msg_resp" where
  "send_resp code msg msgID sendTime =
     \<lparr>sp_Code = code, sp_Msg = msg, sp_MsgId = msgID, sp_SendTime = sendTime\<rparr>"

definition conn_sender :: "int \<Rightarrow> sender_info" where
  "conn_sender uid = \<lparr>SenderId = uid, SenderName = [], SenderHeadImage = [], SenderRank = 0, AllianceName = []\<rparr>"

definition svc_req :: "send_msg_req \<Rightarrow> svc_send_req" where
  "svc_req req = \<lparr>sr_ChannelID = sq_ChannelId req, sr_ChannelType = sq_ChannelType req, sr_Content = sq_Content req,
     sr_MsgType = sq_MsgType req, sr_MsgParam = sq_MsgParam req, sr_ClientMsgID = sq_ClientMsgId req\<rparr>"

definition HandleSendMsg ::
  "('r, 'm) deps \<Rightarrow> (int \<Rightarrow> string \<Rightarrow> filter_result go option) list \<Rightarrow> string \<Rightarrow> ('r, 'm) handler" where
  "HandleSendMsg D filters node clk cid frame s =
     (let uid = caller_uid cid s; marshal = mustMarshal (pSendMsgResp (dProto D))
      in if uid = 0
         then reply_with D cid frame CmdSendMsgResp (marshal (send_resp AuthFailed ''not authenticated'' 0 0)) s
         else case proto_Unmarshal (pSendMsgReq (dProto D)) (Payload frame) of
                None \<Rightarrow>
                  reply_with D cid frame CmdSendMsgResp (marshal (send_resp ServerError ''invalid request'' 0 0)) s
              | Some req \<Rightarrow>
                  (case SendMsg D filters node clk uid (Some (conn_sender uid)) (svc_req req) s of
                     None \<Rightarrow> None
                   | Some (Panic, s1) \<Rightarrow> Some (Panic, s1)
                   | Some (Ret (Inl e), s1) \<Rightarrow>
                       reply_with D cid frame CmdSendMsgResp (marshal (send_resp (ToCode (Some e)) (ToMsg (Some e)) 0 0)) s1
                   | Some (Ret (Inr resp), s1) \<Rightarrow>
                       reply_with D cid frame CmdSendMsgResp
                         (marshal (send_resp 0 ''ok'' (rs_MsgID resp) (rs_SendTime resp))) s1))"

definition pull_resp :: "int \<Rightarrow> string \<Rightarrow> im_message list \<Rightarrow> pull_msg_resp" where
  "pull_resp code msg msgs = \<lparr>pp_Code = code, pp_Msg = msg, pp_Messages = msgs\<rparr>"

definition HandlePullMsg :: "('r, 'm) deps \<Rightarrow> ('r, 'm) handler" where
  "HandlePullMsg D clk cid frame s =
     (let marshal = mustMarshal (pPullMsgResp (dProto D))
      in if caller_uid cid s = 0
         then reply_with D cid frame CmdPullMsgResp (marshal (pull_resp AuthFailed ''not authenticated'' [])) s
         else case proto_Unmarshal (pPullMsgReq (dProto D)) (Payload frame) of
                None \<Rightarrow> reply_with D cid frame CmdPullMsgResp (marshal (pull_resp ServerError ''invalid request'' [])) s
              | Some req \<Rightarrow>
                  (case PullMsg D (clk 0) (pq_ChannelId req) (pq_LastMsgId req) (pq_Limit req) s of
                     (Inl e, s1) \<Rightarrow>
                       reply_with D cid frame CmdPullMsgResp
                         (marshal (pull_resp (ToCode (Some e)) (ToMsg (Some e)) [])) s1
                   | (Inr msgs, s1) \<Rightarrow>
                       reply_with D cid frame CmdPullMsgResp (marshal (pull_resp 0 ''ok'' msgs)) s1))"

definition HandleAckMsg :: "('r, 'm) deps \<Rightarrow> ('r, 'm) handler" where
  "HandleAckMsg D clk cid frame s =
     (if caller_uid cid s = 0 then Some (Ret None, s)
      else case proto_Unmarshal (pAckMsgReq (dProto D)) (Payload frame) of
             None \<Rightarrow> Some (Ret None, s)
           | Some req \<Rightarrow>
               (let (e, s1) = AckMsg (caller_uid cid s) (aq_ChannelId req) (aq_MsgId req) s in Some (Ret e, s1)))"

definition HandleHeartbeat :: "('r, 'm) deps \<Rightarrow> ('r, 'm) handler" where
  "HandleHeartbeat D clk cid frame s =
     reply_with D cid frame CmdHeartbeatResp
       (mustMarshal (pHeartbeatResp (dProto D)) \<lparr>hp_ServerTime = clk 0\<rparr>) s"

subsection \<open>Registration and the read loop\<close>

definition app_dispatcher ::
  "('r, 'm) deps \<Rightarrow> (int \<Rightarrow> string \<Rightarrow> filter_result go option) list \<Rightarrow> string \<Rightarrow> ('r, 'm) handler dispatcher" where
  "app_dispatcher D filters node =
     Dispatcher_Register CmdHeartbeatReq (HandleHeartbeat D)
       (Dispatcher_Register CmdAckMsgReq (HandleAckMsg D)
         (Dispatcher_Register CmdPullMsgReq (HandlePullMsg D)
           (Dispatcher_Register CmdSendMsgReq (HandleSendMsg D filters node)
             (Dispatcher_Register CmdAuthReq (AuthHandler_Handle D) NewDispatcher))))"

text \<open>One round of \<open>readLoop\<close> after a frame has been decoded; a dispatch error is only logged.\<close>

definition readLoop_frame :: "('r, 'm) handler dispatcher \<Rightarrow> ('r, 'm) handler" where
  "readLoop_frame d clk cid frame s =
     Dispatch d (\<lambda>i. clk (Suc i)) cid frame
       (s\<lparr>im_gw := upd_conn cid (\<lambda>c. c\<lparr>lastHeartbeat := clk 0\<rparr>) (im_gw s)\<rparr>)"

lemma app_dispatch [simp]:
  "disp_handlers (app_dispatcher D filters node) cmd =
     (if cmd = CmdHeartbeatReq then Some (HandleHeartbeat D) else if cmd = CmdAckMsgReq then Some (HandleAckMsg D)
      else if cmd = CmdPullMsgReq then Some (HandlePullMsg D)
      else if cmd = CmdSendMsgReq then Some (HandleSendMsg D filters node)
      else if cmd = CmdAuthReq then Some (AuthHandler_Handle D) else None)"
  by (simp add: app_dispatcher_def Dispatcher_Register_def NewDispatcher_def)

subsection \<open>Tokens\<close>

text \<open>
  Tokens. The token printed for a positive 64-bit user id is read back as that id. Whatever a
  client sends, a token that is accepted names a positive 64-bit id.
\<close>

theorem token_roundtrip:
  "(in_int64 uid \<longrightarrow> parseSimpleToken (''uid:'' @ Sprintf_d uid) =
      (if 0 < uid then Inr uid else Inl (OtherError (''invalid uid: '' @ Sprintf_d uid)))) \<and>
   (parseSimpleToken token = Inr v \<longrightarrow> 0 < v \<and> in_int64 v)"
  using Sscanf_d_in_int64 [of "drop 4 token"]
  by (auto simp: parseSimpleToken_def Sscanf_d_Sprintf_d split: if_splits option.splits)

theorem token_roundtrip_witness: "parseSimpleToken (''uid:'' @ Sprintf_d 42) = Inr 42"
  using token_roundtrip [of 42 "[]" 0] by (simp add: in_int64_def int64_max_def int64_min_def)

end
