(* ===== verification/Handlers_Props.thy ===== *)
theory Handlers_Props
  imports Handlers Msg_Props
begin

text \<open>
  Properties of the request side: what an unauthenticated client can do, that every request is
  answered once, and what authentication establishes.
\<close>

subsection \<open>Replies\<close>

lemma Conn_Reply_resp: "\<exists>rs. snd (Conn_Reply P frame cmd payload c) = c\<lparr>respCh := rs\<rparr>"
proof -
  have "\<exists>rs. c = c\<lparr>respCh := rs\<rparr>" by (rule exI [of _ "respCh c"]) simp
  then show ?thesis by (auto simp: Conn_Reply_def Conn_SendResp_def split: sum.splits)
qed

definition only_resp :: "string \<Rightarrow> ('r, 'm) im \<Rightarrow> ('r, 'm) im \<Rightarrow> bool" where
  "only_resp cid s s' \<longleftrightarrow>
     (\<exists>rs. s' = s\<lparr>im_gw := upd_conn cid (\<lambda>c. c\<lparr>respCh := rs\<rparr>) (im_gw s)\<rparr>) \<or> s' = s"

lemma upd_conn_cong: "(\<And>c. heap g cid = Some c \<Longrightarrow> f c = f' c) \<Longrightarrow> upd_conn cid f g = upd_conn cid f' g"
  by (cases "heap g cid") (simp_all add: upd_conn_def)

lemma im_reply_only:
  assumes "im_reply D cid frame cmd payload s = (e, s')"
  shows "only_resp cid s s'"
proof (cases "heap (im_gw s) cid")
  case (Some c)
  obtain rs where rs: "snd (Conn_Reply (dProto D) frame cmd payload c) = c\<lparr>respCh := rs\<rparr>"
    using Conn_Reply_resp by blast
  have "s' = s\<lparr>im_gw := upd_conn cid (\<lambda>_. c\<lparr>respCh := rs\<rparr>) (im_gw s)\<rparr>"
    using assms Some rs by (auto simp: im_reply_def split: prod.splits)
  also have "upd_conn cid (\<lambda>_. c\<lparr>respCh := rs\<rparr>) (im_gw s) = upd_conn cid (\<lambda>c. c\<lparr>respCh := rs\<rparr>) (im_gw s)"
    by (rule upd_conn_cong) (simp add: Some)
  finally show ?thesis unfolding only_resp_def by blast
qed (use assms in \<open>simp add: im_reply_def only_resp_def\<close>)

lemma reply_with_only: "reply_with D cid frame cmd payload s = Some (out, s') \<Longrightarrow> only_resp cid s s'"
  by (auto simp: reply_with_def dest: im_reply_only split: prod.splits)

text \<open>
  C29: clients that have not authenticated. A frame other than an authentication request that
  arrives on a connection without a user changes nothing but possibly the queue of responses of that
  connection: no message is sent, read or stored, and no other connection is touched.
\<close>

theorem unauthenticated_inert:
  assumes "Dispatch (app_dispatcher D filters node) clk cid frame s = Some (out, s')"
    and "caller_uid cid s = 0" "CmdId frame \<noteq> CmdAuthReq"
  shows "only_resp cid s s'"
  using assms
  by (auto simp: Dispatch_def HandleSendMsg_def HandlePullMsg_def HandleAckMsg_def HandleHeartbeat_def only_resp_def
      Let_def dest!: reply_with_only [unfolded only_resp_def] split: if_splits)

definition pull_frame :: frame where
  "pull_frame = \<lparr>CmdId = CmdPullMsgReq, Seq = 3, Payload = []\<rparr>"

theorem unauthenticated_inert_witness:
  "\<exists>out s'. Dispatch (app_dispatcher group_deps [] ''n1'') int ''b'' pull_frame group_im = Some (out, s') \<and>
     only_resp ''b'' group_im s'"
proof -
  have "\<exists>out s'. Dispatch (app_dispatcher group_deps [] ''n1'') int ''b'' pull_frame group_im = Some (out, s')"
    by (simp add: Dispatch_def pull_frame_def cmd_defs HandlePullMsg_def reply_with_def caller_uid_def group_im_def
        demo_gw_eq demo_heap_conn_def Conn_UID_def split: prod.splits)
  then obtain out s' where run: "Dispatch (app_dispatcher group_deps [] ''n1'') int ''b'' pull_frame group_im = Some (out, s')"
    by blast
  have "caller_uid ''b'' group_im = 0"
    by (simp add: caller_uid_def group_im_def demo_gw_eq demo_heap_conn_def Conn_UID_def)
  moreover have "CmdId pull_frame \<noteq> CmdAuthReq" by (simp add: pull_frame_def cmd_defs)
  ultimately show ?thesis using unauthenticated_inert [OF run] run by blast
qed

subsection \<open>One response per request\<close>

definition resps :: "gateway \<Rightarrow> string \<rightharpoonup> bytes list" where
  "resps g cid = map_option respCh (heap g cid)"

lemma pushed_heap:
  assumes "pushed g g'"
  shows "resps g' = resps g" "dom (heap g') = dom (heap g)"
  using assms
proof (induction rule: pushed.induct)
  case (push_one g g' uid data)
  { case 1
    show ?case using push_one.IH(1)
      by (auto simp: ConnManager_PushToUID_def resps_def fun_eq_iff option.map_comp comp_def split: option.splits) }
  { case 2
    show ?case using push_one.IH(2)
      by (auto simp: ConnManager_PushToUID_def upd_conn_def dom_def split: option.splits if_splits) }
qed simp_all

lemma BindUser_resps: "resps (ConnManager_BindUser uid cid g) = resps g"
  by (rule ext)
    (auto simp: BindUser_kick bind_kick_def Let_def resps_def Conn_Close_heap Conn_SetUID_def option.map_comp comp_def
       intro!: option.map_cong split: option.splits)

fun resp_cmd :: "u32 \<Rightarrow> u32 option" where
  "resp_cmd c =
     (if c = CmdAuthReq then Some CmdAuthResp else if c = CmdSendMsgReq then Some CmdSendMsgResp
      else if c = CmdPullMsgReq then Some CmdPullMsgResp
      else if c = CmdHeartbeatReq then Some CmdHeartbeatResp else None)"

declare resp_cmd.simps [simp del]

text \<open>What a handler leaves behind: one decodable response when it reports no error, none otherwise.\<close>

definition answered ::
  "proto \<Rightarrow> string \<Rightarrow> u32 \<Rightarrow> u32 \<Rightarrow> err option \<Rightarrow> (string \<rightharpoonup> bytes list) \<Rightarrow> (string \<rightharpoonup> bytes list) \<Rightarrow> bool" where
  "answered P cid rcmd sq e q q' \<longleftrightarrow>
     (if e = None
      then \<exists>raw payload. q' = q(cid \<mapsto> the (q cid) @ [raw]) \<and>
        Decode P raw = (Inr \<lparr>CmdId = rcmd, Seq = sq, Payload = payload\<rparr>, [])
      else q' = q)"

lemma reply_answers:
  assumes ok: "frame_codec_ok (dProto D)" and rc: "rcmd \<noteq> 0"
    and room: "resps (im_gw s) cid = Some q" "length q < respCap"
    and run: "reply_with D cid frame rcmd payload s = Some (Ret e, s')"
  shows "answered (dProto D) cid rcmd (Seq frame) e (resps (im_gw s)) (resps (im_gw s'))"
proof -
  obtain c where c: "heap (im_gw s) cid = Some c" "respCh c = q" using room(1) by (auto simp: resps_def)
  let ?f = "\<lparr>CmdId = rcmd, Seq = Seq frame, Payload = payload\<rparr>"
  show ?thesis
  proof (cases "EncodeRaw (dProto D) rcmd (Seq frame) payload")
    case (Inl err)
    then show ?thesis
      using run c by (auto simp: reply_with_def im_reply_def Conn_Reply_def answered_def resps_def)
  next
    case (Inr raw)
    have "Decode (dProto D) raw = (Inr ?f, [])"
      using Decode_EncodeFrame [OF ok, of ?f raw "[]"] Inr rc by (simp add: empty_frame_def)
    moreover have "e = None" "resps (im_gw s') = (resps (im_gw s))(cid \<mapsto> q @ [raw])"
      using run c room(2) Inr
      by (auto simp: reply_with_def im_reply_def Conn_Reply_def Conn_SendResp_def resps_def)
    ultimately show ?thesis using room(1) unfolding answered_def by auto
  qed
qed

lemma HandleSendMsg_reply:
  assumes "HandleSendMsg D filters node clk cid frame s = Some (Ret e, s')"
  shows "\<exists>payload s1. reply_with D cid frame CmdSendMsgResp payload s1 = Some (Ret e, s') \<and>
    (s1 = s \<or> (\<exists>uid sender req out. SendMsg D filters node clk uid sender req s = Some (out, s1)))"
  using assms unfolding HandleSendMsg_def Let_def
  by (auto split: option.splits sum.splits prod.splits go.splits if_splits) blast+

lemma HandlePullMsg_reply:
  assumes "HandlePullMsg D clk cid frame s = Some (Ret e, s')"
  shows "\<exists>payload s1. reply_with D cid frame CmdPullMsgResp payload s1 = Some (Ret e, s') \<and>
    (s1 = s \<or> (\<exists>now ch m lim x. PullMsg D now ch m lim s = (x, s1)))"
  using assms unfolding HandlePullMsg_def Let_def
  by (auto split: option.splits sum.splits prod.splits if_splits) blast+

lemma PullMsg_state:
  assumes "PullMsg D now ch m lim s = (x, s')"
  shows "\<exists>r mg. s' = s\<lparr>im_redis := r, im_mongo := mg\<rparr>"
proof -
  obtain out r where g: "GetMsgCache (dProto D) (dRedis D) now ch m (pull_limit lim) (im_redis s) = (out, r)" by fastforce
  obtain q mg where q: "QueryMessages (dMongo D) ch m (pull_limit lim) (im_mongo s) = (q, mg)" by fastforce
  have "s' = s\<lparr>im_redis := r, im_mongo := im_mongo s\<rparr> \<or> s' = s\<lparr>im_redis := r, im_mongo := mg\<rparr>"
    using assms by (cases q) (auto simp: PullMsg_def Let_def g q split: if_splits)
  then show ?thesis by blast
qed

lemma PullMsg_gw: "PullMsg D now ch m lim s = (x, s') \<Longrightarrow> im_gw s' = im_gw s"
  by (auto dest!: PullMsg_state)

lemma dispatch_answers:
  assumes doc: "redis_doc view (dRedis D)" and ok: "frame_codec_ok (dProto D)"
    and room: "resps (im_gw s) cid = Some q" "length q < respCap"
    and rc: "resp_cmd (CmdId frame) = Some rcmd"
    and run: "Dispatch (app_dispatcher D filters node) clk cid frame s = Some (Ret e, s')"
  shows "answered (dProto D) cid rcmd (Seq frame) e (resps (im_gw s)) (resps (im_gw s'))"
proof -
  have nz: "rcmd \<noteq> 0" using rc by (auto simp: resp_cmd.simps cmd_defs split: if_splits)
  have ans: "answered (dProto D) cid rcmd (Seq frame) e (resps (im_gw s)) (resps (im_gw s'))"
    if "reply_with D cid frame rcmd payload s1 = Some (Ret e, s')" "resps (im_gw s1) = resps (im_gw s)" for payload s1
    using reply_answers [OF ok nz, of s1 cid q frame payload] room that by simp
  consider "CmdId frame = CmdAuthReq" "rcmd = CmdAuthResp" | "CmdId frame = CmdSendMsgReq" "rcmd = CmdSendMsgResp"
    | "CmdId frame = CmdPullMsgReq" "rcmd = CmdPullMsgResp" | "CmdId frame = CmdHeartbeatReq" "rcmd = CmdHeartbeatResp"
    using rc by (auto simp: resp_cmd.simps split: if_splits)
  then show ?thesis
  proof cases
    case 1
    then have "AuthHandler_Handle D clk cid frame s = Some (Ret e, s')" using run by (simp add: Dispatch_def cmd_defs)
    then obtain now code msg uid s1 where "sendAuthResp D now cid frame code msg uid s1 = Some (Ret e, s')"
      and g: "resps (im_gw s1) = resps (im_gw s)"
      by (auto simp: AuthHandler_Handle_def Let_def BindUser_resps split: option.splits sum.splits prod.splits)
    then show ?thesis using 1(2) ans
      by (auto simp: sendAuthResp_def answered_def split: option.splits)
  next
    case 2
    then have "HandleSendMsg D filters node clk cid frame s = Some (Ret e, s')" using run by (simp add: Dispatch_def cmd_defs)
    from HandleSendMsg_reply [OF this] show ?thesis using 2(2) ans pushed_heap(1) [OF SendMsg_frame(3) [OF doc]] by blast
  next
    case 3
    then have "HandlePullMsg D clk cid frame s = Some (Ret e, s')" using run by (simp add: Dispatch_def cmd_defs)
    from HandlePullMsg_reply [OF this] show ?thesis using 3(2) ans PullMsg_gw by metis
  next
    case 4
    then show ?thesis using run ans [of _ s] by (simp add: Dispatch_def HandleHeartbeat_def)
  qed
qed


definition beat_frame :: frame where
  "beat_frame = \<lparr>CmdId = CmdHeartbeatReq, Seq = 7, Payload = []\<rparr>"


subsection \<open>Authentication\<close>

definition token_uid :: "proto \<Rightarrow> bytes \<Rightarrow> int option" where
  "token_uid P payload =
     (case proto_Unmarshal (pAuthReq P) payload of
        None \<Rightarrow> None
      | Some req \<Rightarrow> (case parseSimpleToken (Token req) of Inl e \<Rightarrow> None | Inr uid \<Rightarrow> Some uid))"

lemma sendAuthResp_only: "sendAuthResp D now cid frame code msg uid s = Some (out, s') \<Longrightarrow> only_resp cid s s'"
  by (auto simp: sendAuthResp_def only_resp_def dest: reply_with_only [unfolded only_resp_def] split: option.splits)

lemma only_resp_keeps:
  assumes "only_resp cid s s'"
  shows "im_redis s' = im_redis s" "userConns (im_gw s') = userConns (im_gw s)" "caller_uid x s' = caller_uid x s"
  using assms by (auto simp: only_resp_def caller_uid_def Conn_UID_def split: option.splits if_splits)

lemma BindUser_node: "nodeID (ConnManager_BindUser uid cid g) = nodeID g"
  by (simp add: BindUser_kick bind_kick_def Conn_Close_def ConnManager_Unregister_def Let_def split: option.splits)

lemma BindUser_conn:
  "heap g cid = Some c \<Longrightarrow> \<exists>c'. heap (ConnManager_BindUser uid cid g) cid = Some c' \<and> conn_uid c' = uid"
  by (auto simp: BindUser_kick bind_kick_def Let_def Conn_Close_heap Conn_SetUID_def split: option.splits)

lemma auth_then_reply:
  assumes "AuthHandler_Handle D clk cid frame s = Some (out, s')"
  obtains t code msg u s1 where "sendAuthResp D t cid frame code msg u s1 = Some (out, s')"
    "s1 = s \<or> (\<exists>token uid. parseSimpleToken token = Inr uid \<and>
       s1 = s\<lparr>im_gw := ConnManager_BindUser uid cid (im_gw s),
              im_redis := snd (SetOnline (dRedis D) (clk 0) uid (nodeID (im_gw s)) cid (im_redis s))\<rparr>)"
  using assms unfolding AuthHandler_Handle_def Let_def
  by (auto simp: ConnManager_NodeID_def BindUser_node split_def simp del: One_nat_def split: option.splits sum.splits)
    blast

lemma dispatch_cases:
  assumes "Dispatch (app_dispatcher D filters node) clk cid frame s = Some (Ret e, s')"
  obtains (auth) "AuthHandler_Handle D clk cid frame s = Some (Ret e, s')"
    | (send) "HandleSendMsg D filters node clk cid frame s = Some (Ret e, s')"
    | (pull) "HandlePullMsg D clk cid frame s = Some (Ret e, s')"
    | (beat) "HandleHeartbeat D clk cid frame s = Some (Ret e, s')"
    | (same) "s' = s"
  using assms
  by (auto simp: Dispatch_def HandleAckMsg_def AckMsg_def split: if_splits option.splits)

lemma auth_effect:
  assumes conn: "heap (im_gw s) cid \<noteq> None"
    and run: "AuthHandler_Handle D clk cid frame s = Some (out, s')"
    and tok: "token_uid (dProto D) (Payload frame) = Some uid"
  shows "im_redis s' = snd (SetOnline (dRedis D) (clk 0) uid (nodeID (im_gw s)) cid (im_redis s))"
    "caller_uid cid s' = uid" "ConnManager_GetByUID uid (im_gw s') = Some cid"
proof -
  let ?g = "ConnManager_BindUser uid cid (im_gw s)"
  let ?s2 = "s\<lparr>im_gw := ?g, im_redis := snd (SetOnline (dRedis D) (clk 0) uid (nodeID (im_gw s)) cid (im_redis s))\<rparr>"
  have "sendAuthResp D (clk 1) cid frame Success ''ok'' uid ?s2 = Some (out, s')"
    using run tok BindUser_node [of uid cid "im_gw s"]
    by (auto simp: AuthHandler_Handle_def token_uid_def Let_def ConnManager_NodeID_def simp del: One_nat_def
        split: option.splits sum.splits prod.splits)
  note keep = only_resp_keeps [OF sendAuthResp_only [OF this], simplified]
  show "im_redis s' = snd (SetOnline (dRedis D) (clk 0) uid (nodeID (im_gw s)) cid (im_redis s))" by (rule keep(1))
  show "caller_uid cid s' = uid" "ConnManager_GetByUID uid (im_gw s') = Some cid"
    using conn BindUser_conn [of "im_gw s" cid _ uid] keep
    by (auto simp: caller_uid_def ConnManager_GetByUID_def bind_userConns Conn_UID_def)
qed

text \<open>
  C23: what authentication does. A request without a valid token changes nothing but possibly the
  connection's response queue. One with a token for a user makes the connection the user's
  connection, where pushes for the user go from then on; and if the presence could be written, then
  as long as nobody writes it again, every successful presence lookup of the delivery engine that
  asks for the user finds it online for thirty seconds, and offline after that.
\<close>

theorem auth_goes_online:
  assumes doc: "redis_doc view (dRedis D)"
    and conn: "heap (im_gw s) cid \<noteq> None"
    and run: "AuthHandler_Handle D clk cid frame s = Some (out, s')"
    and clock: "in_int64 (clk 0)"
  shows "case token_uid (dProto D) (Payload frame) of
      None \<Rightarrow> only_resp cid s s'
    | Some uid \<Rightarrow>
        caller_uid cid s' = uid \<and> ConnManager_GetByUID uid (im_gw s') = Some cid \<and>
        (fst (SetOnline (dRedis D) (clk 0) uid (nodeID (im_gw s)) cid (im_redis s)) = None \<longrightarrow>
         (\<forall>r t uids pm r'. view r (keyPresence uid) = view (im_redis s') (keyPresence uid) \<longrightarrow> uid \<in> set uids \<longrightarrow>
            PresenceAdapter_BatchGetPresence (dRedis D) t uids r = (Inr pm, r') \<longrightarrow>
            (is_online pm uid \<longleftrightarrow> t \<le> clk 0 + 30000)))"
proof (cases "token_uid (dProto D) (Payload frame)")
  case None
  then show ?thesis using run
    by (auto simp: AuthHandler_Handle_def token_uid_def dest: sendAuthResp_only split: option.splits sum.splits)
next
  case (Some uid)
  obtain e r1 where on: "SetOnline (dRedis D) (clk 0) uid (nodeID (im_gw s)) cid (im_redis s) = (e, r1)" by fastforce
  note eff = auth_effect [OF conn run Some]
  have "is_online pm uid \<longleftrightarrow> t \<le> clk 0 + 30000"
    if "e = None" and same: "view r (keyPresence uid) = view (im_redis s') (keyPresence uid)" and "uid \<in> set uids"
      and look: "PresenceAdapter_BatchGetPresence (dRedis D) t uids r = (Inr pm, r')" for r t uids pm r'
  proof -
    obtain dm where dm: "BatchGetPresence (dRedis D) t uids r = (Inr dm, r')"
      "pm uid = map_option (\<lambda>d. \<lparr>pi_UID = uid, pi_GatewayNodeID = pd_GatewayNodeID d, pi_ConnID = pd_ConnID d,
             pi_Status = pd_Status d\<rparr>) (dm uid)"
      using PresenceAdapter_ok [OF look] by blast
    have "dm uid = presence_at t (view r) uid" using BatchGetPresence_at [OF doc dm(1)] \<open>uid \<in> set uids\<close> by simp
    also have "\<dots> = (if t \<le> clk 0 + 30000 then Some \<lparr>pd_GatewayNodeID = nodeID (im_gw s), pd_ConnID = cid,
        pd_Status = ''online'', pd_LastSeen = clk 0\<rparr> else None)"
      using presence_stored_at [OF doc on [unfolded SetOnline_def \<open>e = None\<close>]] clock same eff(1) on by simp
    finally show ?thesis by (simp add: is_online_def dm(2))
  qed
  then show ?thesis using Some eff(2,3) on by auto
qed

definition auth_request :: auth_req where
  "auth_request = \<lparr>Token = ''uid:'' @ Sprintf_d 8, Version = [], ChannelLastMsgIds = []\<rparr>"

definition auth_deps :: "(redis_db, mongo_db) deps" where
  "auth_deps = group_deps\<lparr>dProto := wire_proto\<lparr>pAuthReq := one_codec auth_request\<rparr>\<rparr>"

definition auth_frame :: frame where
  "auth_frame = \<lparr>CmdId = CmdAuthReq, Seq = 1, Payload = [1]\<rparr>"

theorem auth_goes_online_witness:
  "\<exists>out s'. AuthHandler_Handle auth_deps int ''b'' auth_frame group_im = Some (out, s') \<and>
     caller_uid ''b'' s' = 8 \<and> ConnManager_GetByUID 8 (im_gw s') = Some ''b''"
proof -
  have doc: "redis_doc id (dRedis auth_deps)" by (simp add: auth_deps_def group_deps_def ref_redis_doc)
  have "heap (im_gw group_im) ''b'' \<noteq> None" by (simp add: group_im_def demo_gw_eq)
  moreover obtain out s' where run: "AuthHandler_Handle auth_deps int ''b'' auth_frame group_im = Some (out, s')"
    by (cases "AuthHandler_Handle auth_deps int ''b'' auth_frame group_im")
      (auto simp: AuthHandler_Handle_def sendAuthResp_def reply_with_def Let_def split: option.splits sum.splits prod.splits)
  moreover have "in_int64 (int 0)" by (simp add: in_int64_def int64_max_def int64_min_def)
  moreover have "parseSimpleToken (''uid:'' @ Sprintf_d 8) = Inr 8"
    using Sscanf_d_Sprintf_d [of 8] by (simp add: parseSimpleToken_def in_int64_def int64_max_def int64_min_def)
  then have "token_uid (dProto auth_deps) (Payload auth_frame) = Some 8"
    by (simp add: token_uid_def auth_deps_def auth_frame_def one_codec_def auth_request_def)
  ultimately show ?thesis using auth_goes_online [OF doc _ run] by auto
qed

end
