(* ===== verification/App.thy ===== *)
theory App
  imports Handlers_Props
begin

text \<open>
  The process as a whole: the configuration (\<open>configs/config.go\<close>, \<open>loadConfig\<close> of
  \<open>cmd/server/main.go\<close>), the wiring of \<open>internal/app/app.go\<close> with the broadcast subscriber, the
  goroutines that \<open>SendMsg\<close> and the bus start, and a step relation over everything a running server
  does. Durations are in milliseconds. The YAML library is a parameter of \<open>loadConfig\<close>.
\<close>

subsection \<open>Configuration\<close>

record app_config =
  NodeID :: string
  Env :: string
  ShutdownTimeout :: int

record gateway_config =
  ListenAddr :: string
  MaxConnections :: int
  MaxFrameSize :: int
  HeartbeatTimeout :: int
  HeartbeatInterval :: int
  SendChanSize :: int

record redis_config =
  rc_Addr :: string
  rc_Password :: string
  rc_DB :: int
  rc_PoolSize :: int

record mongo_config =
  mc_URI :: string
  mc_Database :: string
  mc_Timeout :: int

record bus_config =
  bc_Type :: string

record log_config =
  lc_Level :: string
  lc_Format :: string

record config =
  cfg_App :: app_config
  cfg_Gateway :: gateway_config
  cfg_Redis :: redis_config
  cfg_Mongo :: mongo_config
  cfg_Bus :: bus_config
  cfg_Log :: log_config

definition DefaultConfig :: config where
  "DefaultConfig =
     \<lparr>cfg_App = \<lparr>NodeID = [], Env = ''dev'', ShutdownTimeout = 10 * 1000\<rparr>,
      cfg_Gateway = \<lparr>ListenAddr = '':9000'', MaxConnections = 100000, MaxFrameSize = 65536,
                     HeartbeatTimeout = 30 * 1000, HeartbeatInterval = 10 * 1000, SendChanSize = 256\<rparr>,
      cfg_Redis = \<lparr>rc_Addr = ''localhost:6379'', rc_Password = [], rc_DB = 0, rc_PoolSize = 100\<rparr>,
      cfg_Mongo = \<lparr>mc_URI = ''mongodb://localhost:27017'', mc_Database = ''game_im'', mc_Timeout = 10 * 1000\<rparr>,
      cfg_Bus = \<lparr>bc_Type = ''local''\<rparr>,
      cfg_Log = \<lparr>lc_Level = ''info'', lc_Format = ''text''\<rparr>\<rparr>"

text \<open>
  \<open>load\<close> reads and parses the file, \<open>unmarshal\<close> writes the parsed values over a configuration; a
  file that cannot be loaded means the defaults.
\<close>

definition loadConfig ::
  "(string \<Rightarrow> err + 'y) \<Rightarrow> ('y \<Rightarrow> config \<Rightarrow> err + config) \<Rightarrow> string \<Rightarrow> err + config" where
  "loadConfig load unmarshal path =
     (let cfg = DefaultConfig
      in case load path of
           Inl e \<Rightarrow> Inr cfg
         | Inr k \<Rightarrow> (case unmarshal k cfg of Inl e \<Rightarrow> Inl e | Inr cfg' \<Rightarrow> Inr cfg'))"

subsection \<open>Wiring\<close>

definition dirtyWords :: "string list" where
  "dirtyWords = [''fuck'', ''shit'', ''damn'']"

definition filterChain :: "('r, 'm) deps \<Rightarrow> (int \<Rightarrow> string \<Rightarrow> filter_result go option) list" where
  "filterChain D = [DirtyWordFilter_Check (dLower D) (NewDirtyWordFilter (dLower D) dirtyWords)]"

text \<open>\<open>stamp\<close> is the host name, a hyphen and the time of day.\<close>

definition app_nodeID :: "config \<Rightarrow> string \<Rightarrow> string" where
  "app_nodeID cfg stamp = (if NodeID (cfg_App cfg) = [] then stamp else NodeID (cfg_App cfg))"

definition app_bus :: "bus_handler local_bus" where
  "app_bus =
     snd (Subscribe TopicSystemBroadcast BroadcastNotify (snd (Subscribe TopicWorldBroadcast BroadcastNotify NewLocalBus)))"

text \<open>The message service starts with no sequence ranges, two empty caches and an empty write queue.\<close>

definition NewMsgService :: "'r \<Rightarrow> 'm \<Rightarrow> gateway \<Rightarrow> bus_handler local_bus \<Rightarrow> ring \<Rightarrow> ('r, 'm) im" where [simp]:
  "NewMsgService redis mongo connMgr msgBus broadcastRing =
     \<lparr>im_redis = redis, im_mongo = mongo, im_gw = connMgr, im_bus = msgBus, im_ring = broadcastRing, im_tasks = [],
      im_ranges = NewSeqAllocator, im_banCache = NewLocalCache (5 * 1000), im_availCache = NewLocalCache (5 * 1000),
      im_writeCh = [], im_batch = []\<rparr>"

text \<open>\<open>r\<close> and \<open>m\<close> are the results of connecting to Redis and MongoDB.\<close>

definition app_New :: "config \<Rightarrow> string \<Rightarrow> err + 'r \<Rightarrow> err + 'm \<Rightarrow> (err + ('r, 'm) im) option" where
  "app_New cfg stamp r m =
     (case r of
        Inl e \<Rightarrow> Some (Inl e)
      | Inr redisStore \<Rightarrow>
          (case m of
             Inl e \<Rightarrow> Some (Inl e)
           | Inr mongoStore \<Rightarrow>
               (case NewBroadcastRing 4096 of
                  None \<Rightarrow> None
                | Some ring \<Rightarrow>
                    Some (Inr (NewMsgService redisStore mongoStore (NewConnManager (app_nodeID cfg stamp)) app_bus ring)))))"

definition broadcastNotify :: "('r, 'm) deps \<Rightarrow> im_message \<Rightarrow> ring \<Rightarrow> ring" where
  "broadcastNotify D msg broadcastRing =
     (case proto_Marshal (pWorldNotify (dProto D)) \<lparr>wn_ChannelId = ChannelId msg, wn_LatestSeq = MsgId msg\<rparr> of
        None \<Rightarrow> broadcastRing
      | Some payload \<Rightarrow>
          (case EncodeRaw (dProto D) CmdWorldNotify 0 payload of
             Inl e \<Rightarrow> broadcastRing
           | Inr data \<Rightarrow> Ring_Put data broadcastRing))"

text \<open>A goroutine started earlier runs, at time \<open>now\<close>.\<close>

fun run_task :: "('r, 'm) deps \<Rightarrow> int \<Rightarrow> task \<Rightarrow> ('r, 'm) im \<Rightarrow> ('r, 'm) im" where
  "run_task D now (RunHandler BroadcastNotify topic msg) s = s\<lparr>im_ring := broadcastNotify D msg (im_ring s)\<rparr>"
| "run_task D now (CacheWrite channelID msg) s =
     s\<lparr>im_redis := PostSendAsync (dProto D) (dRedis D) now channelID msg (im_redis s)\<rparr>"

subsection \<open>Steps of a running server\<close>

text \<open>
  A connection is accepted; a frame read from a connection is handled; a connection closes; the
  heartbeat sweep runs; a connection's ring consumer, write loop or final drain makes a round; a
  started goroutine runs, in any order; the background writer receives a document or ticks; Redis
  and MongoDB change by themselves or through other nodes. A handler that panics ends the process,
  and one that does not return takes no step. Handlers are taken as one step; interleavings
  inside sequence allocation are the subject of \<open>Seq_Alloc\<close>, those inside a broadcast of \<open>Conn\<close>.
\<close>

inductive im_step :: "('r, 'm) deps \<Rightarrow> config \<Rightarrow> string \<Rightarrow> ('r, 'm) im \<Rightarrow> ('r, 'm) im \<Rightarrow> bool" for D cfg node where
  do_accept: "heap (im_gw s) cid = None \<Longrightarrow>
    im_step D cfg node s (s\<lparr>im_gw := Server_accept (MaxConnections (cfg_Gateway cfg))
      (nat (SendChanSize (cfg_Gateway cfg))) (im_ring s) cid now (im_gw s)\<rparr>)"
| do_frame: "heap (im_gw s) cid = Some c \<Longrightarrow>
    readLoop_frame (app_dispatcher D (filterChain D) node) clk cid frame s = Some (Ret e, s') \<Longrightarrow>
    im_step D cfg node s s'"
| do_close: "im_step D cfg node s (s\<lparr>im_gw := Conn_Close cid (im_gw s)\<rparr>)"
| do_sweep: "im_step D cfg node s
    (s\<lparr>im_gw := HeartbeatManager_sweep now (HeartbeatTimeout (cfg_Gateway cfg)) order (im_gw s)\<rparr>)"
| do_consume: "im_step D cfg node s (s\<lparr>im_gw := upd_conn cid (ringConsumerLoop (im_ring s)) (im_gw s)\<rparr>)"
| do_write: "heap (im_gw s) cid = Some c \<Longrightarrow> writeLoop pick c = Some c' \<Longrightarrow>
    im_step D cfg node s (s\<lparr>im_gw := upd_conn cid (\<lambda>_. c') (im_gw s)\<rparr>)"
| do_drain: "heap (im_gw s) cid = Some c \<Longrightarrow> closed c \<Longrightarrow> drainAndClose ok picks c = Some c' \<Longrightarrow>
    im_step D cfg node s (s\<lparr>im_gw := upd_conn cid (\<lambda>_. c') (im_gw s)\<rparr>)"
| do_task: "im_tasks s = ts @ t # us \<Longrightarrow> im_step D cfg node s (run_task D now t (s\<lparr>im_tasks := ts @ us\<rparr>))"
| do_writer: "ev \<in> {WRecv, WTick} \<Longrightarrow> im_step D cfg node s (asyncWriter D ev s)"
| do_outside: "im_step D cfg node s (s\<lparr>im_redis := r, im_mongo := m\<rparr>)"

inductive im_reach :: "('r, 'm) deps \<Rightarrow> config \<Rightarrow> string \<Rightarrow> ('r, 'm) im \<Rightarrow> bool" for D cfg stamp where
  created: "app_New cfg stamp r m = Some (Inr s) \<Longrightarrow> im_reach D cfg stamp s"
| stepped: "im_reach D cfg stamp s \<Longrightarrow> im_step D cfg (app_nodeID cfg stamp) s s' \<Longrightarrow> im_reach D cfg stamp s'"

subsection \<open>Well-formed process states\<close>

definition conn_wf :: "config \<Rightarrow> ring \<Rightarrow> string \<Rightarrow> conn \<Rightarrow> bool" where
  "conn_wf cfg ring cid c \<longleftrightarrow>
     conn_id c = cid \<and> conn_ok c \<and> pushCap c = nat (SendChanSize (cfg_Gateway cfg)) \<and>
     0 \<le> cursor c \<and> cursor c \<le> writePos ring \<and> 0 \<le> conn_uid c \<and> in_int64 (conn_uid c)"

definition conns_wf :: "config \<Rightarrow> ring \<Rightarrow> gateway \<Rightarrow> bool" where
  "conns_wf cfg ring g \<longleftrightarrow> (\<forall>cid c. heap g cid = Some c \<longrightarrow> conn_wf cfg ring cid c)"

definition gateway_wf :: "config \<Rightarrow> ring \<Rightarrow> gateway \<Rightarrow> bool" where
  "gateway_wf cfg ring g \<longleftrightarrow> gw_inv False (MaxConnections (cfg_Gateway cfg)) g \<and> conns_wf cfg ring g"

definition im_wf :: "config \<Rightarrow> ('r, 'm) im \<Rightarrow> bool" where
  "im_wf cfg s \<longleftrightarrow>
     gateway_wf cfg (im_ring s) (im_gw s) \<and> ring_ok (im_ring s) \<and> Ring_Capacity (im_ring s) = 4096 \<and>
     im_bus s = app_bus \<and> length (im_writeCh s) \<le> writeChCap \<and> length (im_batch s) < writerBatch"

subsection \<open>Every step keeps the state well-formed\<close>

paragraph \<open>The gateway\<close>

lemma gw_step_wf: "gateway_wf cfg ring g \<Longrightarrow> gw_step False (MaxConnections (cfg_Gateway cfg)) g g' \<Longrightarrow>
    conns_wf cfg ring g' \<Longrightarrow> gateway_wf cfg ring g'"
  unfolding gateway_wf_def by (blast intro: gw_inv_step)

lemma upd_conn_absent: "heap g cid = None \<Longrightarrow> upd_conn cid f g = g"
  by (cases g) (auto simp: upd_conn_def)

lemma gateway_wf_upd:
  assumes wf: "gateway_wf cfg ring g"
    and keep: "\<And>c. heap g cid = Some c \<Longrightarrow> conn_wf cfg ring cid c \<Longrightarrow>
      conn_uid (f c) = conn_uid c \<and> closed (f c) = closed c \<and> conn_wf cfg ring cid (f c)"
  shows "gateway_wf cfg ring (upd_conn cid f g)"
proof (cases "heap g cid")
  case (Some c)
  have c: "conn_uid (f c) = conn_uid c" "closed (f c) = closed c" "conn_wf cfg ring cid (f c)"
    using keep [OF Some] wf Some by (auto simp: gateway_wf_def conns_wf_def)
  let ?f = "\<lambda>d. (f c)\<lparr>conn_uid := conn_uid d, closed := closed d\<rparr>"
  have "f c = ?f c" using c(1,2) by (cases "f c") simp
  then have eq: "upd_conn cid f g = upd_conn cid ?f g" by (intro upd_conn_cong) (simp add: Some)
  have "gw_step False (MaxConnections (cfg_Gateway cfg)) g (upd_conn cid f g)"
    unfolding eq by (rule gw_step.queues) (simp add: keeps_session_def)
  moreover have "conns_wf cfg ring (upd_conn cid f g)"
    using wf c(3) Some by (auto simp: gateway_wf_def conns_wf_def split: if_splits)
  ultimately show ?thesis using gw_step_wf [OF wf] by blast
qed (simp add: upd_conn_absent wf)

lemma conn_wf_closed [simp]: "conn_wf cfg ring cid (c\<lparr>closed := b\<rparr>) = conn_wf cfg ring cid c"
  by (simp add: conn_wf_def conn_ok_def)

lemma conns_wf_Close: "conns_wf cfg ring g \<Longrightarrow> conns_wf cfg ring (Conn_Close cid g)"
  by (auto simp: conns_wf_def Conn_Close_heap split: if_splits)

lemma conns_wf_sweep: "conns_wf cfg ring g \<Longrightarrow> conns_wf cfg ring (HeartbeatManager_sweep now tmo order g)"
  unfolding HeartbeatManager_sweep_def
  by (induction order arbitrary: g) (auto simp: sweep_one_def conns_wf_Close split: option.splits)

lemma gateway_wf_Close: "gateway_wf cfg ring g \<Longrightarrow> gateway_wf cfg ring (Conn_Close cid g)"
  by (rule gw_step_wf [OF _ gw_step.close]) (auto simp: gateway_wf_def conns_wf_Close)

lemma gateway_wf_sweep: "gateway_wf cfg ring g \<Longrightarrow> gateway_wf cfg ring (HeartbeatManager_sweep now tmo order g)"
  by (rule gw_step_wf [OF _ gw_step.sweep]) (auto simp: gateway_wf_def conns_wf_sweep)

lemma conn_wf_newConn:
  "0 \<le> writePos ring \<Longrightarrow> conn_wf cfg ring cid (newConn cid (nat (SendChanSize (cfg_Gateway cfg))) ring now)"
  by (simp add: conn_wf_def newConn_def conn_ok_def Ring_NewCursor_def in_int64_def int64_min_def int64_max_def)

lemma conn_wf_SetUID: "conn_wf cfg ring cid c \<Longrightarrow> 0 < uid \<Longrightarrow> in_int64 uid \<Longrightarrow> conn_wf cfg ring cid (Conn_SetUID uid c)"
  by (simp add: conn_wf_def conn_ok_def Conn_SetUID_def)

lemma gateway_wf_accept:
  assumes "gateway_wf cfg ring g" "heap g cid = None" "0 \<le> writePos ring"
  shows "gateway_wf cfg ring (Server_accept (MaxConnections (cfg_Gateway cfg))
    (nat (SendChanSize (cfg_Gateway cfg))) ring cid now g)"
  using assms
  by (intro gw_step_wf [OF assms(1) gw_step.accept])
    (auto simp: gateway_wf_def conns_wf_def Server_accept_def ConnManager_Register_def conn_wf_newConn)

lemma gateway_wf_bind:
  assumes "gateway_wf cfg ring g" "heap g cid = Some c" "0 < uid" "in_int64 uid"
  shows "gateway_wf cfg ring (ConnManager_BindUser uid cid g)"
proof (rule gw_step_wf [OF assms(1) gw_step.bind [OF assms(2,3)]])
  have wf: "conns_wf cfg ring (bind_kick uid cid g)"
    using assms(1) conns_wf_Close [of cfg ring "g\<lparr>userConns := (userConns g)(uid := None)\<rparr>"]
    by (auto simp: bind_kick_def gateway_wf_def conns_wf_def Let_def split: option.splits)
  then show "conns_wf cfg ring (ConnManager_BindUser uid cid g)"
    using assms(3,4) by (auto simp: BindUser_kick Let_def conns_wf_def conn_wf_SetUID split: if_splits)
qed simp

lemma gateway_wf_push: "gateway_wf cfg ring g \<Longrightarrow> gateway_wf cfg ring (ConnManager_PushToUID uid data g)"
  by (auto simp: ConnManager_PushToUID_def conn_wf_def conn_ok_Send intro!: gateway_wf_upd split: option.splits)

lemma gateway_wf_pushed: "pushed g g' \<Longrightarrow> gateway_wf cfg ring g \<Longrightarrow> gateway_wf cfg ring g'"
  by (induction rule: pushed.induct) (simp_all add: gateway_wf_push)

lemma gateway_wf_ring: "gateway_wf cfg ring g \<Longrightarrow> writePos ring \<le> writePos ring' \<Longrightarrow> gateway_wf cfg ring' g"
  unfolding gateway_wf_def conns_wf_def conn_wf_def by (meson order_trans)

paragraph \<open>Handling a frame\<close>

definition frame_effect :: "config \<Rightarrow> ('r, 'm) im \<Rightarrow> ('r, 'm) im \<Rightarrow> bool" where
  "frame_effect cfg s s' \<longleftrightarrow>
     gateway_wf cfg (im_ring s') (im_gw s') \<and> im_ring s' = im_ring s \<and> im_bus s' = im_bus s \<and>
     im_batch s' = im_batch s \<and> (length (im_writeCh s) \<le> writeChCap \<longrightarrow> length (im_writeCh s') \<le> writeChCap)"

lemma effect_refl: "gateway_wf cfg (im_ring s) (im_gw s) \<Longrightarrow> frame_effect cfg s s"
  by (simp add: frame_effect_def)

lemma reply_effect:
  assumes "reply_with D cid frame cmd payload s1 = Some (out, s')" "frame_effect cfg s s1"
  shows "frame_effect cfg s s'"
proof (cases "heap (im_gw s1) cid")
  case (Some c)
  let ?c = "snd (Conn_Reply (dProto D) frame cmd payload c)"
  obtain rs where rs: "?c = c\<lparr>respCh := rs\<rparr>" using Conn_Reply_resp by blast
  have wf: "gateway_wf cfg (im_ring s1) (im_gw s1)" using assms(2) unfolding frame_effect_def by blast
  have "s' = s1\<lparr>im_gw := upd_conn cid (\<lambda>_. ?c) (im_gw s1)\<rparr>"
    using assms(1) Some by (auto simp: reply_with_def im_reply_def split: prod.splits)
  moreover have "gateway_wf cfg (im_ring s1) (upd_conn cid (\<lambda>_. ?c) (im_gw s1))"
    using conn_ok_Reply [of c "dProto D" frame cmd payload] rs Some
    by (intro gateway_wf_upd [OF wf]) (auto simp: conn_wf_def)
  ultimately show ?thesis using assms(2) by (simp add: frame_effect_def)
qed (use assms in \<open>auto simp: reply_with_def im_reply_def\<close>)

lemma parse_token_range: "parseSimpleToken token = Inr v \<Longrightarrow> 0 < v \<and> in_int64 v"
  using Sscanf_d_in_int64 [of "drop 4 token"] by (auto simp: parseSimpleToken_def split: if_splits option.splits)

lemma auth_frame_effect:
  assumes "AuthHandler_Handle D clk cid frame s = Some (out, s')" "gateway_wf cfg (im_ring s) (im_gw s)"
    and "heap (im_gw s) cid \<noteq> None"
  shows "frame_effect cfg s s'"
proof -
  obtain now code msg uid s1 where r: "sendAuthResp D now cid frame code msg uid s1 = Some (out, s')"
    "s1 = s \<or> (\<exists>uid r token. parseSimpleToken token = Inr uid \<and>
        s1 = s\<lparr>im_gw := ConnManager_BindUser uid cid (im_gw s), im_redis := r\<rparr>)"
    using assms(1) by (rule auth_then_reply) blast
  have "frame_effect cfg s s1"
    using r(2) assms(2,3) by (auto simp: frame_effect_def intro: gateway_wf_bind dest!: parse_token_range)
  with r(1) show ?thesis by (auto simp: sendAuthResp_def dest: reply_effect split: option.splits)
qed

lemma send_frame_effect:
  assumes "redis_doc view (dRedis D)" "HandleSendMsg D filters node clk cid frame s = Some (Ret e, s')"
    and "gateway_wf cfg (im_ring s) (im_gw s)"
  shows "frame_effect cfg s s'"
proof -
  have "frame_effect cfg s s1" if "SendMsg D filters node clk uid sender req s = Some (out, s1)" for uid sender req out s1
  proof -
    note f = SendMsg_frame [OF assms(1) that]
    show ?thesis using gateway_wf_pushed [OF f(3) assms(3)] f(1,2,4,5) by (simp add: frame_effect_def)
  qed
  then show ?thesis using HandleSendMsg_reply [OF assms(2)] effect_refl [OF assms(3)] reply_effect by blast
qed

lemma pull_frame_effect:
  assumes "HandlePullMsg D clk cid frame s = Some (Ret e, s')" "gateway_wf cfg (im_ring s) (im_gw s)"
  shows "frame_effect cfg s s'"
proof -
  have "frame_effect cfg s s1" if "PullMsg D now ch m lim s = (x, s1)" for now ch m lim x s1
    using PullMsg_state [OF that] assms(2) by (auto simp: frame_effect_def)
  then show ?thesis using HandlePullMsg_reply [OF assms(1)] effect_refl [OF assms(2)] reply_effect by blast
qed

lemma dispatch_effect:
  assumes doc: "redis_doc view (dRedis D)"
    and run: "Dispatch (app_dispatcher D filters node) clk cid frame s = Some (Ret e, s')"
    and wf: "gateway_wf cfg (im_ring s) (im_gw s)" and conn: "heap (im_gw s) cid \<noteq> None"
  shows "frame_effect cfg s s'"
  using run
proof (cases rule: dispatch_cases)
  case beat
  then show ?thesis using reply_effect effect_refl [OF wf] unfolding HandleHeartbeat_def by blast
qed (use auth_frame_effect [OF _ wf conn] send_frame_effect [OF doc _ wf] pull_frame_effect [OF _ wf] effect_refl [OF wf]
    in blast)+

paragraph \<open>All steps\<close>

lemma wf_ring_put: "im_wf cfg s \<Longrightarrow> im_wf cfg (s\<lparr>im_ring := broadcastNotify D msg (im_ring s)\<rparr>)"
  by (auto simp: im_wf_def broadcastNotify_def ring_ok_Put intro: gateway_wf_ring split: option.splits sum.splits)

lemma wf_task: "im_wf cfg s \<Longrightarrow> im_wf cfg (run_task D now t (s\<lparr>im_tasks := ts\<rparr>))"
proof -
  assume "im_wf cfg s"
  then have "im_wf cfg (s\<lparr>im_tasks := ts\<rparr>)" by (simp add: im_wf_def)
  then show ?thesis
  proof (cases t)
    case (RunHandler h topic msg)
    then show ?thesis
      using wf_ring_put [OF \<open>im_wf cfg (s\<lparr>im_tasks := ts\<rparr>)\<close>, of D msg] by (cases h) simp
  qed (simp add: im_wf_def)
qed

lemma wf_writer: "im_wf cfg s \<Longrightarrow> im_wf cfg (asyncWriter D ev s)"
  by (cases ev) (auto simp: im_wf_def writer_flush_def writerBatch_def Let_def split: list.splits)

lemma conn_wf_writeLoop:
  assumes "conn_wf cfg ring cid c" "writeLoop pick c = Some c'"
  shows "conn_uid c' = conn_uid c \<and> closed c' = closed c \<and> conn_wf cfg ring cid c'"
proof -
  have "conn_uid c' = conn_uid c \<and> closed c' = closed c \<and> conn_id c' = conn_id c \<and> pushCap c' = pushCap c \<and> cursor c' = cursor c"
    using assms(2) by (cases pick) (auto simp: writeLoop_def Let_def split: list.splits)
  then show ?thesis using assms conn_ok_writeLoop by (auto simp: conn_wf_def)
qed

lemma conn_wf_drain:
  assumes "drainAndClose ok picks c = Some c'" "conn_wf cfg ring cid c"
  shows "conn_uid c' = conn_uid c \<and> closed c' = closed c \<and> conn_wf cfg ring cid c'"
  using assms
proof (induction ok picks c rule: drainAndClose.induct)
  case (2 ok p ps c)
  obtain data c1 where p: "pick_first p c = Some (data, c1)" using 2(2) by (auto split: option.splits)
  let ?c2 = "if ok then c1\<lparr>wire := wire c1 @ data\<rparr> else c1"
  have "conn_uid ?c2 = conn_uid c \<and> closed ?c2 = closed c \<and> conn_wf cfg ring cid ?c2"
    using p 2(3) by (cases p) (auto simp: conn_wf_def conn_ok_def split: list.splits)
  then show ?case using 2(1) [OF p refl] 2(2) p by auto
qed (auto split: if_splits)

lemma conn_wf_consume:
  assumes "conn_wf cfg ring cid c" "ring_ok ring"
  shows "conn_uid (ringConsumerLoop ring c) = conn_uid c \<and> closed (ringConsumerLoop ring c) = closed c \<and>
    conn_wf cfg ring cid (ringConsumerLoop ring c)"
  using assms conn_ok_ringConsumerLoop [of c ring]
  by (auto simp: conn_wf_def ringConsumerLoop_def Let_def Ring_WritePos_def ring_ok_def)

lemma im_step_wf:
  assumes doc: "redis_doc view (dRedis D)" and step: "im_step D cfg node s s'" and wf: "im_wf cfg s"
  shows "im_wf cfg s'"
  using step
proof cases
  case (do_accept cid now)
  then show ?thesis using wf gateway_wf_accept by (auto simp: im_wf_def ring_ok_def)
next
  case (do_frame cid c clk frame e)
  let ?s = "s\<lparr>im_gw := upd_conn cid (\<lambda>c. c\<lparr>lastHeartbeat := clk 0\<rparr>) (im_gw s)\<rparr>"
  have "gateway_wf cfg (im_ring ?s) (im_gw ?s)"
    using wf by (auto simp: im_wf_def conn_wf_def conn_ok_def intro!: gateway_wf_upd)
  moreover have "heap (im_gw ?s) cid \<noteq> None" using do_frame(1) by simp
  ultimately have "frame_effect cfg ?s s'"
    by (rule dispatch_effect [OF doc do_frame(2) [unfolded readLoop_frame_def]])
  then show ?thesis using wf unfolding im_wf_def frame_effect_def by auto
next
  case (do_consume cid)
  then show ?thesis using wf conn_wf_consume by (auto simp: im_wf_def intro!: gateway_wf_upd)
next
  case (do_write cid c pick c')
  then show ?thesis using wf conn_wf_writeLoop by (auto simp: im_wf_def intro!: gateway_wf_upd)
next
  case (do_drain cid c ok picks c')
  then show ?thesis using wf conn_wf_drain by (auto simp: im_wf_def intro!: gateway_wf_upd)
next
  case (do_task ts t us now)
  then show ?thesis using wf wf_task by blast
next
  case (do_writer ev)
  then show ?thesis using wf wf_writer by blast
qed (use wf in \<open>auto simp: gateway_wf_Close gateway_wf_sweep im_wf_def\<close>)

lemma app_ring:
  "NewBroadcastRing 4096 = Some \<lparr>buf = replicate 4096 None, rmask = 4095, writePos = 0\<rparr>"
  by (simp add: NewBroadcastRing_def round_up.simps wrap64_def)

lemma app_New_wf:
  assumes "app_New cfg stamp r m = Some (Inr s)"
  shows "im_wf cfg s"
proof -
  let ?ring = "\<lparr>buf = replicate 4096 None, rmask = 4095, writePos = 0\<rparr> :: ring"
  have "ring_ok ?ring" "Ring_Capacity ?ring = 4096"
    by (auto simp: ring_ok_def Ring_Capacity_def intro: exI [of _ 12])
  moreover have "gateway_wf cfg ?ring (NewConnManager (app_nodeID cfg stamp))"
    using gw_inv_reach [OF gw_reach.start] by (simp add: gateway_wf_def conns_wf_def NewConnManager_def)
  ultimately show ?thesis
    using assms by (auto simp: app_New_def app_ring im_wf_def writerBatch_def split: sum.splits)
qed

lemma im_reach_wf: "im_reach D cfg stamp s \<Longrightarrow> redis_doc view (dRedis D) \<Longrightarrow> im_wf cfg s"
  by (induction rule: im_reach.induct) (auto intro: app_New_wf im_step_wf)

end
