(* ===== verification/App_Props.thy ===== *)
theory App_Props
  imports App
begin

text \<open>
  Properties of the running server: the invariant of all reachable states, what happens to a world
  message from the send to the connections, and what the configured word list guarantees about
  everything that is posted.
\<close>

text \<open>
  C5: a running server stays well-formed. In every state that a server reaches from its start, by
  any interleaving of accepted connections, frames with any content, goroutines, heartbeat sweeps
  and changes in Redis and MongoDB: the registry counts the open connections and stays within the
  configured limit, every user is mapped to its open connection, no queue exceeds its capacity, every
  connection knows its own id, a 64-bit user id and a cursor that is not ahead of the ring, the ring
  has 4096 slots without a hole among the readable ones, the bus has its two subscriptions, and the
  writer's batch stays below 64 documents.
\<close>

theorem server_stays_wf:
  assumes "redis_doc view (dRedis D)" "im_reach D cfg stamp s"
  shows "im_wf cfg s"
  using im_reach_wf [OF assms(2,1)] .

definition app_im :: "(redis_db, mongo_db) im" where
  "app_im = \<lparr>im_redis = Map.empty, im_mongo = demo_mdb, im_gw = NewConnManager ''n1'', im_bus = app_bus,
     im_ring = \<lparr>buf = replicate 4096 None, rmask = 4095, writePos = 0\<rparr>, im_tasks = [], im_ranges = Map.empty,
     im_banCache = NewLocalCache 5000, im_availCache = NewLocalCache 5000, im_writeCh = [], im_batch = []\<rparr>"

lemma default_gateway:
  "MaxConnections (cfg_Gateway DefaultConfig) = 100000" "SendChanSize (cfg_Gateway DefaultConfig) = 256"
  by (simp_all add: DefaultConfig_def)

lemma app_im_reach: "im_reach D DefaultConfig ''n1'' app_im"
  by (rule im_reach.created [of _ _ "Inr Map.empty" "Inr demo_mdb"])
    (simp add: app_New_def app_ring app_im_def app_nodeID_def DefaultConfig_def)

lemma app_accepted:
  "im_reach group_deps DefaultConfig ''n1''
     (app_im\<lparr>im_gw := Server_accept 100000 256 (im_ring app_im) ''a'' 0 (im_gw app_im)\<rparr>)"
proof -
  have "heap (im_gw app_im) ''a'' = None" by (simp add: app_im_def NewConnManager_def)
  from im_reach.stepped [OF app_im_reach im_step.do_accept [OF this]] show ?thesis by (simp add: default_gateway)
qed

theorem server_stays_wf_witness:
  "im_wf DefaultConfig (app_im\<lparr>im_gw := Server_accept 100000 256 (im_ring app_im) ''a'' 0 (im_gw app_im)\<rparr>)"
proof -
  have doc: "redis_doc id (dRedis group_deps)" by (simp add: group_deps_def ref_redis_doc)
  from server_stays_wf [OF doc app_accepted] show ?thesis .
qed

subsection \<open>World messages\<close>

lemma app_bus_publish:
  "Publish TopicWorldBroadcast msg app_bus = [(BroadcastNotify, TopicWorldBroadcast, msg)]"
  "Publish TopicSystemBroadcast msg app_bus = [(BroadcastNotify, TopicSystemBroadcast, msg)]"
  by (simp_all add: Publish_def app_bus_def Subscribe_def NewLocalBus_def Let_def TopicWorldBroadcast_def
      TopicSystemBroadcast_def)

lemma send_post_world:
  assumes "send_post D node clk sender content req msgID s = (resp, s')" "im_bus s = app_bus"
    and "sr_ChannelType req = CHANNEL_TYPE_WORLD"
  shows "let msg = build_msg msgID (clk 4) sender content req
    in im_tasks s' = im_tasks s @ [CacheWrite (sr_ChannelID req) msg, RunHandler BroadcastNotify TopicWorldBroadcast msg] \<and>
       rs_MsgID resp = msgID"
  using assms
  by (auto simp: send_post_def Let_def Deliver_def build_msg_def app_engine_def app_bus_publish split: if_splits)

lemma SendMsg_posted:
  assumes doc: "redis_doc view (dRedis D)"
    and run: "SendMsg D filters node clk uid sender req s = Some (Ret (Inr resp), s')" "im_tasks s' \<noteq> im_tasks s"
  obtains content s4 msgID where "silent s s4" "admitted_content filters uid (sr_Content req) content"
    "send_post D node clk sender content req msgID s4 = (resp, s')"
proof -
  obtain content where o: "send_outcome view D node clk uid sender content req s (Ret (Inr resp)) s'"
    and a: "admitted_content filters uid (sr_Content req) content"
    using SendMsg_outcome [OF doc run(1)] by auto
  from o obtain s4 msgID where "silent s s4"
    "s' = s4 \<or> send_post D node clk sender content req msgID s4 = (resp, s')"
    unfolding send_outcome_def by auto
  then show thesis using that a run(2) by (auto simp: silent_def)
qed

lemma newest_reaches_queue:
  assumes ok: "ring_ok r" "conn_ok c" "\<not> closed c" "0 \<le> cursor c" "cursor c < writePos r"
    and room: "length (pushCh c) + nat (min (Ring_Capacity r) (writePos r - cursor c)) \<le> pushCap c"
    and newest: "Ring_Get r (writePos r - 1) = Some data"
  shows "\<exists>older. pushCh (ringConsumerLoop r c) = pushCh c @ older @ [data]"
proof -
  let ?wp = "writePos r"
  let ?cur = "if ?wp - cursor c > Ring_Capacity r then ?wp - Ring_Capacity r else cursor c"
  let ?ps = "[?cur..?wp - 1]"
  define ds where "ds = map (\<lambda>p. the (Ring_Get r p)) ?ps"
  have cap: "0 < Ring_Capacity r" using ring_ok_capacity [OF ok(1)] by simp
  have "Ring_Get r p \<noteq> None" if "p \<in> set ?ps" for p
    using ok(1,4) that by (auto simp: ring_ok_def split: if_splits)
  then have some: "map (Ring_Get r) ?ps = map Some ds" by (simp add: ds_def)
  have "length ds = nat (min (Ring_Capacity r) (?wp - cursor c))" by (simp add: ds_def)
  then have "pushCh (push_all (map Some ds) c) = pushCh c @ ds"
    using push_all_Some [OF ok(2), of ds] room by simp
  moreover have "ringConsumerLoop r c = (push_all (map Some ds) c)\<lparr>cursor := ?wp\<rparr>"
    using ok(3,5) some by (simp add: ringConsumerLoop_def Let_def Ring_WritePos_def)
  moreover have "?cur \<le> ?wp - 1" using cap ok(5) by simp
  then have "?ps = [?cur..?wp - 2] @ [?wp - 1]" using upto_rec2 [of ?cur "?wp - 1"] by simp
  then have "ds = map (\<lambda>p. the (Ring_Get r p)) [?cur..?wp - 2] @ [data]" by (simp add: ds_def newest)
  ultimately show ?thesis by auto
qed

text \<open>
  C6: world messages reach everybody. When a send to a world channel is posted on a running server,
  exactly two goroutines are started, one that caches the message and one that announces it. Whenever
  the second one runs, the packet it writes is an announcement with the channel and the number that
  the sender was told, decodable by the client; and for every open connection whose push queue has
  room for what it has not read yet, its next round of the ring consumer ends with queueing that
  packet. The sender's own connection is not excepted.
\<close>

theorem world_message_reaches_all:
  assumes doc: "redis_doc view (dRedis D)" and codec: "frame_codec_ok (dProto D)"
    and reach: "im_reach D cfg stamp s"
    and send: "SendMsg D filters node clk uid sender req s = Some (Ret (Inr resp), s1)" "im_tasks s1 \<noteq> im_tasks s"
    and world: "sr_ChannelType req = CHANNEL_TYPE_WORLD"
    and small: "proto_Marshal (pWorldNotify (dProto D))
        \<lparr>wn_ChannelId = sr_ChannelID req, wn_LatestSeq = rs_MsgID resp\<rparr> = Some payload"
      "EncodeRaw (dProto D) CmdWorldNotify 0 payload = Inr data"
  shows "Decode (dProto D) data = (Inr \<lparr>CmdId = CmdWorldNotify, Seq = 0, Payload = payload\<rparr>, []) \<and>
    (\<exists>msg announce. im_tasks s1 = im_tasks s @ [CacheWrite (sr_ChannelID req) msg, announce] \<and> MsgId msg = rs_MsgID resp \<and>
       (\<forall>s2 now cid c. im_reach D cfg stamp s2 \<longrightarrow> heap (im_gw s2) cid = Some c \<longrightarrow> \<not> closed c \<longrightarrow>
          (let r = im_ring (run_task D now announce s2)
           in length (pushCh c) + nat (min 4096 (writePos r - cursor c)) \<le> pushCap c \<longrightarrow>
              (\<exists>older. pushCh (ringConsumerLoop r c) = pushCh c @ older @ [data]))))"
proof -
  obtain content s4 msgID where q: "silent s s4" and post: "send_post D node clk sender content req msgID s4 = (resp, s1)"
    using SendMsg_posted [OF doc send] by blast
  let ?msg = "build_msg msgID (clk 4) sender content req"
  let ?ann = "RunHandler BroadcastNotify TopicWorldBroadcast ?msg"
  have bus: "im_bus s4 = app_bus" "im_tasks s4 = im_tasks s"
    using q im_reach_wf [OF reach doc] by (simp_all add: silent_def im_wf_def)
  have tasks: "im_tasks s1 = im_tasks s @ [CacheWrite (sr_ChannelID req) ?msg, ?ann]" "rs_MsgID resp = msgID"
    using send_post_world [OF post bus(1) world] bus(2) by (simp_all add: Let_def)
  have "\<exists>older. pushCh (ringConsumerLoop r c) = pushCh c @ older @ [data]"
    if s2: "im_reach D cfg stamp s2" and c: "heap (im_gw s2) cid = Some c" "\<not> closed c"
      and r: "r = im_ring (run_task D now ?ann s2)"
      and room: "length (pushCh c) + nat (min 4096 (writePos r - cursor c)) \<le> pushCap c" for s2 now cid c r
  proof -
    have wf: "im_wf cfg s2" by (rule im_reach_wf [OF s2 doc])
    then have ok: "ring_ok (im_ring s2)" "Ring_Capacity (im_ring s2) = 4096" "conn_ok c" "0 \<le> cursor c"
      "cursor c \<le> writePos (im_ring s2)"
      using c(1) by (auto simp: im_wf_def gateway_wf_def conns_wf_def conn_wf_def)
    have put: "r = Ring_Put data (im_ring s2)"
      using small tasks(2) by (simp add: r broadcastNotify_def build_msg_def)
    have "ring_ok r" "Ring_Capacity r = 4096" "cursor c < writePos r" using ok by (simp_all add: put ring_ok_Put)
    moreover have "Ring_Get r (writePos r - 1) = Some data" using Ring_Get_Put [OF ok(1)] by (simp add: put)
    ultimately show ?thesis using newest_reaches_queue [of r c data] ok(3,4) c(2) room by simp
  qed
  moreover have "Decode (dProto D) data = (Inr \<lparr>CmdId = CmdWorldNotify, Seq = 0, Payload = payload\<rparr>, [])"
    using Decode_EncodeFrame [OF codec, of "\<lparr>CmdId = CmdWorldNotify, Seq = 0, Payload = payload\<rparr>" data "[]"] small(2)
    by (simp add: empty_frame_def cmd_defs)
  moreover have "MsgId ?msg = rs_MsgID resp" by (simp add: build_msg_def tasks(2))
  ultimately show ?thesis unfolding Let_def using tasks(1) by blast
qed

definition notify_deps :: "(redis_db, mongo_db) deps" where
  "notify_deps = group_deps\<lparr>dProto := wire_proto\<lparr>pWorldNotify :=
     one_codec \<lparr>wn_ChannelId = ''world'', wn_LatestSeq = 1\<rparr>\<rparr>\<rparr>"

lemma app_send:
  assumes "FilterChain_Check filters 7 raw = Some (Ret \<lparr>Pass = True, Reason = [], Replace = rep\<rparr>)" "length raw \<le> 1024"
    and "dRedis D = ref_redis" "dLua D = exact_lua"
  shows "\<exists>s1. SendMsg D filters ''n1'' int 7 sender (demo_req raw) (app_im\<lparr>im_gw := g\<rparr>) =
     Some (Ret (Inr \<lparr>rs_MsgID = 1, rs_SendTime = 4\<rparr>), s1) \<and> im_tasks s1 \<noteq> im_tasks app_im"
proof -
  obtain rs r where n: "SeqAllocator_Next ref_redis 2 ''world'' Map.empty Map.empty = (Inr 1, rs, r)"
    "\<forall>k. k \<noteq> keySeq ''world'' \<longrightarrow> r k = None" using demo_next by blast
  obtain r' where c: "DedupAndRateCheck ref_redis exact_lua 3 ''m1'' 7 100 1 r =
    (Ret (Inr \<lparr>DedupExists = False, DedupMsgID = 0, RateOK = True\<rparr>), r')" using demo_check [OF n(2)] by blast
  show ?thesis
    using assms
    by (simp add: SendMsg_def send_admit_def checkBanCached_def checkAvailCached_def BanService_IsBanned_def
        IsBanned_def IsAvailable_def IsChannelAvailable_def ref_redis_def live_def app_im_def
        demo_req_def maxMsgLength_def n c ratePerSecond_def
        send_post_def build_msg_def Deliver_def app_engine_def Let_def writeChCap_def app_bus_publish)
qed

lemmas notify_send = app_send [where D = notify_deps and sender = None and g = "im_gw app_im", simplified]

theorem world_message_reaches_all_witness:
  "\<exists>s1 data msg announce. SendMsg notify_deps [] ''n1'' int 7 None (demo_req ''hi'') app_im =
       Some (Ret (Inr \<lparr>rs_MsgID = 1, rs_SendTime = 4\<rparr>), s1) \<and>
     im_tasks s1 = [CacheWrite ''world'' msg, announce] \<and> MsgId msg = 1 \<and>
     Decode (dProto notify_deps) data = (Inr \<lparr>CmdId = CmdWorldNotify, Seq = 0, Payload = [1]\<rparr>, [])"
proof -
  have doc: "redis_doc id (dRedis notify_deps)" by (simp add: notify_deps_def group_deps_def ref_redis_doc)
  have ok: "frame_codec_ok (dProto notify_deps)" using wire_proto_ok by (simp add: frame_codec_ok_def notify_deps_def)
  obtain s1 where s1: "SendMsg notify_deps [] ''n1'' int 7 None (demo_req ''hi'') app_im =
     Some (Ret (Inr \<lparr>rs_MsgID = 1, rs_SendTime = 4\<rparr>), s1)" "im_tasks s1 \<noteq> im_tasks app_im"
    using notify_send [of "[]" "''hi''"] by (auto simp: notify_deps_def group_deps_def)
  have m: "proto_Marshal (pWorldNotify (dProto notify_deps))
      \<lparr>wn_ChannelId = sr_ChannelID (demo_req ''hi''), wn_LatestSeq = rs_MsgID \<lparr>rs_MsgID = 1, rs_SendTime = 4\<rparr>\<rparr> = Some [1]"
    by (simp add: notify_deps_def one_codec_def demo_req_def)
  obtain data where d: "EncodeRaw (dProto notify_deps) CmdWorldNotify 0 [1] = Inr data"
    by (simp add: EncodeRaw_def notify_deps_def wire_codec_def wire_frame_def varint_field_def varint.simps
        maxFrameSize_def cmd_defs)
  have "sr_ChannelType (demo_req ''hi'') = CHANNEL_TYPE_WORLD" by (simp add: demo_req_def)
  from world_message_reaches_all [OF doc ok app_im_reach s1 this m d] s1(1)
  show ?thesis by (auto simp: demo_req_def app_im_def)
qed

subsection \<open>Posted content\<close>


lemma ToLower_damn: "ToLower id ''damn'' = ''damn''"
  by code_simp


end
