(* ===== verification/Server_Ids.thy ===== *)
theory Server_Ids
  imports App_Props Msg_Pull "HOL-Library.Sublist"
begin

text \<open>
  The numbers of messages across the whole life of a server. The allocator of \<open>Seq_Alloc\<close> is one part
  of the process state; every step of the process is a sequence of steps of that model, so that what
  holds for allocated numbers holds for the messages the server posts.
\<close>

subsection \<open>The allocator inside the process\<close>

definition seq_of :: "('r, 'm) im \<Rightarrow> (string \<times> int) list \<Rightarrow> 'r seq_state" where
  "seq_of s h = \<lparr>ranges = im_ranges s, server = im_redis s, missed = [], refilled = [], issued = h\<rparr>"

definition seq_keys_same :: "redis_db \<Rightarrow> redis_db \<Rightarrow> bool" where
  "seq_keys_same db db' \<longleftrightarrow> (\<forall>ch. db' (keySeq ch) = db (keySeq ch))"

definition counters_grow :: "redis_db \<Rightarrow> redis_db \<Rightarrow> bool" where
  "counters_grow db db' \<longleftrightarrow> (\<forall>ch n. seq_counter db ch n \<longrightarrow> (\<exists>n' \<ge> n. seq_counter db' ch n'))"

lemma seq_keys_same_refl [simp]: "seq_keys_same db db"
  by (simp add: seq_keys_same_def)

lemma counters_grow_same: "seq_keys_same db db' \<Longrightarrow> counters_grow db db'"
  unfolding counters_grow_def seq_keys_same_def by (metis order_refl seq_counter_cong)

lemma seq_reach_outside:
  assumes "seq_reach view rd (seq_of s h)" "counters_grow (view (im_redis s)) (view (im_redis s'))"
    and "im_ranges s' = im_ranges s"
  shows "seq_reach view rd (seq_of s' h)"
  using seq_reach.step [OF assms(1) seq_step.others [of view "seq_of s h" "im_redis s'"]] assms(2,3)
  by (simp add: seq_of_def counters_grow_def)

lemma seq_reach_kept:
  assumes "seq_reach view (dRedis D) (seq_of s h)" "seq_keys_same (view (im_redis s)) (view (im_redis s'))"
    "im_ranges s' = im_ranges s"
  shows "seq_reach view (dRedis D) (seq_of s' h)"
  using seq_reach_outside [OF assms(1) counters_grow_same [OF assms(2)] assms(3)] .

lemma seq_other_keys [key_simps]:
  "keySeq ch \<noteq> keyPresence u" "keySeq ch \<noteq> keyMsgCache c" "keySeq ch \<noteq> keyDedup d" "keySeq ch \<noteq> keyRateLimit u"
  using redis_key_eq [of "KSeq ch" "KPresence u"] redis_key_eq [of "KSeq ch" "KMsgCache c"]
    redis_key_eq [of "KSeq ch" "KDedup d"] redis_key_eq [of "KSeq ch" "KRateLimit u"] by auto

text \<open>
  One step of the process: what it posts is at most one message, under a number the allocator gave
  out in that step.
\<close>

definition posted_in :: "('r, 'm) im \<Rightarrow> ('r, 'm) im \<Rightarrow> (string \<times> int) list" where
  "posted_in s s' = cached_ids (drop (length (im_tasks s)) (im_tasks s'))"

text \<open>
  The step is a sequence of steps of the allocator, which issue the numbers \<open>new\<close>; a number may be
  issued and not posted (when the message is refused afterwards), but no other is posted.
\<close>

definition numbers_well :: "('r \<Rightarrow> redis_db) \<Rightarrow> ('r, 'm) deps \<Rightarrow> ('r, 'm) im \<Rightarrow> ('r, 'm) im \<Rightarrow> bool" where
  "numbers_well view D s s' \<longleftrightarrow>
     (\<forall>h. seq_reach view (dRedis D) (seq_of s h) \<longrightarrow>
        (\<exists>new. seq_reach view (dRedis D) (seq_of s' (h @ new)) \<and> (posted_in s s' = [] \<or> posted_in s s' = new)))"

lemma numbers_well_quiet:
  assumes "seq_keys_same (view (im_redis s)) (view (im_redis s'))" "im_ranges s' = im_ranges s" "im_tasks s' = im_tasks s"
  shows "numbers_well view D s s'"
proof -
  have "seq_reach view (dRedis D) (seq_of s' (h @ []))" if "seq_reach view (dRedis D) (seq_of s h)" for h
    using seq_reach_kept [OF that assms(1,2)] by simp
  then show ?thesis unfolding numbers_well_def posted_in_def using assms(3) by (metis cached_ids.simps(1) drop_all order_refl)
qed

lemma numbers_well_refl: "numbers_well view D s s"
  by (rule numbers_well_quiet) (simp_all add: seq_keys_same_def)

lemma numbers_well_then:
  assumes "numbers_well view D s s1" "im_ranges s' = im_ranges s1" "im_tasks s' = im_tasks s1"
    and "seq_keys_same (view (im_redis s1)) (view (im_redis s'))"
  shows "numbers_well view D s s'"
  using assms(1) seq_reach_kept [OF _ assms(4,2)] assms(3)
  unfolding numbers_well_def posted_in_def by metis

subsection \<open>Sending\<close>

lemma send_admit_cases:
  assumes doc: "redis_doc view (dRedis D)"
    and run: "send_admit D node clk uid sender content req s = (out, s')"
  obtains (refused) "view (im_redis s') = view (im_redis s)" "im_ranges s' = im_ranges s" "im_tasks s' = im_tasks s"
    | (numbered) r2 x rs r3 s4 where "view r2 = view (im_redis s)"
        "SeqAllocator_Next (dRedis D) (clk 2) (sr_ChannelID req) (im_ranges s) r2 = (x, rs, r3)"
        "im_ranges s4 = rs" "im_tasks s4 = im_tasks s" "seq_keys_same (view r3) (view (im_redis s4))"
        "s' = s4 \<or> (\<exists>msgID resp. x = Inr msgID \<and> send_post D node clk sender content req msgID s4 = (resp, s'))"
proof -
  let ?rd = "dRedis D" and ?ch = "sr_ChannelID req"
  obtain banned bc r1 where b: "checkBanCached ?rd (clk 0) uid (im_banCache s) (im_redis s) = (banned, bc, r1)"
    by (rule prod_cases3)
  obtain avail ac r2 where a: "checkAvailCached ?rd (clk 1) (sr_ChannelType req) (im_availCache s) r1 = (avail, ac, r2)"
    by (rule prod_cases3)
  obtain x rs r3 where n: "SeqAllocator_Next ?rd (clk 2) ?ch (im_ranges s) r2 = (x, rs, r3)"
    by (rule prod_cases3)
  have v1: "view r1 = view (im_redis s)" using checkBanCached_read [OF doc b] .
  have v2: "view r2 = view (im_redis s)" using checkAvailCached_read [OF doc a] v1 by simp
  note defs = send_admit_def Let_def b a n
  let ?s3 = "s\<lparr>im_banCache := bc, im_availCache := ac, im_ranges := rs\<rparr>"
  consider "banned" | "\<not> banned" "\<not> avail" | e where "\<not> banned" "avail" "x = Inl e"
    | msgID where "\<not> banned" "avail" "x = Inr msgID" by (cases x) auto
  then show thesis
  proof cases
    case 3
    then have "s' = ?s3\<lparr>im_redis := r3\<rparr>" using run by (auto simp: defs simp del: One_nat_def)
    then show thesis using numbered [OF v2 n, of s'] by (simp add: seq_keys_same_def)
  next
    case 4
    obtain y r4 where d: "DedupAndRateCheck ?rd (dLua D) (clk 3) (sr_ClientMsgID req) uid ratePerSecond msgID r3 = (y, r4)"
      by fastforce
    have "view r4 (keySeq ch) = view r3 (keySeq ch)" for ch
      by (rule DedupAndRateCheck_frame [OF doc _ _ d]) (simp_all add: key_simps)
    moreover have "s' = ?s3\<lparr>im_redis := r4\<rparr> \<or> (\<exists>resp. send_post D node clk sender content req msgID (?s3\<lparr>im_redis := r4\<rparr>) = (resp, s'))"
      using run 4 by (auto simp: defs d simp del: One_nat_def split: go.splits sum.splits if_splits prod.splits)
    ultimately show thesis using numbered [OF v2 n, of "?s3\<lparr>im_redis := r4\<rparr>"] 4(3) by (auto simp: seq_keys_same_def)
  qed (use run v1 v2 refused in \<open>auto simp: defs simp del: One_nat_def\<close>)
qed

lemma send_admit_numbers:
  assumes doc: "redis_doc view (dRedis D)"
    and run: "send_admit D node clk uid sender content req s = (out, s')"
  shows "numbers_well view D s s'"
  using doc run
proof (cases rule: send_admit_cases)
  case refused
  then show ?thesis by (intro numbers_well_quiet) (simp_all add: seq_keys_same_def)
next
  case (numbered r2 x rs r3 s4)
  let ?new = "case x of Inl e \<Rightarrow> [] | Inr q \<Rightarrow> [(sr_ChannelID req, q)]"
  have reach: "seq_reach view (dRedis D) (seq_of s4 (h @ ?new))" if h: "seq_reach view (dRedis D) (seq_of s h)" for h
  proof -
    have "seq_reach view (dRedis D) (seq_of (s\<lparr>im_redis := r2\<rparr>) h)"
      using numbered(1) by (intro seq_reach_kept [OF h]) (simp_all add: seq_keys_same_def)
    then have "seq_reach view (dRedis D) (seq_of (s\<lparr>im_ranges := rs, im_redis := r3\<rparr>) (h @ ?new))"
      using Next_run [OF _ numbered(2)] by (simp add: seq_of_def)
    then show ?thesis using numbered(3,5) by (elim seq_reach_kept) simp_all
  qed
  show ?thesis
  proof (cases "s' = s4")
    case True
    then show ?thesis using reach numbered(4) unfolding numbers_well_def posted_in_def by auto
  next
    case False
    then obtain msgID resp where post: "x = Inr msgID" "send_post D node clk sender content req msgID s4 = (resp, s')"
      using numbered(6) by blast
    note f = send_post_frame [OF doc post(2)]
    have "posted_in s s' = ?new" using f numbered(4) post(1) by (auto simp: posted_in_def build_msg_def)
    moreover have "seq_reach view (dRedis D) (seq_of s' (h @ ?new))" if "seq_reach view (dRedis D) (seq_of s h)" for h
      using f by (intro seq_reach_kept [OF reach [OF that]]) (auto simp: seq_keys_same_def)
    ultimately show ?thesis unfolding numbers_well_def by blast
  qed
qed

lemma SendMsg_numbers:
  assumes "redis_doc view (dRedis D)" "SendMsg D filters node clk uid sender req s = Some (out, s')"
  shows "numbers_well view D s s'"
  using assms send_admit_numbers [OF assms(1)] numbers_well_refl
  by (auto simp: SendMsg_def Let_def split: if_splits option.splits go.splits)

subsection \<open>The other requests\<close>

lemma reply_numbers:
  assumes "reply_with D cid frame cmd payload s1 = Some (out, s')" "numbers_well view D s s1"
  shows "numbers_well view D s s'"
  using reply_with_only [OF assms(1)]
  by (intro numbers_well_then [OF assms(2)]) (auto simp: only_resp_def seq_keys_same_def)

lemma pipe_seq:
  assumes "redis_doc view rd" "\<And>ch. keySeq ch \<notin> cmd_key ` set cmds"
  shows "seq_keys_same (view r) (view (snd (pipe_exec rd now cmds r)))"
  using pipe_frame [OF assms(1) prod.collapse [symmetric] assms(2)] by (simp add: seq_keys_same_def)

lemma SetOnline_seq:
  "redis_doc view rd \<Longrightarrow> seq_keys_same (view r) (view (snd (SetOnline rd now uid node cid r)))"
  unfolding SetOnline_def SetPresence_def Let_def split_def snd_conv by (rule pipe_seq) (simp_all add: key_simps)

lemma auth_numbers:
  assumes doc: "redis_doc view (dRedis D)" and run: "AuthHandler_Handle D clk cid frame s = Some (out, s')"
  shows "numbers_well view D s s'"
proof -
  obtain t code msg u s1 where r: "sendAuthResp D t cid frame code msg u s1 = Some (out, s')"
    "s1 = s \<or> (\<exists>uid g. s1 = s\<lparr>im_gw := g,
       im_redis := snd (SetOnline (dRedis D) (clk 0) uid (nodeID (im_gw s)) cid (im_redis s))\<rparr>)"
    using run by (rule auth_then_reply) blast
  have "numbers_well view D s s1"
    using r(2) numbers_well_refl SetOnline_seq [OF doc] by (auto intro!: numbers_well_quiet)
  then show ?thesis using reply_numbers r(1) by (auto simp: sendAuthResp_def split: option.splits)
qed

lemma pull_numbers:
  assumes doc: "redis_doc view (dRedis D)" and run: "PullMsg D now ch m lim s = (x, s')"
  shows "numbers_well view D s s'"
proof -
  obtain out r where g: "GetMsgCache (dProto D) (dRedis D) now ch m (pull_limit lim) (im_redis s) = (out, r)" by fastforce
  have "im_redis s' = r" "im_ranges s' = im_ranges s" "im_tasks s' = im_tasks s"
    using run by (auto simp: PullMsg_def Let_def g split: if_splits prod.splits sum.splits)
  then show ?thesis
    using GetMsgCache_read [OF doc g] by (intro numbers_well_quiet) (simp_all add: seq_keys_same_def)
qed

lemma dispatch_numbers:
  assumes doc: "redis_doc view (dRedis D)"
    and run: "Dispatch (app_dispatcher D filters node) clk cid frame s = Some (Ret e, s')"
  shows "numbers_well view D s s'"
  using run
proof (cases rule: dispatch_cases)
  case send
  then show ?thesis using HandleSendMsg_reply reply_numbers SendMsg_numbers [OF doc] numbers_well_refl by metis
next
  case pull
  then show ?thesis using HandlePullMsg_reply reply_numbers pull_numbers [OF doc] numbers_well_refl by metis
next
  case beat
  then show ?thesis using reply_numbers numbers_well_refl unfolding HandleHeartbeat_def by blast
qed (use auth_numbers [OF doc] numbers_well_refl in blast)+

subsection \<open>Every step of the process\<close>

lemma task_seq:
  assumes "redis_doc view (dRedis D)"
  shows "seq_keys_same (view (im_redis s)) (view (im_redis (run_task D now t s)))"
    "im_ranges (run_task D now t s) = im_ranges s" "im_tasks (run_task D now t s) = im_tasks s"
proof -
  have "seq_keys_same (view r) (view (PostSendAsync P (dRedis D) now ch msg r))" for P ch msg r
    unfolding PostSendAsync_def Let_def
    by (auto simp del: pipe_exec.simps simp: key_simps split: option.splits intro!: pipe_seq [OF assms])
  then show "seq_keys_same (view (im_redis s)) (view (im_redis (run_task D now t s)))"
    by (cases "(D, now, t, s)" rule: run_task.cases) (simp_all add: seq_keys_same_def)
  show "im_ranges (run_task D now t s) = im_ranges s" "im_tasks (run_task D now t s) = im_tasks s"
    by (cases "(D, now, t, s)" rule: run_task.cases; simp)+
qed

lemma task_numbers:
  assumes doc: "redis_doc view (dRedis D)" and ts: "im_tasks s = ts @ t # us"
  shows "numbers_well view D s (run_task D now t (s\<lparr>im_tasks := ts @ us\<rparr>))" (is "numbers_well view D s ?s'")
proof -
  note f = task_seq [OF doc, where s = "s\<lparr>im_tasks := ts @ us\<rparr>" and now = now and t = t, simplified]
  have "seq_reach view (dRedis D) (seq_of ?s' (h @ []))" if "seq_reach view (dRedis D) (seq_of s h)" for h
    using seq_reach_kept [OF that, of ?s'] f by simp
  moreover have "posted_in s ?s' = []" using ts f(3) by (simp add: posted_in_def)
  ultimately show ?thesis unfolding numbers_well_def by blast
qed

lemma writer_keeps:
  "im_redis (asyncWriter D ev s) = im_redis s" "im_ranges (asyncWriter D ev s) = im_ranges s"
  "im_tasks (asyncWriter D ev s) = im_tasks s"
  by (cases ev; auto simp: writer_flush_def Let_def split: list.splits)+

definition only_stores :: "('r, 'm) im \<Rightarrow> ('r, 'm) im \<Rightarrow> bool" where
  "only_stores s s' \<longleftrightarrow> s' = s\<lparr>im_redis := im_redis s', im_mongo := im_mongo s'\<rparr>"

lemma im_step_numbers:
  assumes doc: "redis_doc view (dRedis D)" and step: "im_step D cfg node s s'"
    and outside: "only_stores s s' \<Longrightarrow> counters_grow (view (im_redis s)) (view (im_redis s'))"
  shows "numbers_well view D s s'"
  using step
proof cases
  case (do_frame cid c clk frame e)
  from dispatch_numbers [OF doc do_frame(2) [unfolded readLoop_frame_def]]
  show ?thesis by (simp add: numbers_well_def seq_of_def posted_in_def)
next
  case (do_task ts t us now)
  then show ?thesis using task_numbers [OF doc] by blast
next
  case (do_writer ev)
  then show ?thesis by (intro numbers_well_quiet) (simp_all only: writer_keeps seq_keys_same_refl)
next
  case (do_outside r m)
  then have "only_stores s s'" by (simp add: only_stores_def)
  then show ?thesis using do_outside outside seq_reach_outside [of view "dRedis D" s _ s']
    by (fastforce simp: numbers_well_def posted_in_def intro: exI [of _ "[]"])
qed (auto simp: seq_keys_same_def intro!: numbers_well_quiet)

subsection \<open>The life of a server\<close>

text \<open>
  A run records what the server has posted so far. Counters that other nodes use must not go back,
  and no number key holds anything but a counter when the server starts.
\<close>

inductive im_run :: "('r \<Rightarrow> redis_db) \<Rightarrow> ('r, 'm) deps \<Rightarrow> config \<Rightarrow> string \<Rightarrow> ('r, 'm) im \<Rightarrow> (string \<times> int) list \<Rightarrow> bool"
  for view D cfg stamp where
  begun: "app_New cfg stamp r m = Some (Inr s) \<Longrightarrow> (\<And>ch. \<exists>n. seq_counter (view (im_redis s)) ch n) \<Longrightarrow>
    im_run view D cfg stamp s []"
| moved: "im_run view D cfg stamp s ps \<Longrightarrow> im_step D cfg (app_nodeID cfg stamp) s s' \<Longrightarrow>
    (only_stores s s' \<Longrightarrow> counters_grow (view (im_redis s)) (view (im_redis s'))) \<Longrightarrow>
    im_run view D cfg stamp s' (ps @ posted_in s s')"

lemma app_New_seq:
  "app_New cfg stamp r m = Some (Inr s) \<Longrightarrow> (\<And>ch. \<exists>n. seq_counter (view (im_redis s)) ch n) \<Longrightarrow>
    seq_reach view rd (seq_of s [])"
  using seq_reach.start [of view "im_redis s" rd]
  by (auto simp: app_New_def seq_of_def split: sum.splits option.splits)

lemma im_run_issued:
  assumes "im_run view D cfg stamp s ps" and doc: "redis_doc view (dRedis D)"
  shows "\<exists>h. seq_reach view (dRedis D) (seq_of s h) \<and> subseq ps h"
  using assms(1)
proof induction
  case (begun r m s)
  then show ?case using app_New_seq by blast
next
  case (moved s ps s')
  then obtain h where h: "seq_reach view (dRedis D) (seq_of s h)" "subseq ps h" by blast
  have "numbers_well view D s s'" using im_step_numbers [OF doc moved(2,3)] .
  then obtain new where n: "seq_reach view (dRedis D) (seq_of s' (h @ new))" "posted_in s s' = [] \<or> posted_in s s' = new"
    using h(1) unfolding numbers_well_def by blast
  have "subseq (ps @ posted_in s s') (h @ new)" using h(2) n(2) by (auto intro: list_emb_append_mono)
  then show ?case using n(1) by blast
qed

lemma im_run_reach: "im_run view D cfg stamp s ps \<Longrightarrow> im_reach D cfg stamp s"
  by (induction rule: im_run.induct) (auto intro: im_reach.intros)

text \<open>
  C2: no message number is used twice. In the whole life of a server, whatever its clients, the
  other nodes and the stores do in between, every message it posts to a channel has a number of its
  own there, and that number lies between one and the channel's counter in Redis.
\<close>

theorem posted_numbers_unique:
  assumes "redis_doc view (dRedis D)" "im_run view D cfg stamp s ps"
  shows "distinct ps \<and> (\<forall>(ch, q) \<in> set ps. \<exists>n. seq_counter (view (im_redis s)) ch n \<and> 1 \<le> q \<and> q \<le> n)"
proof -
  obtain h where h: "seq_reach view (dRedis D) (seq_of s h)" "subseq ps h"
    using im_run_issued [OF assms(2,1)] by blast
  have i: "issued (seq_of s h) = h" "server (seq_of s h) = im_redis s" by (simp_all add: seq_of_def)
  have "set ps \<subseteq> set h" using h(2) by (metis notin_set_nthsI subseq_conv_nths subsetI)
  moreover have "distinct ps" using h(2) issued_distinct [OF assms(1) h(1)] i(1) by (metis distinct_nthsI subseq_conv_nths)
  ultimately show ?thesis using issued_counted [OF assms(1) h(1)] i by fastforce
qed

text \<open>A client connects, authenticates and sends a message to the world channel.\<close>

definition run_deps :: "(redis_db, mongo_db) deps" where
  "run_deps = group_deps\<lparr>dProto := wire_proto\<lparr>
     pAuthReq := one_codec \<lparr>Token = ''uid:'' @ Sprintf_d 7, Version = [], ChannelLastMsgIds = []\<rparr>,
     pSendMsgReq := one_codec \<lparr>sq_ChannelId = ''world'', sq_ChannelType = CHANNEL_TYPE_WORLD, sq_Content = ''hi'',
       sq_MsgType = 1, sq_MsgParam = [], sq_ClientMsgId = ''m1''\<rparr>\<rparr>\<rparr>"

definition run_frame :: "u32 \<Rightarrow> frame" where
  "run_frame cmd = \<lparr>CmdId = cmd, Seq = 1, Payload = [1]\<rparr>"

lemma run_redis: "dRedis run_deps = ref_redis" "redis_doc id (dRedis run_deps)" "dLua run_deps = exact_lua"
  by (simp_all add: run_deps_def group_deps_def ref_redis_doc)

lemma moved_quiet:
  assumes "im_run view D cfg stamp s ps" "im_step D cfg (app_nodeID cfg stamp) s s'" "im_tasks s' = im_tasks s"
    and "counters_grow (view (im_redis s)) (view (im_redis s'))"
  shows "im_run view D cfg stamp s' ps"
  using im_run.moved [OF assms(1,2)] assms(3,4) by (simp add: posted_in_def)

lemma run_begun: "im_run id run_deps DefaultConfig ''n1'' app_im []"
proof (rule im_run.begun [of _ _ "Inr Map.empty" "Inr demo_mdb"])
  show "\<exists>n. seq_counter (id (im_redis app_im)) ch n" for ch
    by (rule exI [of _ 0]) (simp add: seq_counter_def app_im_def in_int64_def int64_max_def int64_min_def)
qed (simp add: app_New_def app_ring app_im_def app_nodeID_def DefaultConfig_def)

lemma run_token: "token_uid (dProto run_deps) [1] = Some 7"
  using Sscanf_d_Sprintf_d [of 7]
  by (simp add: token_uid_def run_deps_def one_codec_def parseSimpleToken_def in_int64_def int64_max_def int64_min_def)

lemma run_auth:
  fixes s :: "(redis_db, mongo_db) im"
  assumes "heap (im_gw s) ''a'' \<noteq> None"
  shows "\<exists>e g r. readLoop_frame (app_dispatcher run_deps filters node) int ''a'' (run_frame CmdAuthReq) s =
      Some (Ret e, s\<lparr>im_gw := g, im_redis := r\<rparr>) \<and> seq_keys_same (im_redis s) r \<and>
      caller_uid ''a'' (s\<lparr>im_gw := g, im_redis := r\<rparr>) = 7 \<and> heap g ''a'' \<noteq> None"
proof -
  let ?s = "s\<lparr>im_gw := upd_conn ''a'' (\<lambda>c. c\<lparr>lastHeartbeat := 0\<rparr>) (im_gw s)\<rparr>"
  let ?g = "ConnManager_BindUser 7 ''a'' (im_gw ?s)"
  have marshal: "proto_Marshal (pAuthResp (dProto run_deps)) x = None" for x
    by (simp add: run_deps_def wire_proto_def no_codec_def)
  obtain e r where on: "SetOnline ref_redis 1 7 (ConnManager_NodeID ?g) ''a'' (im_redis s) = (e, r)" by fastforce
  have "readLoop_frame (app_dispatcher run_deps filters node) int ''a'' (run_frame CmdAuthReq) s =
      Some (Ret (Some (OtherError ''proto'')), s\<lparr>im_gw := ?g, im_redis := r\<rparr>)"
    using run_token on run_redis(1)
    by (simp add: readLoop_frame_def Dispatch_def run_frame_def AuthHandler_Handle_def token_uid_def Let_def sendAuthResp_def
        marshal cmd_defs split: option.splits sum.splits)
  moreover have "seq_keys_same (im_redis s) r" using SetOnline_seq [OF ref_redis_doc] on by (metis id_apply snd_conv)
  moreover obtain c where "heap ?g ''a'' = Some c" "conn_uid c = 7" using assms BindUser_conn [of "im_gw ?s" "''a''" _ 7] by auto
  ultimately show ?thesis by (fastforce simp: caller_uid_def Conn_UID_def)
qed

lemma run_authenticated:
  "\<exists>g. im_run id run_deps DefaultConfig ''n1'' (app_im\<lparr>im_gw := g\<rparr>) [] \<and> caller_uid ''a'' (app_im\<lparr>im_gw := g\<rparr>) = 7 \<and>
     heap g ''a'' \<noteq> None"
proof -
  let ?cfg = "DefaultConfig" and ?node = "app_nodeID DefaultConfig ''n1''"
  define g1 where "g1 = Server_accept (MaxConnections (cfg_Gateway ?cfg))
    (nat (SendChanSize (cfg_Gateway ?cfg))) (im_ring app_im) ''a'' 0 (im_gw app_im)"
  have new: "heap (im_gw app_im) ''a'' = None" by (simp add: app_im_def NewConnManager_def)
  have c: "heap g1 ''a'' \<noteq> None"
    by (simp add: g1_def Server_accept_def default_gateway app_im_def NewConnManager_def ConnManager_Count_def
        ConnManager_Register_def)
  have "im_run id run_deps ?cfg ''n1'' (app_im\<lparr>im_gw := g1\<rparr>) []"
    using im_step.do_accept [OF new, of run_deps ?cfg _ 0, folded g1_def]
    by (intro moved_quiet [OF run_begun]) (simp_all add: counters_grow_same)
  moreover obtain e g r where f: "readLoop_frame (app_dispatcher run_deps (filterChain run_deps) ?node) int ''a''
      (run_frame CmdAuthReq) (app_im\<lparr>im_gw := g1\<rparr>) = Some (Ret e, app_im\<lparr>im_gw := g, im_redis := r\<rparr>)"
    "seq_keys_same (im_redis app_im) r" "caller_uid ''a'' (app_im\<lparr>im_gw := g, im_redis := r\<rparr>) = 7" "heap g ''a'' \<noteq> None"
    using run_auth [of "app_im\<lparr>im_gw := g1\<rparr>"] c by fastforce
  have step: "im_step run_deps ?cfg ?node (app_im\<lparr>im_gw := g1\<rparr>) (app_im\<lparr>im_gw := g, im_redis := r\<rparr>)"
    using im_step.do_frame [OF _ f(1)] c by fastforce
  ultimately have auth: "im_run id run_deps ?cfg ''n1'' (app_im\<lparr>im_gw := g, im_redis := r\<rparr>) []"
    using f(2) by (elim moved_quiet [OF _ step]) (simp_all add: counters_grow_same)
  have "im_step run_deps ?cfg ?node (app_im\<lparr>im_gw := g, im_redis := r\<rparr>) (app_im\<lparr>im_gw := g\<rparr>)"
    using im_step.do_outside [of _ _ _ "app_im\<lparr>im_gw := g, im_redis := r\<rparr>" demo_mdb Map.empty] by (simp add: app_im_def)
  then have "im_run id run_deps ?cfg ''n1'' (app_im\<lparr>im_gw := g\<rparr>) []"
    using f(2) by (intro moved_quiet [OF auth] counters_grow_same) (simp_all add: seq_keys_same_def)
  then show ?thesis using f(3,4) by (auto simp: caller_uid_def)
qed

lemma run_filter: "\<exists>r. FilterChain_Check (filterChain run_deps) 7 ''hi'' = Some (Ret \<lparr>Pass = True, Reason = [], Replace = r\<rparr>)"
proof -
  have "plain (dLower run_deps) ''hi''" by (rule plain_ascii) simp
  moreover have "\<forall>w \<in> set dirtyWords. word_ok (dLower run_deps) w"
    by (auto simp: dirtyWords_def word_ok_def intro!: plain_ascii)
  ultimately show ?thesis using chain_masks_words [of _ "''hi''" _ 7] unfolding filterChain_def by blast
qed

lemma run_posted: "\<exists>s. im_run id run_deps DefaultConfig ''n1'' s [(''world'', 1)]"
proof -
  let ?cfg = "DefaultConfig" and ?node = "app_nodeID DefaultConfig ''n1''" and ?clk = "\<lambda>i. int i - 1"
  obtain g where g: "im_run id run_deps ?cfg ''n1'' (app_im\<lparr>im_gw := g\<rparr>) []"
    "caller_uid ''a'' (app_im\<lparr>im_gw := g\<rparr>) = 7" "heap g ''a'' \<noteq> None" using run_authenticated by blast
  define g' where "g' = upd_conn ''a'' (\<lambda>c. c\<lparr>lastHeartbeat := - 1\<rparr>) g"
  obtain rep where rep: "FilterChain_Check (filterChain run_deps) 7 ''hi'' = Some (Ret \<lparr>Pass = True, Reason = [], Replace = rep\<rparr>)"
    using run_filter by blast
  obtain s1 where s1: "SendMsg run_deps (filterChain run_deps) ''n1'' int 7 (Some (conn_sender 7)) (demo_req ''hi'')
      (app_im\<lparr>im_gw := g'\<rparr>) = Some (Ret (Inr \<lparr>rs_MsgID = 1, rs_SendTime = 4\<rparr>), s1)" "im_tasks s1 \<noteq> im_tasks app_im"
    using app_send [OF rep _ run_redis(1,3)] by auto
  obtain content s4 msgID where q: "silent (app_im\<lparr>im_gw := g'\<rparr>) s4" and
    p: "send_post run_deps ''n1'' int (Some (conn_sender 7)) content (demo_req ''hi'') msgID s4 =
      (\<lparr>rs_MsgID = 1, rs_SendTime = 4\<rparr>, s1)"
    by (rule SendMsg_posted [OF run_redis(2) s1(1)]) (use s1(2) in auto)
  have post: "cached_ids (im_tasks s1) = [(''world'', 1)]"
    using send_post_frame [OF run_redis(2) p] q by (auto simp: silent_def app_im_def build_msg_def demo_req_def)
  obtain e s2 where rep: "reply_with run_deps ''a'' (run_frame CmdSendMsgReq) CmdSendMsgResp
      (mustMarshal (pSendMsgResp (dProto run_deps)) (send_resp 0 ''ok'' 1 4)) s1 = Some (Ret e, s2)"
    unfolding reply_with_def split_def Let_def by blast
  have u: "caller_uid ''a'' (app_im\<lparr>im_gw := g'\<rparr>) = 7"
    using g(2) by (auto simp: caller_uid_def g'_def Conn_UID_def split: option.splits)
  have m: "proto_Unmarshal (pSendMsgReq (dProto run_deps)) [1] = Some req" "svc_req req = demo_req ''hi''"
    if "req = \<lparr>sq_ChannelId = ''world'', sq_ChannelType = CHANNEL_TYPE_WORLD, sq_Content = ''hi'',
       sq_MsgType = 1, sq_MsgParam = [], sq_ClientMsgId = ''m1''\<rparr>" for req
    by (simp_all add: that run_deps_def one_codec_def svc_req_def demo_req_def)
  have n: "?node = ''n1''" by (simp add: app_nodeID_def DefaultConfig_def)
  have "readLoop_frame (app_dispatcher run_deps (filterChain run_deps) ?node) ?clk ''a'' (run_frame CmdSendMsgReq)
      (app_im\<lparr>im_gw := g\<rparr>) = Some (Ret e, s2)"
    using s1(1) rep u m [OF refl]
    by (simp add: readLoop_frame_def Dispatch_def run_frame_def HandleSendMsg_def n cmd_defs g'_def [symmetric])
  then have step: "im_step run_deps ?cfg ?node (app_im\<lparr>im_gw := g\<rparr>) s2"
    using im_step.do_frame [of "app_im\<lparr>im_gw := g\<rparr>" "''a''"] g(3) by fastforce
  have "posted_in (app_im\<lparr>im_gw := g\<rparr>) s2 = [(''world'', 1)]"
    using post reply_with_only [OF rep] by (auto simp: posted_in_def only_resp_def app_im_def)
  moreover have "\<not> only_stores (app_im\<lparr>im_gw := g\<rparr>) s2"
    using calculation by (auto simp: only_stores_def posted_in_def dest: arg_cong [where f = im_tasks])
  ultimately show ?thesis using im_run.moved [OF g(1) step] by auto
qed

theorem posted_numbers_unique_witness:
  "\<exists>s. im_run id run_deps DefaultConfig ''n1'' s [(''world'', 1)] \<and>
     (\<exists>n. seq_counter (im_redis s) ''world'' n \<and> 1 \<le> n)"
proof -
  obtain s where s: "im_run id run_deps DefaultConfig ''n1'' s [(''world'', 1)]" using run_posted by blast
  from posted_numbers_unique [OF run_redis(2) s] s show ?thesis by auto
qed

end
