(* ===== verification/Server_Gateway.thy ===== *)
theory Server_Gateway
  imports App_Props
begin

text \<open>
  The running server refines the model of its gateway: seen from the connection registry, every step
  of the process, with all its handlers and goroutines, is a sequence of steps of \<open>Conn_Manager\<close>.
\<close>

abbreviation gw_steps :: "config \<Rightarrow> gateway \<Rightarrow> gateway \<Rightarrow> bool" where
  "gw_steps cfg \<equiv> (gw_step False (MaxConnections (cfg_Gateway cfg)))\<^sup>*\<^sup>*"

text \<open>A change of one connection that keeps its user and whether it is closed.\<close>

lemma gw_upd:
  assumes "\<And>c. heap g cid = Some c \<Longrightarrow> conn_uid (f c) = conn_uid c \<and> closed (f c) = closed c"
  shows "gw_steps cfg g (upd_conn cid f g)"
proof (cases "heap g cid")
  case (Some c)
  let ?f = "\<lambda>d. (f c)\<lparr>conn_uid := conn_uid d, closed := closed d\<rparr>"
  have "f c = ?f c" using assms [OF Some] by (cases "f c") simp
  then have "upd_conn cid f g = upd_conn cid ?f g" by (intro upd_conn_cong) (simp add: Some)
  then show ?thesis
    using gw_step.queues [of ?f "False" "MaxConnections (cfg_Gateway cfg)" g cid] by (simp add: keeps_session_def r_into_rtranclp)
qed (simp add: upd_conn_absent)

lemma gw_pushed: "pushed g g' \<Longrightarrow> gw_steps cfg g g'"
proof (induction rule: pushed.induct)
  case (push_one g g' uid data)
  have "gw_steps cfg g' (ConnManager_PushToUID uid data g')"
    by (auto simp: ConnManager_PushToUID_def intro!: gw_upd split: option.splits)
  with push_one show ?case by (meson rtranclp_trans)
qed simp

lemma gw_reply: "only_resp cid s s' \<Longrightarrow> gw_steps cfg (im_gw s) (im_gw s')"
  by (auto simp: only_resp_def intro!: gw_upd)

lemma gw_handler_reply:
  assumes "reply_with D cid frame cmd payload s1 = Some (out, s')" "gw_steps cfg g (im_gw s1)"
  shows "gw_steps cfg g (im_gw s')"
  using gw_reply [OF reply_with_only [OF assms(1)], of cfg] assms(2) by simp

subsection \<open>Requests\<close>

lemma gw_auth:
  assumes "AuthHandler_Handle D clk cid frame s = Some (out, s')" "heap (im_gw s) cid \<noteq> None"
  shows "gw_steps cfg (im_gw s) (im_gw s')"
proof -
  obtain now code msg uid s1 where r: "sendAuthResp D now cid frame code msg uid s1 = Some (out, s')"
    "s1 = s \<or> (\<exists>uid r token. parseSimpleToken token = Inr uid \<and>
        s1 = s\<lparr>im_gw := ConnManager_BindUser uid cid (im_gw s), im_redis := r\<rparr>)"
    using assms(1) by (rule auth_then_reply) blast
  have "gw_steps cfg (im_gw s) (im_gw s1)"
    using r(2)
  proof (elim disjE exE conjE)
    fix uid r' token
    assume "parseSimpleToken token = Inr uid" "s1 = s\<lparr>im_gw := ConnManager_BindUser uid cid (im_gw s), im_redis := r'\<rparr>"
    then show ?thesis using assms(2) parse_token_range by (auto intro!: r_into_rtranclp gw_step.bind)
  qed simp
  then show ?thesis using gw_reply [OF sendAuthResp_only [OF r(1)], of cfg] by simp
qed

lemma gw_dispatch:
  assumes doc: "redis_doc view (dRedis D)" and conn: "heap (im_gw s) cid \<noteq> None"
    and run: "Dispatch (app_dispatcher D filters node) clk cid frame s = Some (Ret e, s')"
  shows "gw_steps cfg (im_gw s) (im_gw s')"
  using run
proof (cases rule: dispatch_cases)
  case send
  then show ?thesis
    using HandleSendMsg_reply gw_handler_reply gw_pushed SendMsg_frame(3) [OF doc] by (metis rtranclp.rtrancl_refl)
next
  case pull
  then show ?thesis using HandlePullMsg_reply gw_handler_reply PullMsg_gw by (metis rtranclp.rtrancl_refl)
next
  case beat
  then show ?thesis unfolding HandleHeartbeat_def using gw_handler_reply by blast
qed (use gw_auth [OF _ conn] in auto)

subsection \<open>Every step\<close>

lemma gw_task: "im_gw (run_task D now t s) = im_gw s"
  by (cases "(D, now, t, s)" rule: run_task.cases) simp_all

lemma gw_writer: "im_gw (asyncWriter D ev s) = im_gw s"
  by (cases ev) (auto simp: writer_flush_def Let_def split: list.splits)

lemma im_step_gateway:
  assumes doc: "redis_doc view (dRedis D)" and step: "im_step D cfg node s s'"
    and wf: "im_wf cfg s"
  shows "gw_steps cfg (im_gw s) (im_gw s')"
proof -
  have conn: "conn_wf cfg (im_ring s) cid c" if "heap (im_gw s) cid = Some c" for cid c
    using wf that unfolding im_wf_def gateway_wf_def conns_wf_def by blast
  have ring: "ring_ok (im_ring s)" using wf unfolding im_wf_def by blast
  from step show ?thesis
  proof cases
    case (do_accept cid now)
    then show ?thesis by (auto intro: r_into_rtranclp gw_step.accept)
  next
    case (do_frame cid c clk frame e)
    let ?s = "s\<lparr>im_gw := upd_conn cid (\<lambda>c. c\<lparr>lastHeartbeat := clk 0\<rparr>) (im_gw s)\<rparr>"
    have "gw_steps cfg (im_gw ?s) (im_gw s')"
      using do_frame(1) by (intro gw_dispatch [OF doc _ do_frame(2) [unfolded readLoop_frame_def]]) simp
    moreover have "gw_steps cfg (im_gw s) (im_gw ?s)" using gw_step.receive [OF do_frame(1)] by (simp add: r_into_rtranclp)
    ultimately show ?thesis by (rule rtranclp_trans [rotated])
  next
    case (do_consume cid)
    have "gw_steps cfg (im_gw s) (upd_conn cid (ringConsumerLoop (im_ring s)) (im_gw s))"
      by (rule gw_upd) (use conn_wf_consume [OF conn ring] in blast)
    then show ?thesis using do_consume by simp
  next
    case (do_write cid c pick c')
    then show ?thesis using conn_wf_writeLoop [OF conn] by (auto intro!: gw_upd)
  next
    case (do_drain cid c ok picks c')
    then show ?thesis using conn_wf_drain [OF _ conn] by (auto intro!: gw_upd)
  qed (auto simp: gw_task gw_writer intro: r_into_rtranclp gw_step.intros)
qed

lemma gw_reach_steps: "gw_steps cfg g g' \<Longrightarrow> gw_reach False (MaxConnections (cfg_Gateway cfg)) g \<Longrightarrow>
    gw_reach False (MaxConnections (cfg_Gateway cfg)) g'"
  by (induction rule: rtranclp_induct) (auto intro: gw_reach.step)

text \<open>
  C4: the server refines the gateway. Whatever requests, goroutines, sweeps and changes of the stores
  a server goes through, each of its steps is a sequence of steps of the connection registry, and
  the registry it ends up with is one that the registry's own model reaches.
\<close>

theorem server_refines_gateway:
  assumes "redis_doc view (dRedis D)" "im_reach D cfg stamp s"
  shows "gw_reach False (MaxConnections (cfg_Gateway cfg)) (im_gw s) \<and>
    (\<forall>s'. im_step D cfg (app_nodeID cfg stamp) s s' \<longrightarrow> gw_steps cfg (im_gw s) (im_gw s'))"
proof
  show "gw_reach False (MaxConnections (cfg_Gateway cfg)) (im_gw s)"
    using assms(2)
  proof induction
    case (created r m s)
    then show ?case using gw_reach.start by (auto simp: app_New_def split: sum.splits option.splits)
  next
    case (stepped s s')
    then show ?case using gw_reach_steps im_step_gateway [OF assms(1)] im_reach_wf assms(1) by blast
  qed
  show "\<forall>s'. im_step D cfg (app_nodeID cfg stamp) s s' \<longrightarrow> gw_steps cfg (im_gw s) (im_gw s')"
    using im_step_gateway [OF assms(1) _ im_reach_wf [OF assms(2,1)]] by blast
qed

theorem server_refines_gateway_witness:
  "gw_reach False 100000 (Server_accept 100000 256 (im_ring app_im) ''a'' 0 (im_gw app_im))"
proof -
  have doc: "redis_doc id (dRedis group_deps)" by (simp add: group_deps_def ref_redis_doc)
  from server_refines_gateway [OF doc app_accepted] show ?thesis by (simp add: default_gateway)
qed

end
