(* ===== verification/Store_Setup.thy ===== *)
theory Store_Setup
  imports App
begin

text \<open>
  Connecting to the stores: \<open>NewRedisStore\<close>, \<open>NewMongoStore\<close> with \<open>ensureIndexes\<close>, the two \<open>Close\<close>
  methods, and the index script \<open>scripts/mongo_indexes.js\<close>. What the drivers do when they dial, ping,
  create an index or disconnect is a parameter; \<open>index_doc\<close> is what MongoDB documents about creating
  an index.
\<close>

subsection \<open>Errors with context\<close>

fun Error :: "err \<Rightarrow> string" where
  "Error (IMError code msg) = ''['' @ Sprintf_d code @ ''] '' @ msg"
| "Error (OtherError t) = t"

definition Errorf_w :: "string \<Rightarrow> err \<Rightarrow> err" where
  "Errorf_w what e = OtherError (what @ '': '' @ Error e)"

subsection \<open>Redis\<close>

record redis_options =
  ro_Addr :: string
  ro_Password :: string
  ro_DB :: int
  ro_PoolSize :: int

text \<open>\<open>dial\<close> is the client for the options, \<open>ping\<close> its answer within five seconds.\<close>

definition NewRedisStore :: "(redis_options \<Rightarrow> 'r) \<Rightarrow> (int \<Rightarrow> 'r \<Rightarrow> err option) \<Rightarrow> redis_config \<Rightarrow> err + 'r" where
  "NewRedisStore dial ping cfg =
     (let client = dial \<lparr>ro_Addr = rc_Addr cfg, ro_Password = rc_Password cfg, ro_DB = rc_DB cfg,
                         ro_PoolSize = rc_PoolSize cfg\<rparr>
      in case ping (5 * 1000) client of
           Some e \<Rightarrow> Inl (Errorf_w ''redis ping'' e)
         | None \<Rightarrow> Inr client)"

definition RedisStore_Close :: "('r \<Rightarrow> err option \<times> 'r) \<Rightarrow> 'r \<Rightarrow> err option \<times> 'r" where
  "RedisStore_Close close r = close r"

subsection \<open>Indexes\<close>

record index_spec =
  ix_coll :: string
  ix_keys :: "(string \<times> int) list"
  ix_unique :: bool
  ix_expire :: "int option"
  ix_name :: string

text \<open>Without a name the driver joins the keys and their directions.\<close>

fun default_name :: "(string \<times> int) list \<Rightarrow> string" where
  "default_name [] = []"
| "default_name [(k, d)] = k @ ''_'' @ Sprintf_d d"
| "default_name ((k, d) # keys) = k @ ''_'' @ Sprintf_d d @ ''_'' @ default_name keys"

text \<open>What an index does, apart from its name.\<close>

definition index_effect :: "index_spec \<Rightarrow> string \<times> (string \<times> int) list \<times> bool \<times> int option" where
  "index_effect ix = (ix_coll ix, ix_keys ix, ix_unique ix, ix_expire ix)"

definition messages_index :: index_spec where
  "messages_index = \<lparr>ix_coll = ''im_messages'', ix_keys = [(''channel_id'', 1), (''msg_id'', 1)], ix_unique = True,
     ix_expire = None, ix_name = default_name [(''channel_id'', 1), (''msg_id'', 1)]\<rparr>"

definition sender_index :: index_spec where
  "sender_index = \<lparr>ix_coll = ''im_messages'', ix_keys = [(''sender_id'', 1)], ix_unique = False,
     ix_expire = None, ix_name = default_name [(''sender_id'', 1)]\<rparr>"

definition offline_index :: index_spec where
  "offline_index = \<lparr>ix_coll = ''im_offline_messages'', ix_keys = [(''uid'', 1), (''created_at'', 1)], ix_unique = False,
     ix_expire = None, ix_name = default_name [(''uid'', 1), (''created_at'', 1)]\<rparr>"

definition ttl_index :: index_spec where
  "ttl_index = \<lparr>ix_coll = ''im_offline_messages'', ix_keys = [(''created_at'', 1)], ix_unique = False,
     ix_expire = Some (7 * 24 * 3600), ix_name = default_name [(''created_at'', 1)]\<rparr>"

type_synonym 'm create_index = "index_spec \<Rightarrow> 'm \<Rightarrow> err option \<times> 'm"

text \<open>The last index is allowed to fail.\<close>

definition ensureIndexes :: "'m create_index \<Rightarrow> 'm \<Rightarrow> err option \<times> 'm" where
  "ensureIndexes create m =
     (case create messages_index m of
        (Some e, m1) \<Rightarrow> (Some (Errorf_w ''messages index'' e), m1)
      | (None, m1) \<Rightarrow>
          (case create sender_index m1 of
             (Some e, m2) \<Rightarrow> (Some (Errorf_w ''messages sender index'' e), m2)
           | (None, m2) \<Rightarrow>
               (case create offline_index m2 of
                  (Some e, m3) \<Rightarrow> (Some (Errorf_w ''offline index'' e), m3)
                | (None, m3) \<Rightarrow> (let (e, m4) = create ttl_index m3 in (None, m4)))))"

text \<open>The script stops at the first call that throws.\<close>

definition script_indexes :: "index_spec list" where
  "script_indexes =
     [\<lparr>ix_coll = ''im_messages'', ix_keys = [(''channel_id'', 1), (''msg_id'', 1)], ix_unique = True,
       ix_expire = None, ix_name = ''idx_channel_msgid''\<rparr>,
      \<lparr>ix_coll = ''im_messages'', ix_keys = [(''sender_id'', 1)], ix_unique = False,
       ix_expire = None, ix_name = ''idx_sender''\<rparr>,
      \<lparr>ix_coll = ''im_offline_messages'', ix_keys = [(''uid'', 1), (''created_at'', 1)], ix_unique = False,
       ix_expire = None, ix_name = ''idx_uid_created''\<rparr>,
      \<lparr>ix_coll = ''im_offline_messages'', ix_keys = [(''created_at'', 1)], ix_unique = False,
       ix_expire = Some 604800, ix_name = ''idx_ttl_7d''\<rparr>]"

fun run_script :: "'m create_index \<Rightarrow> index_spec list \<Rightarrow> 'm \<Rightarrow> err option \<times> 'm" where
  "run_script create [] m = (None, m)"
| "run_script create (ix # ixs) m =
     (case create ix m of (Some e, m') \<Rightarrow> (Some e, m') | (None, m') \<Rightarrow> run_script create ixs m')"

subsection \<open>MongoDB\<close>

record 'm mongo_store =
  ms_client :: 'm
  ms_db :: string
  ms_messages :: string
  ms_offline :: string
  ms_channels :: string

record 'm mongo_driver =
  md_Connect :: "string \<Rightarrow> err + 'm"
  md_Ping :: "int \<Rightarrow> 'm \<Rightarrow> err option"
  md_CreateIndex :: "'m create_index"
  md_Disconnect :: "'m \<Rightarrow> err option \<times> 'm"

text \<open>Failing to create the indexes is only logged.\<close>

definition NewMongoStore :: "'m mongo_driver \<Rightarrow> mongo_config \<Rightarrow> err + 'm mongo_store" where
  "NewMongoStore dr cfg =
     (case md_Connect dr (mc_URI cfg) of
        Inl e \<Rightarrow> Inl (Errorf_w ''mongo connect'' e)
      | Inr client \<Rightarrow>
          (case md_Ping dr (mc_Timeout cfg) client of
             Some e \<Rightarrow> Inl (Errorf_w ''mongo ping'' e)
           | None \<Rightarrow>
               (let (e, client') = ensureIndexes (md_CreateIndex dr) client
                in Inr \<lparr>ms_client = client', ms_db = mc_Database cfg, ms_messages = ''im_messages'',
                       ms_offline = ''im_offline_messages'', ms_channels = ''im_channels''\<rparr>)))"

definition MongoStore_Close :: "'m mongo_driver \<Rightarrow> 'm mongo_store \<Rightarrow> err option \<times> 'm mongo_store" where
  "MongoStore_Close dr s = (let (e, c) = md_Disconnect dr (ms_client s) in (e, s\<lparr>ms_client := c\<rparr>))"

subsection \<open>What MongoDB documents about indexes\<close>

text \<open>
  Two definitions on one collection conflict when they differ and share the keys or the name.
  Creating an index that exists does nothing, a conflicting one is an error, and a call that fails
  leaves the indexes as they are.
\<close>

definition index_conflict :: "index_spec \<Rightarrow> index_spec \<Rightarrow> bool" where
  "index_conflict ix jx \<longleftrightarrow>
     ix \<noteq> jx \<and> ix_coll ix = ix_coll jx \<and> (ix_keys ix = ix_keys jx \<or> ix_name ix = ix_name jx)"

definition index_doc :: "('m \<Rightarrow> index_spec list) \<Rightarrow> 'm create_index \<Rightarrow> bool" where
  "index_doc ixs create \<longleftrightarrow>
     (\<forall>ix m e m'. create ix m = (e, m') \<longrightarrow>
        (e \<noteq> None \<longrightarrow> ixs m' = ixs m) \<and>
        (e = None \<longrightarrow> ixs m' = (if ix \<in> set (ixs m) then ixs m else ixs m @ [ix])) \<and>
        (list_ex (index_conflict ix) (ixs m) \<longrightarrow> e \<noteq> None))"

text \<open>A server that refuses nothing but conflicts.\<close>

definition ref_create :: "index_spec list create_index" where
  "ref_create ix m =
     (if list_ex (index_conflict ix) m then (Some (OtherError ''IndexOptionsConflict''), m)
      else (None, if ix \<in> set m then m else m @ [ix]))"

lemma ref_create_doc: "index_doc id ref_create"
  unfolding index_doc_def ref_create_def by simp

lemma index_docD:
  assumes "index_doc ixs create" "create ix m = (e, m')"
  shows "e \<noteq> None \<Longrightarrow> ixs m' = ixs m" "e = None \<Longrightarrow> ixs m' = (if ix \<in> set (ixs m) then ixs m else ixs m @ [ix])"
    "list_ex (index_conflict ix) (ixs m) \<Longrightarrow> e \<noteq> None"
  using assms unfolding index_doc_def by blast+

lemmas index_defs = messages_index_def sender_index_def offline_index_def ttl_index_def script_indexes_def

subsection \<open>The code and the script\<close>

text \<open>One creation that succeeds on a list of indexes without a conflict.\<close>

lemma index_created:
  assumes "index_doc ixs create" "create ix m = (None, m')" "ix \<notin> set (ixs m)"
  shows "ixs m' = ixs m @ [ix]"
  using index_docD(2) [OF assms(1,2)] assms(3) by simp

lemma ensure_none:
  assumes "ensureIndexes create m = (None, m')"
  obtains m1 m2 m3 e where "create messages_index m = (None, m1)" "create sender_index m1 = (None, m2)"
    "create offline_index m2 = (None, m3)" "create ttl_index m3 = (e, m')"
  using assms by (auto simp: ensureIndexes_def split: prod.splits option.splits)

lemma ensure_keeps:
  assumes doc: "index_doc ixs create" and run: "ensureIndexes create m = (None, m')"
  shows "set (ixs m) \<subseteq> set (ixs m')" "{messages_index, sender_index, offline_index} \<subseteq> set (ixs m')"
proof -
  obtain m1 m2 m3 e where r: "create messages_index m = (None, m1)" "create sender_index m1 = (None, m2)"
    "create offline_index m2 = (None, m3)" "create ttl_index m3 = (e, m')" using run by (rule ensure_none)
  have "set (ixs m1) = insert messages_index (set (ixs m))" "set (ixs m2) = insert sender_index (set (ixs m1))"
    "set (ixs m3) = insert offline_index (set (ixs m2))"
    using index_docD(2) [OF doc r(1)] index_docD(2) [OF doc r(2)] index_docD(2) [OF doc r(3)] by auto
  moreover have "set (ixs m3) \<subseteq> set (ixs m')" using index_docD(1,2) [OF doc r(4)] by (cases e) auto
  ultimately show "set (ixs m) \<subseteq> set (ixs m')" "{messages_index, sender_index, offline_index} \<subseteq> set (ixs m')" by auto
qed

lemma ensure_fresh:
  assumes doc: "index_doc ixs create" and run: "ensureIndexes create m = (None, m')" and none: "ixs m = []"
  shows "ixs m' = [messages_index, sender_index, offline_index] \<or>
    ixs m' = [messages_index, sender_index, offline_index, ttl_index]"
proof -
  obtain m1 m2 m3 e where r: "create messages_index m = (None, m1)" "create sender_index m1 = (None, m2)"
    "create offline_index m2 = (None, m3)" "create ttl_index m3 = (e, m')" using run by (rule ensure_none)
  have "ixs m1 = [messages_index]" using index_created [OF doc r(1)] none by simp
  then have "ixs m2 = [messages_index, sender_index]" using index_created [OF doc r(2)] by (simp add: index_defs)
  then have "ixs m3 = [messages_index, sender_index, offline_index]" using index_created [OF doc r(3)] by (simp add: index_defs)
  then show ?thesis using index_docD(1,2) [OF doc r(4)] by (cases e) (auto simp: index_defs)
qed

lemma run_script_fresh:
  assumes doc: "index_doc ixs create" and run: "run_script create js m = (None, m')" and "distinct (ixs m @ js)"
  shows "ixs m' = ixs m @ js"
  using run assms(3)
proof (induction js arbitrary: m)
  case (Cons ix js)
  then obtain m1 where c: "create ix m = (None, m1)" "run_script create js m1 = (None, m')"
    by (auto split: prod.splits option.splits)
  have "ixs m1 = ixs m @ [ix]" using index_created [OF doc c(1)] Cons(3) by simp
  then show ?case using Cons(1) [OF c(2)] Cons(3) by simp
qed simp

lemma ensure_refused:
  assumes doc: "index_doc ixs create" and run: "ensureIndexes create m = (e, m')"
    and c: "list_ex (index_conflict messages_index) (ixs m)"
  shows "e \<noteq> None" "ixs m' = ixs m"
proof -
  obtain x m1 where x: "create messages_index m = (x, m1)" by fastforce
  then have "x \<noteq> None" "ixs m1 = ixs m" using index_docD(1,3) [OF doc x] c by blast+
  then show "e \<noteq> None" "ixs m' = ixs m" using run x by (auto simp: ensureIndexes_def)
qed


definition script_driver :: "index_spec list mongo_driver" where
  "script_driver = \<lparr>md_Connect = (\<lambda>_. Inr script_indexes), md_Ping = (\<lambda>_ _. None), md_CreateIndex = ref_create,
     md_Disconnect = (\<lambda>m. (None, m))\<rparr>"


text \<open>A database that refuses every index still gives a store, one without the unique index.\<close>

lemma store_without_indexes:
  assumes doc: "index_doc ixs (md_CreateIndex dr)" and none: "ixs m = []"
    and up: "md_Connect dr (mc_URI cfg) = Inr m" "md_Ping dr (mc_Timeout cfg) m = None"
    and refuse: "\<And>ix. fst (md_CreateIndex dr ix m) \<noteq> None"
  shows "\<exists>st. NewMongoStore dr cfg = Inr st \<and> ixs (ms_client st) = []"
proof -
  obtain e m1 where c: "md_CreateIndex dr messages_index m = (e, m1)" by fastforce
  have "e \<noteq> None" "ixs m1 = []" using refuse [of messages_index] index_docD(1) [OF doc c] c none by auto
  then show ?thesis using c up by (auto simp: NewMongoStore_def ensureIndexes_def)
qed

end
