(* ===== verification/Server_Life.thy ===== *)
theory Server_Life
  imports Store_Setup App_Props
begin

text \<open>
  The life of the process: \<open>cmd/server/main.go\<close>, \<open>App.Start\<close>, \<open>App.Stop\<close> and \<open>setupLogger\<close> of
  \<open>internal/app/app.go\<close>, the accept loop and \<open>Stop\<close> of \<open>internal/gateway/server.go\<close>, and the loop of
  \<open>internal/gateway/heartbeat.go\<close>. Sockets are what the operating system returns from \<open>Listen\<close>, \<open>Accept\<close>
  and \<open>Close\<close>; a signal is the cancellation of the context that \<open>main\<close> creates.
\<close>

subsection \<open>Logging\<close>

datatype log_level = LevelDebug | LevelInfo | LevelWarn | LevelError

fun level_value :: "log_level \<Rightarrow> int" where
  "level_value LevelDebug = -4"
| "level_value LevelInfo = 0"
| "level_value LevelWarn = 4"
| "level_value LevelError = 8"

instantiation log_level :: linorder
begin

definition less_eq_log_level :: "log_level \<Rightarrow> log_level \<Rightarrow> bool" where
  "less_eq_log_level a b \<longleftrightarrow> level_value a \<le> level_value b"

definition less_log_level :: "log_level \<Rightarrow> log_level \<Rightarrow> bool" where
  "less_log_level a b \<longleftrightarrow> level_value a < level_value b"

instance
proof
  fix a b :: log_level
  assume "a \<le> b" "b \<le> a"
  then show "a = b" by (cases a; cases b) (simp_all add: less_eq_log_level_def)
qed (auto simp: less_eq_log_level_def less_log_level_def)

end

datatype log_format = JSONHandler | TextHandler

record logger =
  lg_level :: log_level
  lg_format :: log_format

definition setupLogger :: "log_config \<Rightarrow> logger" where
  "setupLogger cfg =
     \<lparr>lg_level = (if lc_Level cfg = ''debug'' then LevelDebug
                  else if lc_Level cfg = ''warn'' then LevelWarn
                  else if lc_Level cfg = ''error'' then LevelError
                  else LevelInfo),
      lg_format = (if lc_Format cfg = ''json'' then JSONHandler else TextHandler)\<rparr>"

definition logs :: "logger \<Rightarrow> log_level \<Rightarrow> bool" where
  "logs lg l \<longleftrightarrow> lg_level lg \<le> l"

text \<open>Errors are logged under every configuration, warnings unless only errors were asked for.\<close>

lemma setupLogger_logs:
  "logs (setupLogger cfg) LevelError" "logs (setupLogger cfg) LevelWarn \<longleftrightarrow> lc_Level cfg \<noteq> ''error''"
  by (simp_all add: logs_def setupLogger_def less_eq_log_level_def)

subsection \<open>Accepting connections\<close>

text \<open>What \<open>Accept\<close> returns: a socket (with the id and time its connection gets), an error, or \<open>net.ErrClosed\<close>.\<close>

datatype accept_result = NewSock string int | AcceptErr string | ErrClosed

text \<open>One round of the loop, and whether it goes on.\<close>

fun Server_round :: "config \<Rightarrow> accept_result \<Rightarrow> ('r, 'm) im \<Rightarrow> ('r, 'm) im \<times> bool" where
  "Server_round cfg ErrClosed s = (s, False)"
| "Server_round cfg (AcceptErr e) s = (s, True)"
| "Server_round cfg (NewSock cid now) s =
     (s\<lparr>im_gw := Server_accept (MaxConnections (cfg_Gateway cfg)) (nat (SendChanSize (cfg_Gateway cfg)))
        (im_ring s) cid now (im_gw s)\<rparr>, True)"

text \<open>The loop over the results of successive calls; it is still running when they are used up.\<close>

fun Server_loop :: "config \<Rightarrow> accept_result list \<Rightarrow> ('r, 'm) im \<Rightarrow> ('r, 'm) im \<times> bool" where
  "Server_loop cfg [] s = (s, True)"
| "Server_loop cfg (r # rs) s =
     (case Server_round cfg r s of (s', True) \<Rightarrow> Server_loop cfg rs s' | (s', False) \<Rightarrow> (s', False))"

text \<open>The ids of the sockets that arrive before the listener is closed.\<close>

fun arrivals :: "accept_result list \<Rightarrow> string list" where
  "arrivals [] = []"
| "arrivals (ErrClosed # rs) = []"
| "arrivals (AcceptErr e # rs) = arrivals rs"
| "arrivals (NewSock cid now # rs) = cid # arrivals rs"

lemma loop_returns: "snd (Server_loop cfg rs s) \<longleftrightarrow> ErrClosed \<notin> set rs"
proof (induction rs arbitrary: s)
  case (Cons r rs)
  then show ?case by (cases r) simp_all
qed simp

lemma accept_effect:
  "Server_accept m sz ring cid now g =
     (if count g < m then g\<lparr>heap := (heap g)(cid \<mapsto> newConn cid sz ring now), conns := (conns g)(cid \<mapsto> cid), count := count g + 1\<rparr>
      else g)"
  by (simp add: Server_accept_def ConnManager_Count_def ConnManager_Register_def)

definition registers :: "string list \<Rightarrow> ('r, 'm) im \<Rightarrow> ('r, 'm) im \<Rightarrow> bool" where
  "registers cids s s' \<longleftrightarrow>
     (\<forall>cid. conns (im_gw s') cid = (if cid \<in> set cids then Some cid else conns (im_gw s) cid)) \<and>
     count (im_gw s') = count (im_gw s) + int (length cids) \<and> userConns (im_gw s') = userConns (im_gw s) \<and>
     s' = s\<lparr>im_gw := im_gw s'\<rparr>"

lemma registers_none: "registers [] s s"
  by (simp add: registers_def)

lemma registers_more:
  assumes "registers cids s s1" "registers cids' s1 s'"
  shows "registers (cids @ cids') s s'"
proof -
  have "s' = s1\<lparr>im_gw := im_gw s'\<rparr>" "s1 = s\<lparr>im_gw := im_gw s1\<rparr>" using assms unfolding registers_def by blast+
  then have "s' = s\<lparr>im_gw := im_gw s'\<rparr>" by (metis im.surjective im.update_convs(3))
  then show ?thesis using assms unfolding registers_def by auto
qed

lemma loop_registers:
  "registers (take (nat (MaxConnections (cfg_Gateway cfg) - count (im_gw s))) (arrivals rs)) s (fst (Server_loop cfg rs s))"
proof (induction rs arbitrary: s rule: arrivals.induct)
  case (4 cid now rs)
  let ?m = "MaxConnections (cfg_Gateway cfg)" and ?s = "fst (Server_round cfg (NewSock cid now) s)"
  have loop: "fst (Server_loop cfg (NewSock cid now # rs) s) = fst (Server_loop cfg rs ?s)" by simp
  show ?case
  proof (cases "count (im_gw s) < ?m")
    case True
    have "registers [cid] s ?s" "count (im_gw ?s) = count (im_gw s) + 1"
      using True by (simp_all add: registers_def accept_effect)
    moreover have "nat (?m - count (im_gw s)) = Suc (nat (?m - (count (im_gw s) + 1)))" using True by simp
    ultimately show ?thesis using registers_more [OF _ 4 [of ?s]] unfolding loop by fastforce
  next
    case False
    then have "?s = s" by (simp add: accept_effect)
    then show ?thesis using 4 [of s] False unfolding loop by simp
  qed
qed (simp_all add: registers_none)

text \<open>
  C31: the accept loop. Whatever \<open>Accept\<close> returns, the loop ends exactly when the listener has
  been closed, errors do not stop it, and of the sockets that arrive it registers the first ones
  until the configured number of connections is reached; it changes nothing else.
\<close>

theorem accept_loop_limit:
  "(let (s', running) = Server_loop cfg rs s; room = nat (MaxConnections (cfg_Gateway cfg) - count (im_gw s))
    in (running \<longleftrightarrow> ErrClosed \<notin> set rs) \<and> registers (take room (arrivals rs)) s s')"
  using loop_registers [of cfg s rs] loop_returns [of cfg rs s] by (simp add: split_def)

subsection \<open>The heartbeat loop\<close>

text \<open>The ticker fires (at a time, over the connections in some order) or the context is cancelled.\<close>

datatype beat_event = Tick int "string list" | CtxDone

record heartbeat_manager =
  hb_timeout :: int
  hb_interval :: int

definition NewHeartbeatManager :: "int \<Rightarrow> int \<Rightarrow> heartbeat_manager" where
  "NewHeartbeatManager timeout interval = \<lparr>hb_timeout = timeout, hb_interval = interval\<rparr>"

definition app_heartbeat :: "config \<Rightarrow> heartbeat_manager" where
  "app_heartbeat cfg = NewHeartbeatManager (HeartbeatTimeout (cfg_Gateway cfg)) (HeartbeatInterval (cfg_Gateway cfg))"

fun HeartbeatManager_Run :: "heartbeat_manager \<Rightarrow> beat_event list \<Rightarrow> gateway \<Rightarrow> gateway \<times> bool" where
  "HeartbeatManager_Run h [] g = (g, True)"
| "HeartbeatManager_Run h (CtxDone # evs) g = (g, False)"
| "HeartbeatManager_Run h (Tick now order # evs) g =
     HeartbeatManager_Run h evs (HeartbeatManager_sweep now (hb_timeout h) order g)"

lemma heartbeat_steps: "(gw_step strict m)\<^sup>*\<^sup>* g (fst (HeartbeatManager_Run h evs g))"
proof (induction h evs g rule: HeartbeatManager_Run.induct)
  case (3 h now order evs g)
  have "gw_step strict m g (HeartbeatManager_sweep now (hb_timeout h) order g)" by (rule gw_step.sweep)
  with 3 show ?case by (simp add: converse_rtranclp_into_rtranclp)
qed simp_all

subsection \<open>Start and stop\<close>

datatype listener = NoListener | Listening | ListenerClosed

text \<open>\<open>Start\<close> has not been called, waits in \<open>Accept\<close>, or has returned.\<close>

datatype start_phase = StartPending | Accepting | StartReturned "err option"

text \<open>How far \<open>App.Stop\<close> has come.\<close>

datatype stop_phase = NotStopping | GatewayStopped | BusStopped | MongoClosed | RedisClosed

datatype exit = Fatal string | Exited

record ('r, 'm) life =
  lf_im :: "('r, 'm) im"
  lf_listener :: listener
  lf_start :: start_phase
  lf_sweeping :: bool
  lf_cancelled :: bool
  lf_stop :: stop_phase
  lf_exit :: "exit option"

definition Server_Start :: "err option \<Rightarrow> ('r, 'm) life \<Rightarrow> ('r, 'm) life" where
  "Server_Start listen l =
     (case listen of
        Some e \<Rightarrow> l\<lparr>lf_start := StartReturned (Some e)\<rparr>
      | None \<Rightarrow> l\<lparr>lf_listener := Listening, lf_sweeping := True, lf_start := Accepting\<rparr>)"

definition Server_Accept :: "config \<Rightarrow> accept_result \<Rightarrow> ('r, 'm) life \<Rightarrow> ('r, 'm) life" where
  "Server_Accept cfg r l =
     (let (s, running) = Server_round cfg r (lf_im l)
      in l\<lparr>lf_im := s, lf_start := (if running then Accepting else StartReturned None)\<rparr>)"

text \<open>\<open>close\<close> is the result of closing the listener.\<close>

definition Server_Stop :: "err option \<Rightarrow> ('r, 'm) life \<Rightarrow> err option \<times> ('r, 'm) life" where
  "Server_Stop close l =
     (if lf_listener l \<noteq> NoListener then (close, l\<lparr>lf_listener := ListenerClosed\<rparr>) else (None, l))"

text \<open>\<open>LocalBus.Start\<close> and \<open>LocalBus.Stop\<close> only log.\<close>

definition LocalBus_Start :: "'h local_bus \<Rightarrow> err option \<times> 'h local_bus" where
  "LocalBus_Start b = (None, b)"

definition LocalBus_Stop :: "'h local_bus \<Rightarrow> err option \<times> 'h local_bus" where
  "LocalBus_Stop b = (None, b)"

definition App_Start :: "err option \<Rightarrow> ('r, 'm) life \<Rightarrow> ('r, 'm) life" where
  "App_Start listen l =
     (case LocalBus_Start (im_bus (lf_im l)) of
        (Some e, b) \<Rightarrow> l\<lparr>lf_im := (lf_im l)\<lparr>im_bus := b\<rparr>, lf_start := StartReturned (Some e)\<rparr>
      | (None, b) \<Rightarrow> Server_Start listen (l\<lparr>lf_im := (lf_im l)\<lparr>im_bus := b\<rparr>\<rparr>))"

text \<open>The four parts of \<open>App.Stop\<close>; an error of one does not keep the next from running.\<close>

definition stop_gateway :: "err option \<Rightarrow> ('r, 'm) life \<Rightarrow> ('r, 'm) life" where
  "stop_gateway close l = (snd (Server_Stop close l))\<lparr>lf_stop := GatewayStopped\<rparr>"

definition stop_bus :: "('r, 'm) life \<Rightarrow> ('r, 'm) life" where
  "stop_bus l = l\<lparr>lf_im := (lf_im l)\<lparr>im_bus := snd (LocalBus_Stop (im_bus (lf_im l)))\<rparr>, lf_stop := BusStopped\<rparr>"

definition stop_mongo :: "('m \<Rightarrow> err option \<times> 'm) \<Rightarrow> ('r, 'm) life \<Rightarrow> ('r, 'm) life" where
  "stop_mongo disconnect l =
     l\<lparr>lf_im := (lf_im l)\<lparr>im_mongo := snd (disconnect (im_mongo (lf_im l)))\<rparr>, lf_stop := MongoClosed\<rparr>"

definition stop_redis :: "('r \<Rightarrow> err option \<times> 'r) \<Rightarrow> ('r, 'm) life \<Rightarrow> ('r, 'm) life" where
  "stop_redis close l =
     l\<lparr>lf_im := (lf_im l)\<lparr>im_redis := snd (RedisStore_Close close (im_redis (lf_im l)))\<rparr>, lf_stop := RedisClosed\<rparr>"

definition App_Stop ::
  "err option \<Rightarrow> ('m \<Rightarrow> err option \<times> 'm) \<Rightarrow> ('r \<Rightarrow> err option \<times> 'r) \<Rightarrow> ('r, 'm) life \<Rightarrow> err option \<times> ('r, 'm) life" where
  "App_Stop close disconnect rclose l =
     (None, stop_redis rclose (stop_mongo disconnect (stop_bus (stop_gateway close l))))"

subsection \<open>main\<close>

text \<open>\<open>app.New\<close> on the drivers: MongoDB is only contacted when Redis answered.\<close>

definition app_connect ::
  "(redis_options \<Rightarrow> 'r) \<Rightarrow> (int \<Rightarrow> 'r \<Rightarrow> err option) \<Rightarrow> 'm mongo_driver \<Rightarrow> config \<Rightarrow> string \<Rightarrow> (err + ('r, 'm) im) option" where
  "app_connect dial ping dr cfg stamp =
     app_New cfg stamp (NewRedisStore dial ping (cfg_Redis cfg)) (map_sum id ms_client (NewMongoStore dr (cfg_Mongo cfg)))"

definition new_life :: "('r, 'm) im \<Rightarrow> ('r, 'm) life" where
  "new_life s = \<lparr>lf_im = s, lf_listener = NoListener, lf_start = StartPending, lf_sweeping = False,
     lf_cancelled = False, lf_stop = NotStopping, lf_exit = None\<rparr>"

text \<open>\<open>main\<close> up to the point where it waits for a signal; \<open>Inl\<close> is the text of \<open>log.Fatalf\<close>.\<close>

definition main_boot ::
  "(string \<Rightarrow> err + 'y) \<Rightarrow> ('y \<Rightarrow> config \<Rightarrow> err + config) \<Rightarrow> (redis_options \<Rightarrow> 'r) \<Rightarrow> (int \<Rightarrow> 'r \<Rightarrow> err option) \<Rightarrow>
     'm mongo_driver \<Rightarrow> string \<Rightarrow> string \<Rightarrow> (string + config \<times> ('r, 'm) life) option" where
  "main_boot load unmarshal dial ping dr path stamp =
     (case loadConfig load unmarshal path of
        Inl e \<Rightarrow> Some (Inl (''failed to load config: '' @ Error e))
      | Inr cfg \<Rightarrow>
          (case app_connect dial ping dr cfg stamp of
             None \<Rightarrow> None
           | Some (Inl e) \<Rightarrow> Some (Inl (''failed to create app: '' @ Error e))
           | Some (Inr s) \<Rightarrow> Some (Inr (cfg, new_life s))))"

text \<open>The goroutine that calls \<open>Start\<close> ends the process on an error other than \<open>context.Canceled\<close>.\<close>

definition main_started :: "(err \<Rightarrow> bool) \<Rightarrow> ('r, 'm) life \<Rightarrow> ('r, 'm) life" where
  "main_started canceled l =
     (case lf_start l of
        StartReturned (Some e) \<Rightarrow>
          if canceled e then l else l\<lparr>lf_exit := Some (Fatal (''app start error: '' @ Error e))\<rparr>
      | _ \<Rightarrow> l)"

lemma main_boot_returns: "main_boot load unmarshal dial ping dr path stamp \<noteq> None"
  by (auto simp: main_boot_def app_connect_def app_New_def app_ring split: sum.splits)

subsection \<open>Steps of the whole process\<close>

text \<open>
  \<open>Accept\<close> fails with \<open>net.ErrClosed\<close> exactly when the listener is closed; connections are created by
  the accept loop only.
\<close>

inductive life_step ::
  "('r, 'm) deps \<Rightarrow> (err \<Rightarrow> bool) \<Rightarrow> ('m \<Rightarrow> err option \<times> 'm) \<Rightarrow> ('r \<Rightarrow> err option \<times> 'r) \<Rightarrow> config \<Rightarrow> string \<Rightarrow>
     ('r, 'm) life \<Rightarrow> ('r, 'm) life \<Rightarrow> bool"
  for D canceled disconnect rclose cfg node where
  life_start: "lf_exit l = None \<Longrightarrow> lf_start l = StartPending \<Longrightarrow>
    life_step D canceled disconnect rclose cfg node l (main_started canceled (App_Start listen l))"
| life_accept: "lf_exit l = None \<Longrightarrow> lf_start l = Accepting \<Longrightarrow> (r = ErrClosed \<longleftrightarrow> lf_listener l = ListenerClosed) \<Longrightarrow>
    (\<And>cid now. r = NewSock cid now \<Longrightarrow> heap (im_gw (lf_im l)) cid = None) \<Longrightarrow>
    life_step D canceled disconnect rclose cfg node l (Server_Accept cfg r l)"
| life_work: "lf_exit l = None \<Longrightarrow> im_step D cfg node (lf_im l) s \<Longrightarrow>
    dom (heap (im_gw s)) = dom (heap (im_gw (lf_im l))) \<Longrightarrow>
    life_step D canceled disconnect rclose cfg node l (l\<lparr>lf_im := s\<rparr>)"
| life_signal: "lf_exit l = None \<Longrightarrow> life_step D canceled disconnect rclose cfg node l (l\<lparr>lf_cancelled := True\<rparr>)"
| life_unsweep: "lf_exit l = None \<Longrightarrow> lf_cancelled l \<Longrightarrow>
    life_step D canceled disconnect rclose cfg node l (l\<lparr>lf_sweeping := False\<rparr>)"
| life_gateway: "lf_exit l = None \<Longrightarrow> lf_cancelled l \<Longrightarrow> lf_stop l = NotStopping \<Longrightarrow>
    life_step D canceled disconnect rclose cfg node l (stop_gateway close l)"
| life_bus: "lf_exit l = None \<Longrightarrow> lf_stop l = GatewayStopped \<Longrightarrow>
    life_step D canceled disconnect rclose cfg node l (stop_bus l)"
| life_mongo: "lf_exit l = None \<Longrightarrow> lf_stop l = BusStopped \<Longrightarrow>
    life_step D canceled disconnect rclose cfg node l (stop_mongo disconnect l)"
| life_redis: "lf_exit l = None \<Longrightarrow> lf_stop l = MongoClosed \<Longrightarrow>
    life_step D canceled disconnect rclose cfg node l (stop_redis rclose l)"
| life_exit: "lf_exit l = None \<Longrightarrow> lf_stop l = RedisClosed \<Longrightarrow>
    life_step D canceled disconnect rclose cfg node l (l\<lparr>lf_exit := Some Exited\<rparr>)"

inductive life_reach ::
  "('r, 'm) deps \<Rightarrow> (err \<Rightarrow> bool) \<Rightarrow> ('m \<Rightarrow> err option \<times> 'm) \<Rightarrow> ('r \<Rightarrow> err option \<times> 'r) \<Rightarrow> config \<Rightarrow> string \<Rightarrow>
     ('r, 'm) life \<Rightarrow> bool"
  for D canceled disconnect rclose cfg stamp where
  booted: "main_boot (load :: string \<Rightarrow> err + string) unmarshal dial ping dr path stamp = Some (Inr (cfg, l)) \<Longrightarrow>
    life_reach D canceled disconnect rclose cfg stamp l"
| lived: "life_reach D canceled disconnect rclose cfg stamp l \<Longrightarrow>
    life_step D canceled disconnect rclose cfg (app_nodeID cfg stamp) l l' \<Longrightarrow>
    life_reach D canceled disconnect rclose cfg stamp l'"

text \<open>What holds between the parts of the process.\<close>

definition start_ok :: "(err \<Rightarrow> bool) \<Rightarrow> ('r, 'm) life \<Rightarrow> bool" where
  "start_ok canceled l \<longleftrightarrow>
     (case lf_start l of
        StartPending \<Rightarrow> lf_listener l = NoListener \<and> heap (im_gw (lf_im l)) = Map.empty
      | Accepting \<Rightarrow> lf_listener l \<noteq> NoListener
      | StartReturned None \<Rightarrow> lf_listener l = ListenerClosed
      | StartReturned (Some e) \<Rightarrow>
          lf_listener l = NoListener \<and> heap (im_gw (lf_im l)) = Map.empty \<and>
          (canceled e \<or> lf_exit l = Some (Fatal (''app start error: '' @ Error e))))"

definition stop_ok :: "('r, 'm) life \<Rightarrow> bool" where
  "stop_ok l \<longleftrightarrow>
     (lf_listener l = ListenerClosed \<longrightarrow> lf_stop l \<noteq> NotStopping) \<and>
     (lf_stop l \<noteq> NotStopping \<longrightarrow> lf_cancelled l) \<and>
     (lf_exit l = Some Exited \<longrightarrow> lf_stop l = RedisClosed)"

definition life_ok :: "config \<Rightarrow> (err \<Rightarrow> bool) \<Rightarrow> ('r, 'm) life \<Rightarrow> bool" where
  "life_ok cfg canceled l \<longleftrightarrow> im_wf cfg (lf_im l) \<and> start_ok canceled l \<and> stop_ok l"

lemma booted_ok:
  assumes "main_boot load unmarshal dial ping dr path stamp = Some (Inr (cfg, l))"
  shows "life_ok cfg canceled l"
proof -
  obtain s where s: "app_connect dial ping dr cfg stamp = Some (Inr s)" "l = new_life s"
    using assms by (auto simp: main_boot_def split: sum.splits option.splits)
  have "im_wf cfg s" using app_New_wf s(1) unfolding app_connect_def by blast
  moreover have "heap (im_gw s) = Map.empty"
    using s(1) by (auto simp: app_connect_def app_New_def NewConnManager_def split: sum.splits option.splits)
  ultimately show ?thesis by (simp add: life_ok_def start_ok_def stop_ok_def s(2) new_life_def)
qed

lemma round_wf:
  assumes "im_wf cfg s" "\<And>cid now. r = NewSock cid now \<Longrightarrow> heap (im_gw s) cid = None"
  shows "im_wf cfg (fst (Server_round cfg r s))"
proof (cases r)
  case (NewSock cid now)
  then show ?thesis using assms gateway_wf_accept [of cfg "im_ring s" "im_gw s" cid now] by (auto simp: im_wf_def ring_ok_def)
qed (simp_all add: assms(1))

lemma life_step_ok:
  assumes doc: "redis_doc view (dRedis D)" and ok: "life_ok cfg canceled l"
    and step: "life_step D canceled disconnect rclose cfg node l l'"
  shows "life_ok cfg canceled l'"
  using step
proof cases
  case (life_start listen)
  then show ?thesis
    using ok by (cases listen)
      (auto simp: life_ok_def start_ok_def stop_ok_def App_Start_def Server_Start_def LocalBus_Start_def main_started_def)
next
  case (life_accept r)
  then show ?thesis
    using ok round_wf [of cfg "lf_im l" r]
    by (cases r) (auto simp: life_ok_def start_ok_def stop_ok_def Server_Accept_def)
next
  case (life_work s)
  then have "im_wf cfg s" using im_step_wf [OF doc] ok unfolding life_ok_def by blast
  moreover have "heap (im_gw (lf_im l)) = Map.empty \<Longrightarrow> heap (im_gw s) = Map.empty" using life_work(4) by simp
  ultimately show ?thesis
    using ok life_work by (auto simp: life_ok_def start_ok_def stop_ok_def split: start_phase.splits option.splits)
qed (use ok in \<open>auto simp: life_ok_def start_ok_def stop_ok_def im_wf_def stop_gateway_def Server_Stop_def stop_bus_def
    LocalBus_Stop_def stop_mongo_def stop_redis_def split: start_phase.splits option.splits\<close>)

lemma life_reach_ok:
  "life_reach D canceled disconnect rclose cfg stamp l \<Longrightarrow> redis_doc view (dRedis D) \<Longrightarrow> life_ok cfg canceled l"
  by (induction rule: life_reach.induct) (auto intro: booted_ok life_step_ok)

text \<open>Once the signal has arrived, \<open>App.Stop\<close> can run to its end whatever the other goroutines are doing.\<close>

abbreviation life_steps ::
  "('r, 'm) deps \<Rightarrow> (err \<Rightarrow> bool) \<Rightarrow> ('m \<Rightarrow> err option \<times> 'm) \<Rightarrow> ('r \<Rightarrow> err option \<times> 'r) \<Rightarrow> config \<Rightarrow> string \<Rightarrow>
     ('r, 'm) life \<Rightarrow> ('r, 'm) life \<Rightarrow> bool" where
  "life_steps D canceled disconnect rclose cfg node \<equiv> (life_step D canceled disconnect rclose cfg node)\<^sup>*\<^sup>*"

lemma stop_completes:
  assumes "lf_exit l = None" "lf_cancelled l"
  shows "\<exists>l'. life_steps D canceled disconnect rclose cfg node l l' \<and> lf_exit l' = Some Exited"
proof -
  let ?reach = "\<lambda>l. \<exists>l'. life_steps D canceled disconnect rclose cfg node l l' \<and> lf_exit l' = Some Exited"
  have chain: "?reach l'" if "life_step D canceled disconnect rclose cfg node l' l''" "?reach l''" for l' l''
    using that by (meson converse_rtranclp_into_rtranclp)
  have 1: "?reach l'" if "lf_exit l' = None" "lf_stop l' = RedisClosed" for l' :: "('a, 'b) life"
    using chain [OF life_step.life_exit [OF that]] by force
  have 2: "?reach l'" if "lf_exit l' = None" "lf_stop l' = MongoClosed" for l' :: "('a, 'b) life"
    using chain [OF life_step.life_redis [OF that]] 1 that by (simp add: stop_redis_def)
  have 3: "?reach l'" if "lf_exit l' = None" "lf_stop l' = BusStopped" for l' :: "('a, 'b) life"
    using chain [OF life_step.life_mongo [OF that]] 2 that by (simp add: stop_mongo_def)
  have 4: "?reach l'" if "lf_exit l' = None" "lf_stop l' = GatewayStopped" for l' :: "('a, 'b) life"
    using chain [OF life_step.life_bus [OF that]] 3 that by (simp add: stop_bus_def)
  have 5: "?reach l" if "lf_stop l = NotStopping"
    using chain [OF life_step.life_gateway [OF assms that]] 4 assms by (simp add: stop_gateway_def Server_Stop_def)
  show ?thesis using 1 2 3 4 5 assms(1) by (cases "lf_stop l") blast+
qed


definition up_driver :: "mongo_db mongo_driver" where
  "up_driver = \<lparr>md_Connect = (\<lambda>_. Inr demo_mdb), md_Ping = (\<lambda>_ _. None), md_CreateIndex = (\<lambda>_ m. (None, m)),
     md_Disconnect = (\<lambda>m. (None, m))\<rparr>"

lemma up_boot:
  "main_boot (\<lambda>_. Inl (OtherError ''no file'')) (\<lambda>k cfg. Inr cfg) (\<lambda>_. Map.empty) (\<lambda>_ _. None) up_driver
     ''configs/config.yaml'' ''n1'' = Some (Inr (DefaultConfig, new_life app_im))"
  by (simp add: main_boot_def loadConfig_def app_connect_def NewRedisStore_def NewMongoStore_def up_driver_def
      ensureIndexes_def app_New_def app_ring app_im_def app_nodeID_def DefaultConfig_def)


end
