(* ===== verification/Load_Client.thy ===== *)
theory Load_Client
  imports App
begin

text \<open>
  The client of \<open>cmd/loadtest/main.go\<close>: framing, login, sending, heartbeats and counting
  announcements, and the two loops of its \<open>main\<close> that do not depend on floating-point rates (the
  batches of the connection storm, the split into active and idle clients). \<open>lt_out\<close> is what the
  client has written to its connection; \<open>ok\<close> says whether the connection takes the write.
\<close>

record lt_client =
  lt_uid :: int
  lt_seqN :: u32
  lt_out :: bytes

definition lt_writeFrame ::
  "proto \<Rightarrow> bool \<Rightarrow> u32 \<Rightarrow> bytes \<Rightarrow> lt_client \<Rightarrow> codec_err option \<times> lt_client" where
  "lt_writeFrame P ok cmdID payload c =
     (let sq = lt_seqN c + 1; c1 = c\<lparr>lt_seqN := sq\<rparr>
      in case EncodeRaw P cmdID sq payload of
           Inl e \<Rightarrow> (Some e, c1)
         | Inr data \<Rightarrow> if ok then (None, c1\<lparr>lt_out := lt_out c1 @ data\<rparr>) else (Some WriteBody, c1))"

text \<open>\<open>auth\<close> before and after the server's answer; \<open>reader\<close> is what arrives in time.\<close>

definition lt_auth_send :: "proto \<Rightarrow> bool \<Rightarrow> lt_client \<Rightarrow> codec_err option \<times> lt_client" where
  "lt_auth_send P ok c =
     (let req = \<lparr>Token = ''uid:'' @ Sprintf_d (lt_uid c), Version = ''loadtest'', ChannelLastMsgIds = []\<rparr>
      in lt_writeFrame P ok CmdAuthReq (mustMarshal (pAuthReq P) req) c)"

datatype lt_err = AuthRead codec_err | NotAuthResp u32

definition lt_auth_recv :: "proto \<Rightarrow> bytes \<Rightarrow> lt_err option" where
  "lt_auth_recv P reader =
     (case Decode P reader of
        (Inl e, _) \<Rightarrow> Some (AuthRead e)
      | (Inr frame, _) \<Rightarrow> if CmdId frame \<noteq> CmdAuthResp then Some (NotAuthResp (CmdId frame)) else None)"

definition newLTClient :: "int \<Rightarrow> lt_client" where
  "newLTClient uid = \<lparr>lt_uid = uid, lt_seqN = 0, lt_out = []\<rparr>"

definition sendMsgFireAndForget :: "proto \<Rightarrow> bool \<Rightarrow> int \<Rightarrow> int \<Rightarrow> lt_client \<Rightarrow> bool \<times> lt_client" where
  "sendMsgFireAndForget P ok clientIdx sq c =
     (let req = \<lparr>sq_ChannelId = ''world'', sq_ChannelType = CHANNEL_TYPE_WORLD, sq_Content = ''load test'',
                 sq_MsgType = 1, sq_MsgParam = [],
                 sq_ClientMsgId = ''lt-'' @ Sprintf_d clientIdx @ ''-'' @ Sprintf_d sq\<rparr>;
          (e, c') = lt_writeFrame P ok CmdSendMsgReq (mustMarshal (pSendMsgReq P) req) c
      in (e = None, c'))"

definition sendHeartbeat :: "proto \<Rightarrow> bool \<Rightarrow> int \<Rightarrow> lt_client \<Rightarrow> codec_err option \<times> lt_client" where
  "sendHeartbeat P ok now c =
     lt_writeFrame P ok CmdHeartbeatReq (mustMarshal (pHeartbeatReq P) \<lparr>hq_Timestamp = now\<rparr>) c"

text \<open>One round of \<open>drainFrames\<close>: errors are ignored, announcements counted, the rest dropped.\<close>

definition drainFrames_round :: "proto \<Rightarrow> bytes \<times> int \<Rightarrow> bytes \<times> int" where
  "drainFrames_round P st =
     (case Decode P (fst st) of
        (Inl e, r) \<Rightarrow> (r, snd st)
      | (Inr frame, r) \<Rightarrow> (r, if CmdId frame = CmdWorldNotify then snd st + 1 else snd st))"

subsection \<open>The loops of main\<close>

definition storm_batch :: "int \<Rightarrow> int" where
  "storm_batch connRate = (let b = (if connRate < 0 then - (- connRate div 10) else connRate div 10) in if b < 1 then 1 else b)"

function storm :: "int \<Rightarrow> int \<Rightarrow> int \<Rightarrow> int list list" where
  "storm totalConns connRate idx =
     (if idx < totalConns
      then let batchEnd = (if idx + storm_batch connRate > totalConns then totalConns else idx + storm_batch connRate)
           in [idx..batchEnd - 1] # storm totalConns connRate batchEnd
      else [])"
  by pat_completeness auto
termination
  by (relation "measure (\<lambda>(n, r, i). nat (n - i))") (auto simp: storm_batch_def Let_def)

declare storm.simps [simp del]

fun split_clients :: "nat \<Rightarrow> 'c option list \<Rightarrow> 'c list \<Rightarrow> 'c list \<Rightarrow> 'c list \<times> 'c list" where
  "split_clients numActive [] act idle = (act, idle)"
| "split_clients numActive (None # cs) act idle = split_clients numActive cs act idle"
| "split_clients numActive (Some c # cs) act idle =
     (if length act < numActive then split_clients numActive cs (act @ [c]) idle
      else split_clients numActive cs act (idle @ [c]))"

lemma storm_batch_pos: "0 < storm_batch connRate"
  by (simp add: storm_batch_def Let_def)

lemma storm_once: "idx \<le> totalConns \<Longrightarrow> concat (storm totalConns connRate idx) = [idx..totalConns - 1]"
proof (induction totalConns connRate idx rule: storm.induct)
  case (1 n r i)
  let ?e = "if i + storm_batch r > n then n else i + storm_batch r"
  show ?case
  proof (cases "i < n")
    case True
    have e: "i < ?e" "?e \<le> n" using True by (auto simp: storm_batch_def Let_def)
    have "concat (storm n r i) = [i..?e - 1] @ [?e..n - 1]"
      using 1(1) [OF True refl e(2)] True by (subst storm.simps) (simp add: Let_def)
    also have "\<dots> = [i..n - 1]"
      using e upto_split1 [of i "?e" "n - 1"] by (cases "?e = n") (auto split: if_splits)
    finally show ?thesis .
  qed (use 1(2) in \<open>simp add: storm.simps\<close>)
qed

lemma storm_sizes: "b \<in> set (storm totalConns connRate idx) \<Longrightarrow> int (length b) \<le> storm_batch connRate"
proof (induction totalConns connRate idx rule: storm.induct)
  case (1 n r i)
  let ?e = "if i + storm_batch r > n then n else i + storm_batch r"
  have "i < n" "b = [i..?e - 1] \<or> b \<in> set (storm n r ?e)"
    using 1(2) storm.simps [of n r i] by (auto simp: Let_def split: if_splits)
  then show ?case using 1(1) [OF \<open>i < n\<close> refl] storm_batch_pos [of r] by auto
qed

lemma split_clients_eq:
  "length act \<le> n \<Longrightarrow> (length act < n \<longrightarrow> idle = []) \<Longrightarrow>
   split_clients n cs act idle =
     (act @ take (n - length act) (List.map_filter id cs), idle @ drop (n - length act) (List.map_filter id cs))"
  by (induction n cs act idle rule: split_clients.induct) (auto simp: map_filter_simps take_Cons' drop_Cons' Suc_diff_Suc)

subsection \<open>Logging in\<close>

text \<open>
  C32: a client of the load test logs in. The bytes a new client for a positive 64-bit user id writes
  are one frame for the server; when the server handles that frame on a connection with an empty
  response queue without an error, the connection is bound to that user, and the one response it
  queues makes the client's login succeed.
\<close>

theorem client_logs_in:
  assumes doc: "redis_doc view (dRedis D)" and ok: "frame_codec_ok (dProto D)" "codec_ok (pAuthReq (dProto D))"
    and uid: "0 < uid" "in_int64 uid"
    and sent: "lt_auth_send (dProto D) True (newLTClient uid) = (None, c)"
      "proto_Marshal (pAuthReq (dProto D))
         \<lparr>Token = ''uid:'' @ Sprintf_d uid, Version = ''loadtest'', ChannelLastMsgIds = []\<rparr> \<noteq> None"
    and conn: "resps (im_gw s) cid = Some []"
  shows "\<exists>frame. Decode (dProto D) (lt_out c) = (Inr frame, []) \<and>
    (\<forall>s' filters node clk. readLoop_frame (app_dispatcher D filters node) clk cid frame s = Some (Ret None, s') \<longrightarrow>
       caller_uid cid s' = uid \<and> ConnManager_GetByUID uid (im_gw s') = Some cid \<and>
       (\<exists>raw. resps (im_gw s') cid = Some [raw] \<and> lt_auth_recv (dProto D) raw = None))"
proof -
  let ?P = "dProto D" and ?req = "\<lparr>Token = ''uid:'' @ Sprintf_d uid, Version = ''loadtest'', ChannelLastMsgIds = []\<rparr>"
  obtain payload where pay: "proto_Marshal (pAuthReq ?P) ?req = Some payload" using sent(2) by blast
  let ?f = "\<lparr>CmdId = CmdAuthReq, Seq = 1, Payload = payload\<rparr>"
  have "EncodeRaw ?P CmdAuthReq 1 payload = Inr (lt_out c)"
    using sent(1) pay
    by (auto simp: lt_auth_send_def lt_writeFrame_def newLTClient_def mustMarshal_def Let_def split: sum.splits)
  then have dec: "Decode ?P (lt_out c) = (Inr ?f, [])"
    using Decode_EncodeFrame [OF ok(1), of ?f "lt_out c" "[]"] by (simp add: empty_frame_def cmd_defs)
  have tok: "token_uid ?P (Payload ?f) = Some uid"
    using codec_okD [OF ok(2) pay] uid Sscanf_d_Sprintf_d [OF uid(2)] by (simp add: token_uid_def parseSimpleToken_def)
  have "caller_uid cid s' = uid \<and> ConnManager_GetByUID uid (im_gw s') = Some cid \<and>
       (\<exists>raw. resps (im_gw s') cid = Some [raw] \<and> lt_auth_recv ?P raw = None)"
    if run: "readLoop_frame (app_dispatcher D filters node) clk cid ?f s = Some (Ret None, s')" for s' filters node clk
  proof -
    let ?s = "s\<lparr>im_gw := upd_conn cid (\<lambda>c. c\<lparr>lastHeartbeat := clk 0\<rparr>) (im_gw s)\<rparr>"
    have d: "Dispatch (app_dispatcher D filters node) (\<lambda>i. clk (Suc i)) cid ?f ?s = Some (Ret None, s')"
      using run by (simp add: readLoop_frame_def)
    then have a: "AuthHandler_Handle D (\<lambda>i. clk (Suc i)) cid ?f ?s = Some (Ret None, s')"
      by (simp add: Dispatch_def cmd_defs)
    have q: "heap (im_gw ?s) cid \<noteq> None" "resps (im_gw ?s) cid = Some []"
      using conn by (auto simp: resps_def)
    have "answered ?P cid CmdAuthResp 1 None (resps (im_gw ?s)) (resps (im_gw s'))"
      using dispatch_answers [OF doc ok(1) q(2) _ _ d, of CmdAuthResp] by (simp add: respCap_def resp_cmd.simps)
    then show ?thesis
      using auth_effect(2,3) [OF q(1) a tok] q(2) by (auto simp: answered_def lt_auth_recv_def)
  qed
  then show ?thesis using dec by blast
qed

definition login_deps :: "(redis_db, mongo_db) deps" where
  "login_deps = group_deps\<lparr>dProto := wire_proto\<lparr>
     pAuthReq := one_codec \<lparr>Token = ''uid:'' @ Sprintf_d 8, Version = ''loadtest'', ChannelLastMsgIds = []\<rparr>,
     pAuthResp := one_codec \<lparr>ar_Code = Success, ar_Msg = ''ok'', ar_Uid = 8, ar_ServerTime = 5\<rparr>\<rparr>\<rparr>"

lemma login_run:
  "\<exists>s'. readLoop_frame (app_dispatcher login_deps [] ''n1'') (\<lambda>_. 5) ''b''
     \<lparr>CmdId = CmdAuthReq, Seq = 1, Payload = [1]\<rparr> group_im = Some (Ret None, s')"
proof -
  have tok: "parseSimpleToken (''uid:'' @ Sprintf_d 8) = Inr 8"
    using Sscanf_d_Sprintf_d [of 8] by (simp add: parseSimpleToken_def in_int64_def int64_max_def int64_min_def)
  obtain d where d: "EncodeRaw (dProto login_deps) CmdAuthResp 1 [1] = Inr d"
    by (simp add: EncodeRaw_def login_deps_def wire_codec_def wire_frame_def varint_field_def varint.simps
        maxFrameSize_def cmd_defs)
  have r: "\<exists>s'. reply_with login_deps ''b'' \<lparr>CmdId = CmdAuthReq, Seq = 1, Payload = [1]\<rparr> CmdAuthResp [1] s = Some (Ret None, s')" for s
    by (cases "heap (im_gw s) ''b''") (simp_all add: reply_with_def im_reply_def Conn_Reply_def d)
  have "\<exists>s'. sendAuthResp login_deps 5 ''b'' \<lparr>CmdId = CmdAuthReq, Seq = 1, Payload = [1]\<rparr> Success ''ok'' 8 s = Some (Ret None, s')" for s
    using r [of s] by (simp add: sendAuthResp_def login_deps_def one_codec_def)
  moreover have "proto_Unmarshal (pAuthReq (dProto login_deps)) [1] =
      Some \<lparr>Token = ''uid:'' @ Sprintf_d 8, Version = ''loadtest'', ChannelLastMsgIds = []\<rparr>"
    by (simp add: login_deps_def one_codec_def)
  moreover have "CmdAuthReq \<noteq> CmdHeartbeatReq" "CmdAuthReq \<noteq> CmdAckMsgReq" "CmdAuthReq \<noteq> CmdPullMsgReq"
    "CmdAuthReq \<noteq> CmdSendMsgReq" by (simp_all add: cmd_defs)
  ultimately show ?thesis
    by (simp add: readLoop_frame_def Dispatch_def AuthHandler_Handle_def tok [simplified] Let_def split: prod.splits)
qed

theorem client_logs_in_witness:
  "\<exists>c frame s'. lt_auth_send (dProto login_deps) True (newLTClient 8) = (None, c) \<and>
     Decode (dProto login_deps) (lt_out c) = (Inr frame, []) \<and>
     readLoop_frame (app_dispatcher login_deps [] ''n1'') (\<lambda>_. 5) ''b'' frame group_im = Some (Ret None, s') \<and>
     caller_uid ''b'' s' = 8"
proof -
  let ?f = "\<lparr>CmdId = CmdAuthReq, Seq = 1, Payload = [1]\<rparr>"
  have doc: "redis_doc id (dRedis login_deps)" by (simp add: login_deps_def group_deps_def ref_redis_doc)
  have ok: "frame_codec_ok (dProto login_deps)" "codec_ok (pAuthReq (dProto login_deps))"
    using wire_proto_ok by (simp_all add: frame_codec_ok_def login_deps_def)
  obtain d where d: "EncodeRaw (dProto login_deps) CmdAuthReq 1 [1] = Inr d"
    by (simp add: EncodeRaw_def login_deps_def wire_codec_def wire_frame_def varint_field_def varint.simps
        maxFrameSize_def cmd_defs)
  then obtain c where c: "lt_auth_send (dProto login_deps) True (newLTClient 8) = (None, c)" and out: "lt_out c = d"
    by (auto simp: lt_auth_send_def lt_writeFrame_def newLTClient_def mustMarshal_def login_deps_def one_codec_def Let_def)
  have m: "proto_Marshal (pAuthReq (dProto login_deps))
      \<lparr>Token = ''uid:'' @ Sprintf_d 8, Version = ''loadtest'', ChannelLastMsgIds = []\<rparr> \<noteq> None"
    by (simp add: login_deps_def one_codec_def)
  have q: "resps (im_gw group_im) ''b'' = Some []" by (simp add: resps_def group_im_def demo_gw_eq demo_heap_conn_def)
  have dec: "Decode (dProto login_deps) (lt_out c) = (Inr ?f, [])"
    using Decode_EncodeFrame [OF ok(1), of ?f d "[]"] d out by (simp add: empty_frame_def cmd_defs)
  have "(0 :: int) < 8" "in_int64 8" by (simp_all add: in_int64_def int64_max_def int64_min_def)
  from client_logs_in [OF doc ok this c m q] dec c login_run show ?thesis by fastforce
qed

end
