(* ===== verification/Load_Run.thy ===== *)
theory Load_Run
  imports Load_Client
begin

text \<open>
  The phases of \<open>main\<close> in \<open>cmd/loadtest/main.go\<close>: connecting, the heartbeat and reader goroutines, the
  senders, the wait for a broadcast and the latency summary. Goroutines and tickers are sequences of
  events. What is computed in floating point (rates, the number of active clients, percentiles) is an
  argument.
\<close>

subsection \<open>Phase 1: connecting\<close>

text \<open>\<open>newLTClient\<close> with the results of dialling and writing and the bytes that arrive in time.\<close>

datatype connect_err = DialErr string | AuthWrite codec_err | AuthErr lt_err

definition lt_connect :: "proto \<Rightarrow> string option \<Rightarrow> bool \<Rightarrow> bytes \<Rightarrow> int \<Rightarrow> connect_err + lt_client" where
  "lt_connect P dial ok reader uid =
     (case dial of
        Some e \<Rightarrow> Inl (DialErr e)
      | None \<Rightarrow>
          (case lt_auth_send P ok (newLTClient uid) of
             (Some e, c) \<Rightarrow> Inl (AuthWrite e)
           | (None, c) \<Rightarrow> (case lt_auth_recv P reader of Some e \<Rightarrow> Inl (AuthErr e) | None \<Rightarrow> Inr c)))"

record storm_state =
  st_clients :: "lt_client option list"
  st_connOK :: int
  st_connFail :: int

definition storm_start :: "nat \<Rightarrow> storm_state" where
  "storm_start totalConns = \<lparr>st_clients = replicate totalConns None, st_connOK = 0, st_connFail = 0\<rparr>"

text \<open>The goroutine of one id finishes.\<close>

definition storm_done :: "nat \<Rightarrow> connect_err + lt_client \<Rightarrow> storm_state \<Rightarrow> storm_state" where
  "storm_done i res st =
     (case res of
        Inl e \<Rightarrow> st\<lparr>st_connFail := st_connFail st + 1\<rparr>
      | Inr c \<Rightarrow> st\<lparr>st_clients := (st_clients st)[i := Some c], st_connOK := st_connOK st + 1\<rparr>)"

definition storm_run :: "(nat \<Rightarrow> connect_err + lt_client) \<Rightarrow> nat list \<Rightarrow> storm_state \<Rightarrow> storm_state" where
  "storm_run res order st = fold (\<lambda>i. storm_done i (res i)) order st"

fun client_of :: "connect_err + lt_client \<Rightarrow> lt_client option" where
  "client_of (Inl e) = None"
| "client_of (Inr c) = Some c"

lemma storm_run_Cons [simp]: "storm_run res (i # order) st = storm_run res order (storm_done i (res i) st)"
  by (simp add: storm_run_def)

lemma storm_run_Nil [simp]: "storm_run res [] st = st"
  by (simp add: storm_run_def)

lemma storm_run_counts:
  "st_connOK (storm_run res order st) = st_connOK st + int (length (filter (\<lambda>i. client_of (res i) \<noteq> None) order))"
  "st_connFail (storm_run res order st) = st_connFail st + int (length (filter (\<lambda>i. client_of (res i) = None) order))"
  by (induction order arbitrary: st) (auto simp: storm_done_def split: sum.splits)

lemma storm_run_clients:
  assumes "set order \<subseteq> {..<length (st_clients st)}" "distinct order"
  shows "length (st_clients (storm_run res order st)) = length (st_clients st)"
    "j < length (st_clients st) \<Longrightarrow> st_clients (storm_run res order st) ! j =
       (if j \<in> set order \<and> client_of (res j) \<noteq> None then client_of (res j) else st_clients st ! j)"
  using assms
proof (induction order arbitrary: st)
  case (Cons i order)
  case 1
  then show ?case using Cons(1) [of "storm_done i (res i) st"] by (auto simp: storm_done_def split: sum.splits)
next
  case (Cons i order)
  case 2
  then show ?case using Cons(2) [of "storm_done i (res i) st"] by (cases "res i") (auto simp: storm_done_def nth_list_update)
qed simp_all

text \<open>
  Whatever the order in which the connections finish, the table holds the clients that connected,
  each under its id, and the two counters add up to all of them.
\<close>

lemma storm_result:
  assumes "distinct order" "set order = {..<n}"
  shows "st_clients (storm_run res order (storm_start n)) = map (\<lambda>i. client_of (res i)) [0..<n]"
    "st_connOK (storm_run res order (storm_start n)) + st_connFail (storm_run res order (storm_start n)) = int n"
proof -
  let ?st = "storm_start n"
  have st: "length (st_clients ?st) = n" by (simp add: storm_start_def)
  have "set order \<subseteq> {..<length (st_clients ?st)}" using assms(2) st by simp
  note r = storm_run_clients [OF this assms(1), where res = res]
  show "st_clients (storm_run res order ?st) = map (\<lambda>i. client_of (res i)) [0..<n]"
    by (rule nth_equalityI) (use r st assms(2) in \<open>auto simp: storm_start_def\<close>)
  have "length order = n" using assms distinct_card by fastforce
  then show "st_connOK (storm_run res order ?st) + st_connFail (storm_run res order ?st) = int n"
    using sum_length_filter_compl [of "\<lambda>i. client_of (res i) = None" order]
    by (simp add: storm_run_counts storm_start_def)
qed

text \<open>At least one sender; \<open>share\<close> is the rounded share of the connected clients.\<close>

definition num_active :: "int \<Rightarrow> int" where
  "num_active share = (if share < 1 then 1 else share)"

subsection \<open>Phase 2: heartbeats and readers\<close>

datatype idle_event = BeatTick int bool | Stop

fun idleLoop :: "proto \<Rightarrow> idle_event list \<Rightarrow> lt_client \<Rightarrow> lt_client" where
  "idleLoop P [] c = c"
| "idleLoop P (Stop # evs) c = c"
| "idleLoop P (BeatTick now ok # evs) c = idleLoop P evs (snd (sendHeartbeat P ok now c))"

text \<open>\<open>drainFrames\<close> for a number of rounds before \<open>stop\<close> is closed.\<close>

fun drainFrames :: "proto \<Rightarrow> nat \<Rightarrow> bytes \<times> int \<Rightarrow> bytes \<times> int" where
  "drainFrames P 0 st = st"
| "drainFrames P (Suc n) st = drainFrames P n (drainFrames_round P st)"

text \<open>A reader counts exactly the announcements among the frames that were sent to it.\<close>

lemma drain_counts:
  assumes "frame_codec_ok P"
    and "list_all2 (\<lambda>f d. EncodeRaw P (CmdId f) (Seq f) (Payload f) = Inr d \<and> f \<noteq> empty_frame) fs ds"
  shows "drainFrames P (length fs) (concat ds @ rest, k) =
    (rest, k + int (length (filter (\<lambda>f. CmdId f = CmdWorldNotify) fs)))"
  using assms(2)
proof (induction arbitrary: k rule: list_all2_induct)
  case (Cons f fs d ds)
  have "Decode P (d @ concat ds @ rest) = (Inr f, concat ds @ rest)"
    using Decode_EncodeFrame [OF assms(1), of f d "concat ds @ rest"] Cons(1) by simp
  then show ?case by (simp add: drainFrames_round_def Cons(3))
qed simp

subsection \<open>Phase 3: senders\<close>

text \<open>A tick of the sender's ticker (whether the write succeeds, and how long it took) or the deadline.\<close>

datatype send_event = SendTick bool int | Deadline

record send_state =
  sd_client :: lt_client
  sd_seq :: int
  sd_sent :: int
  sd_err :: int
  sd_latencies :: "int list"

fun sender :: "proto \<Rightarrow> int \<Rightarrow> send_event list \<Rightarrow> send_state \<Rightarrow> send_state" where
  "sender P idx [] st = st"
| "sender P idx (Deadline # evs) st = st"
| "sender P idx (SendTick ok lat # evs) st =
     (let sq = sd_seq st + 1;
          (sent, c) = sendMsgFireAndForget P ok idx sq (sd_client st);
          st1 = st\<lparr>sd_client := c, sd_seq := sq\<rparr>
      in sender P idx evs
           (if sent then st1\<lparr>sd_sent := sd_sent st1 + 1, sd_latencies := sd_latencies st1 @ [lat]\<rparr>
            else st1\<lparr>sd_err := sd_err st1 + 1\<rparr>))"

fun ticks :: "send_event list \<Rightarrow> nat" where
  "ticks [] = 0"
| "ticks (Deadline # evs) = 0"
| "ticks (SendTick ok lat # evs) = Suc (ticks evs)"

text \<open>Every tick before the deadline is one message sent, with its latency, or one error.\<close>

lemma sender_counts:
  assumes "sender P idx evs st = st'"
  shows "sd_seq st' = sd_seq st + int (ticks evs)"
    "sd_sent st' + sd_err st' = sd_sent st + sd_err st + int (ticks evs)"
    "int (length (sd_latencies st')) - sd_sent st' = int (length (sd_latencies st)) - sd_sent st"
  unfolding assms [symmetric]
  by (induction P idx evs st rule: sender.induct) (auto simp: Let_def split: prod.splits)

subsection \<open>Phase 4: waiting for a broadcast\<close>

text \<open>The loop sees the number received so far and whether ten seconds have passed.\<close>

datatype wait_result = AllReceived | Timeout int | Waiting

fun wait_notifies :: "int \<Rightarrow> (int \<times> bool) list \<Rightarrow> wait_result" where
  "wait_notifies expected [] = Waiting"
| "wait_notifies expected ((received, late) # obs) =
     (if received \<ge> expected then AllReceived
      else if late then Timeout received
      else wait_notifies expected obs)"

lemma wait_timeout: "wait_notifies expected obs = Timeout n \<Longrightarrow> n < expected \<and> (n, True) \<in> set obs"
  by (induction expected obs rule: wait_notifies.induct) (auto split: if_splits)

lemma wait_received: "wait_notifies expected obs = AllReceived \<Longrightarrow> \<exists>n late. (n, late) \<in> set obs \<and> expected \<le> n"
  by (induction expected obs rule: wait_notifies.induct) (auto split: if_splits)

subsection \<open>Phase 5: the summary\<close>

text \<open>The latencies in order and their mean; \<open>quot\<close> is Go's division, towards zero.\<close>

definition quot :: "int \<Rightarrow> int \<Rightarrow> int" where
  "quot a b = (if (a < 0) = (b < 0) then \<bar>a\<bar> div \<bar>b\<bar> else - (\<bar>a\<bar> div \<bar>b\<bar>))"

definition summary :: "int list \<Rightarrow> (int list \<times> int) option" where
  "summary latencies =
     (if length latencies > 0
      then Some (sort latencies, quot (fold (\<lambda>l s. s + l) (sort latencies) 0) (int (length latencies)))
      else None)"

lemma fold_sum: "fold (\<lambda>l s. s + l) ls (k :: int) = k + sum_list ls"
  by (induction ls arbitrary: k) simp_all

lemma sum_bounds:
  fixes ls :: "int list"
  assumes "\<And>l. l \<in> set ls \<Longrightarrow> lo \<le> l \<and> l \<le> hi"
  shows "int (length ls) * lo \<le> sum_list ls \<and> sum_list ls \<le> int (length ls) * hi"
  using assms by (induction ls) (auto simp: algebra_simps add_mono)

text \<open>The mean of non-negative latencies lies between the first and the last of the sorted list.\<close>

lemma summary_mean:
  assumes "summary ls = Some (lats, avg)" "\<And>l. l \<in> set ls \<Longrightarrow> 0 \<le> l"
  shows "hd lats \<le> avg \<and> avg \<le> last lats"
proof -
  have s: "lats = sort ls" "ls \<noteq> []" "avg = quot (sum_list (sort ls)) (int (length ls))"
    using assms(1) by (auto simp: summary_def fold_sum split: if_splits)
  have ne: "sort ls \<noteq> []" using s(2) by (metis length_sort length_greater_0_conv)
  have b: "hd (sort ls) \<le> l \<and> l \<le> last (sort ls)" if l: "l \<in> set (sort ls)" for l
  proof -
    obtain i where "i < length (sort ls)" "l = sort ls ! i" using l unfolding in_set_conv_nth by metis
    then show ?thesis
      using sorted_nth_mono [OF sorted_sort, of 0 i ls] sorted_nth_mono [OF sorted_sort, of i "length ls - 1" ls] ne
      by (simp add: hd_conv_nth last_conv_nth)
  qed
  have n: "0 < int (length ls)" using s(2) by simp
  have sum: "int (length ls) * hd (sort ls) \<le> sum_list (sort ls)" "sum_list (sort ls) \<le> int (length ls) * last (sort ls)"
    using sum_bounds [of "sort ls", OF b] by auto
  have "0 \<le> sum_list (sort ls)" using assms(2) by (intro sum_list_nonneg) simp
  then have "avg = sum_list (sort ls) div int (length ls)" using n by (simp add: s(3) quot_def)
  moreover have "hd (sort ls) \<le> sum_list (sort ls) div int (length ls)"
    using sum(1) n by (metis div_mult_self1_is_m mult.commute nonzero_mult_div_cancel_left zdiv_mono1 less_irrefl)
  moreover have "sum_list (sort ls) div int (length ls) \<le> last (sort ls)"
    using sum(2) n by (metis nonzero_mult_div_cancel_left zdiv_mono1 less_irrefl)
  ultimately show ?thesis using s(1) by simp
qed

text \<open>Finally every client that connected is closed.\<close>

definition closed_clients :: "lt_client option list \<Rightarrow> lt_client list" where
  "closed_clients clients = List.map_filter id clients"

lemma all_closed: "split_clients n clients [] [] = (act, idle) \<Longrightarrow> closed_clients clients = act @ idle"
  by (auto simp: split_clients_eq closed_clients_def)

end
