(* ===== verification/Spec2Isabelle.thy ===== *)
theory Spec2Isabelle
  imports Errs Chan_Id Conn_Manager Content_Filter Redis_Dedup Redis_Cache Seq_Alloc Mongo_Store Msg_Store Msg_Pull
    Ring_Wait App_Props Server_Ids Server_Gateway Store_Setup Server_Life Load_Run
begin

text \<open>
  A verification of game-im, an instant-messaging server for games written in Go.

  \<^bold>\<open>The program.\<close> A gateway (\<open>internal/gateway\<close>) accepts TCP connections, cuts the byte stream into
  frames (\<open>codec.go\<close>), dispatches each frame by its command number (\<open>dispatcher.go\<close>) to the login
  handler (\<open>auth_handler.go\<close>) or to the message handlers (\<open>handlers.go\<close>), and keeps the registry of
  connections and users (\<open>conn_manager.go\<close>). The services (\<open>internal/service\<close>) decide whether a message
  is accepted (length, word filter, ban, channel switch, duplicate, rate limit), number it
  (\<open>seqalloc.go\<close>), cache it, queue it for storage and hand it to the delivery engine
  (\<open>internal/delivery\<close>), which pushes it to the connections of online members, stores it for offline
  members, or publishes it on the bus (\<open>internal/bus\<close>) from where an announcement goes into a
  broadcast ring (\<open>ringbuf.go\<close>) that every connection reads. State shared between servers lives in
  Redis and MongoDB (\<open>internal/store\<close>). \<open>internal/app\<close> wires all of this, and \<open>cmd/server\<close> starts and stops
  it. \<open>cmd/loadtest\<close> is a client.

  \<^bold>\<open>How Go is modelled.\<close> Strings are byte lists (HOL \<open>string\<close>), byte slices are lists of 8-bit words,
  \<open>uint32\<close> is a 32-bit word; \<open>int64\<close> values are integers, with the range written out where text is
  parsed, where Redis counts and where the ring size is rounded by shifting; times and durations are
  milliseconds. An \<open>error\<close> is a value of \<open>err\<close> in a sum or an option; a panic is \<open>Panic\<close> of type \<open>go\<close>;
  a loop that may not end is a \<open>partial_function\<close> with result \<open>None\<close>. A buffered channel is a list
  with a capacity, a \<open>select\<close> with \<open>default\<close> a test of its length; a goroutine that has been started
  and not run is an element of \<open>im_tasks\<close>; the clock at the i-th step of a call is \<open>clk i\<close>.

  \<^bold>\<open>What is a parameter.\<close> The protobuf runtime (one codec per message, \<open>codec_ok\<close>: marshalling is
  invertible), the JSON encoding of a channel state, the Redis server (\<open>redis_doc\<close>: the documented
  replies and effects of each command on a keyspace with expiry, any command may fail), Lua numbers
  inside Redis (\<open>lua_doc\<close>), MongoDB (\<open>mongo_doc\<close>, and \<open>index_doc\<close> for creating indexes), Unicode
  lower-casing (a table), the YAML library, and what the operating system returns for sockets.
  Each law is a hypothesis of the theorems that need it, and each is shown to be satisfiable by a
  concrete instance (\<open>wire_proto\<close>, \<open>demo_js\<close>, \<open>ref_redis\<close>, \<open>exact_lua\<close>, \<open>ref_mongo\<close>, \<open>ref_create\<close>),
  on which the witnesses run.

  \<^bold>\<open>The theories.\<close>
  \<^item> \<open>IM_Prelude\<close>, \<open>Go_Lib\<close>, \<open>Go_Strings\<close>: shared types and lemmas; \<open>Sprintf\<close>, \<open>Sscanf\<close>, \<open>ParseInt\<close>;
    UTF-8, \<open>ToLower\<close>, \<open>Contains\<close>, masking.
  \<^item> \<open>Errs\<close> (\<open>pkg/errs\<close>), \<open>Chan_Id\<close> (\<open>pkg/util/chanid.go\<close>): error codes; channel ids determine the
    channel.
  \<^item> \<open>Pb_Types\<close>, \<open>Proto_Wire\<close> (\<open>api/pb\<close>): messages as records; the proto3 encoding of a frame, used by
    witnesses only.
  \<^item> \<open>Codec\<close> (\<open>codec.go\<close>): encoding and decoding are inverse on streams, a stream cut anywhere is safe,
    the size limit holds on both sides.
  \<^item> \<open>Ring_Buf\<close>, \<open>Conn\<close> (\<open>ringbuf.go\<close>, \<open>conn.go\<close>): the ring and its contract \<open>broadcast_buffer\<close>; the
    loops of a connection, what they deliver and what the client decodes from the wire.
  \<^item> \<open>Ring_Wait\<close> (\<open>ringbuf.go\<close>): consumers that sleep on the ring's condition variable and the
    producers that wake them, interleaved; which wake-ups can be lost and what ends the sleep.
  \<^item> \<open>Conn_Manager\<close> (\<open>conn_manager.go\<close>, \<open>heartbeat.go\<close>, accept loop of \<open>server.go\<close>): connections are
    objects in a heap; a step relation \<open>gw_step\<close> with its invariant; logins, sweeps and pushes.
  \<^item> \<open>Content_Filter\<close> (\<open>filter.go\<close>): the contract \<open>content_filter\<close> of a filter in a chain, masking on
    texts whose lower case keeps every byte in place, and the panic and divergence outside.
  \<^item> \<open>Redis_Client\<close>, \<open>Redis_Store\<close>, \<open>Redis_Laws\<close>, \<open>Redis_Dedup\<close>, \<open>Redis_Cache\<close> (\<open>redis.go\<close>): the server
    parameter, all operations and Lua scripts, and what they promise: separated keys, life times,
    deduplication, the rate window, the message cache, member sets.
  \<^item> \<open>Mongo_Store\<close> (\<open>mongo.go\<close>): the database parameter and all queries and updates.
  \<^item> \<open>Seq_Alloc\<close> (\<open>seqalloc.go\<close>): allocation with goroutines interleaved at the lock and other servers
    on the same counter; uniqueness, order for one caller, and a run in which numbers decrease.
  \<^item> \<open>Local_Cache\<close>, \<open>Services\<close> (\<open>cache.go\<close>, \<open>ban.go\<close>, \<open>presence.go\<close>, \<open>channel.go\<close>, \<open>adapter.go\<close>): the
    contract \<open>cached_lookup\<close>; the services; the channel service refines an abstract directory.
  \<^item> \<open>Local_Bus\<close> (\<open>internal/bus\<close>): the contract \<open>message_bus\<close> and its implementation.
  \<^item> \<open>Delivery\<close>, \<open>IM_State\<close>, \<open>Delivery_Props\<close> (\<open>engine.go\<close>, \<open>offline.go\<close>): the engine over its
    interfaces (\<open>delivery_backend\<close>), the state \<open>im\<close> of a process, the engine over that state.
  \<^item> \<open>Msg_Service\<close>, \<open>Msg_Checks\<close>, \<open>Msg_Props\<close>, \<open>Msg_Store\<close>, \<open>Msg_Pull\<close> (\<open>msg.go\<close>): sending, the cached
    checks and how soon they follow a change, outcomes and retries, the background writer, pulling.
  \<^item> \<open>Handlers\<close>, \<open>Handlers_Props\<close> (\<open>cmd.go\<close>, \<open>dispatcher.go\<close>, \<open>auth_handler.go\<close>, \<open>handlers.go\<close>): requests
    and responses; what an unauthenticated client can do, one response per request, what a login
    establishes.
  \<^item> \<open>App\<close>, \<open>App_Props\<close> (\<open>configs\<close>, \<open>app.go\<close>, \<open>loadConfig\<close>): configuration, wiring, the step relation
    \<open>im_step\<close> of a running server with its invariant; world messages from the send to the queues;
    the word list on everything that is posted.
  \<^item> \<open>Server_Ids\<close>: every step of the process is a sequence of allocator steps, so that no two messages of
    a server's whole life have the same channel and number.
  \<^item> \<open>Server_Gateway\<close>: every step of the process is a sequence of steps of the connection registry.
  \<^item> \<open>Store_Setup\<close> (constructors of \<open>redis.go\<close> and \<open>mongo.go\<close>, \<open>scripts/mongo_indexes.js\<close>): connecting,
    \<open>ensureIndexes\<close> and how it compares with the script.
  \<^item> \<open>Server_Life\<close> (\<open>cmd/server/main.go\<close>, \<open>server.go\<close>, \<open>heartbeat.go\<close>, \<open>Start\<close>, \<open>Stop\<close> and the logger of
    \<open>app.go\<close>): the accept loop, boot, signal and shutdown as a step relation \<open>life_step\<close> around
    \<open>im_step\<close>, with what holds between its parts.
  \<^item> \<open>Load_Client\<close>, \<open>Load_Run\<close> (\<open>cmd/loadtest\<close>): the client against the server's handlers; the phases of
    the load test and what its counters count.

  \<^bold>\<open>Granularity.\<close> Operations are whole calls, except where an interleaving inside a call matters and a
  second model splits it: \<open>Seq_Alloc\<close> at the two critical sections of \<open>Next\<close>, \<open>Ring_Buf\<close> at the two
  accesses of \<open>Put\<close>, \<open>Ring_Wait\<close> at the lock, test and sleep of \<open>Wait\<close> and the broadcast of \<open>Put\<close>. In \<open>im_step\<close> one frame is
  handled in one step. The connection registry's \<open>sync.Map\<close> operations are atomic, the iteration
  order of a range over it is an argument. No model uses fuel: recursions are structural or have a
  termination proof, and the two loops that may not end are partial functions, shown to return on
  the domain the properties name.

  \<^bold>\<open>Not modelled.\<close> Socket options and deadlines, which only decide when a read or write fails; the
  read-buffer pool, which carries no information; what is logged and printed; the cancellation of single requests by a context; the floating-point rates and
  percentiles of the load test; getters, descriptors and reflection in the generated protobuf code,
  none of which the program calls; tests and their helper.
\<close>

end
